(* ===== verification/Prelude.thy ===== *)
theory Prelude
  imports Main "HOL-Library.Word"
begin

text \<open>
  Shared vocabulary of the development: machine words, C undefined behaviour as an error
  value, byte-addressed memory with little-endian loads and stores, and the fact
  collections the component theories add to.

  \<^item> \<open>i64\<close> is the 64-bit word behind \<open>ssize_t\<close>, \<open>size_t\<close> and every pointer on the
    x86-64 target; signed readings use \<^const>\<open>sint\<close>, unsigned ones \<^const>\<open>unat\<close>.
  \<^item> \<open>'a res\<close> is the result of C code that may have undefined behaviour: \<^const>\<open>Inl\<close> names
    the fault, \<^const>\<open>Inr\<close> holds the returned value.
  \<^item> \<open>mem\<close> is a region of bytes indexed from the address a C pointer holds.
\<close>

type_synonym byte = "8 word"
type_synonym i64 = "64 word"
type_synonym mem = "nat \<Rightarrow> byte"

named_theorems res_simps \<open>evaluation of the fault monad\<close>
named_theorems mem_simps \<open>loads from updated memory\<close>
named_theorems io_simps \<open>fault-free evaluation of the file primitives\<close>

section \<open>Undefined behaviour as a value\<close>

datatype fault =
    NullDeref
  | WildPointer
  | BadFree
  | OutOfFuel

type_synonym 'a res = "fault + 'a"

definition bind_res :: "'a res \<Rightarrow> ('a \<Rightarrow> 'b res) \<Rightarrow> 'b res" where
  "bind_res r k = (case r of Inl e \<Rightarrow> Inl e | Inr x \<Rightarrow> k x)"

lemma bind_res_Inl [simp, res_simps]: "bind_res (Inl e) k = Inl e"
  by (simp add: bind_res_def)

lemma bind_res_Inr [simp, res_simps]: "bind_res (Inr x) k = k x"
  by (simp add: bind_res_def)

lemma bind_res_eq_Inr:
  "bind_res r k = Inr y \<longleftrightarrow> (\<exists>x. r = Inr x \<and> k x = Inr y)"
  by (cases r) auto

section \<open>Little-endian integers in memory\<close>

primrec le_bytes :: "nat \<Rightarrow> nat \<Rightarrow> byte list" where
  "le_bytes 0 n = []"
| "le_bytes (Suc k) n = word_of_nat n # le_bytes k (n div 256)"

primrec le_nat :: "byte list \<Rightarrow> nat" where
  "le_nat [] = 0"
| "le_nat (b # bs) = unat b + 256 * le_nat bs"

lemma length_le_bytes [simp]: "length (le_bytes k n) = k"
  by (induction k arbitrary: n) auto

lemma unat_byte_of_nat: "unat (word_of_nat n :: byte) = n mod 256"
  by (simp add: unat_of_nat)

lemma le_nat_le_bytes: "le_nat (le_bytes k n) = n mod 256 ^ k"
proof (induction k arbitrary: n)
  case 0
  then show ?case by simp
next
  case (Suc k)
  then show ?case
    by (simp add: unat_byte_of_nat mod_mult2_eq)
qed

definition load_bytes :: "mem \<Rightarrow> nat \<Rightarrow> nat \<Rightarrow> byte list" where
  "load_bytes m a n = map m [a..<a + n]"

definition store_bytes :: "mem \<Rightarrow> nat \<Rightarrow> byte list \<Rightarrow> mem" where
  "store_bytes m a bs = (\<lambda>i. if a \<le> i \<and> i < a + length bs then bs ! (i - a) else m i)"

definition load64 :: "mem \<Rightarrow> nat \<Rightarrow> i64" where
  "load64 m a = word_of_nat (le_nat (load_bytes m a 8))"

definition store64 :: "mem \<Rightarrow> nat \<Rightarrow> i64 \<Rightarrow> mem" where
  "store64 m a v = store_bytes m a (le_bytes 8 (unat v))"

definition load32 :: "mem \<Rightarrow> nat \<Rightarrow> 32 word" where
  "load32 m a = word_of_nat (le_nat (load_bytes m a 4))"

definition store32 :: "mem \<Rightarrow> nat \<Rightarrow> 32 word \<Rightarrow> mem" where
  "store32 m a v = store_bytes m a (le_bytes 4 (unat v))"

lemma load_store_bytes: "length bs = n \<Longrightarrow> load_bytes (store_bytes m a bs) a n = bs"
  by (rule nth_equalityI) (auto simp: load_bytes_def store_bytes_def)

lemma load_bytes_cong:
  "(\<And>i. a \<le> i \<Longrightarrow> i < a + n \<Longrightarrow> m i = m' i) \<Longrightarrow> load_bytes m a n = load_bytes m' a n"
  by (auto simp: load_bytes_def)

lemma store_bytes_other [mem_simps]:
  "i < a \<or> a + length bs \<le> i \<Longrightarrow> store_bytes m a bs i = m i"
  by (auto simp: store_bytes_def)

lemma load64_store64 [simp, mem_simps]: "load64 (store64 m a v) a = v"
proof -
  have "unat v < 2 ^ 64"
    using unsigned_less [of v] by simp
  then show ?thesis
    by (simp add: load64_def store64_def load_store_bytes le_nat_le_bytes)
qed

lemma load32_store32 [simp, mem_simps]: "load32 (store32 m a v) a = v"
proof -
  have "unat v < 2 ^ 32"
    using unsigned_less [of v] by simp
  then show ?thesis
    by (simp add: load32_def store32_def load_store_bytes le_nat_le_bytes)
qed

lemma load64_cong:
  "(\<And>i. a \<le> i \<Longrightarrow> i < a + 8 \<Longrightarrow> m i = m' i) \<Longrightarrow> load64 m a = load64 m' a"
  by (simp add: load64_def cong: load_bytes_cong)

lemma load32_cong:
  "(\<And>i. a \<le> i \<Longrightarrow> i < a + 4 \<Longrightarrow> m i = m' i) \<Longrightarrow> load32 m a = load32 m' a"
  by (simp add: load32_def cong: load_bytes_cong)

lemma store64_other [mem_simps]: "i < a \<or> a + 8 \<le> i \<Longrightarrow> store64 m a v i = m i"
  by (simp add: store64_def store_bytes_other)

lemma store32_other [mem_simps]: "i < a \<or> a + 4 \<le> i \<Longrightarrow> store32 m a v i = m i"
  by (simp add: store32_def store_bytes_other)

lemma load64_store64_other [mem_simps]:
  "b + 8 \<le> a \<or> a + 8 \<le> b \<Longrightarrow> load64 (store64 m a v) b = load64 m b"
  by (rule load64_cong) (auto simp: store64_other)

definition zero_mem :: mem where
  "zero_mem = (\<lambda>_. 0)"

lemma zero_mem_apply [simp, mem_simps]: "zero_mem i = 0"
  by (simp add: zero_mem_def)

lemma load64_zero_mem [simp, mem_simps]: "load64 zero_mem a = 0"
  by (simp add: load64_def load_bytes_def zero_mem_def upt_rec)

lemma int_mult_not_minus1 [simp]: "int a * int b \<noteq> - 1"
proof -
  have "0 \<le> int a * int b" by simp
  then show ?thesis by linarith
qed

lemma int_mult_not_negative [simp]: "\<not> int a * int b < 0"
  by (simp add: not_less)

section \<open>Lists\<close>

lemma butlast_not_last:
  "distinct xs \<Longrightarrow> x \<in> set (butlast xs) \<Longrightarrow> x \<noteq> last xs \<and> x \<in> set xs"
  by (induction xs) (auto split: if_splits)

section \<open>Words used as file offsets\<close>

lemma sint_word_of_nat:
  "n < 2 ^ 63 \<Longrightarrow> sint (word_of_nat n :: i64) = int n"
  by (simp add: signed_of_nat signed_take_bit_int_eq_self)

lemma unat_word_of_nat64: "n < 2 ^ 64 \<Longrightarrow> unat (word_of_nat n :: i64) = n"
  by (simp add: unat_of_nat)

lemma word_of_nat_not_minus1:
  "n < 2 ^ 63 \<Longrightarrow> (word_of_nat n :: i64) \<noteq> - 1"
proof
  assume "n < 2 ^ 63" and "(word_of_nat n :: i64) = - 1"
  then have "int n = sint (- 1 :: i64)"
    using sint_word_of_nat [of n] by simp
  then show False by simp
qed

end
