(* ===== verification/Constants.thy ===== *)
theory Constants
  imports Prelude
begin

text \<open>
  Model of \<open>src/lib/constants.h\<close> and \<open>src/lib/constants.c\<close>: the sizes and sentinels, the
  enums \<open>page_type\<close>, \<open>frame_state\<close> and \<open>status\<close> with their integer codes, the table of
  status names and the \<open>RECORD_BOUNDS\<close> macro.  Enum constructors keep the C names; the
  ordering of \<open>status\<close> is the ordering of the C integer codes.
\<close>

section \<open>Types\<close>

text \<open>All three are \<open>ssize_t\<close>.\<close>

type_synonym page_index = i64
type_synonym byte_offset = i64
type_synonym frame_index = i64

text \<open>A page and the address of the frame that holds it.\<close>

type_synonym page_frame_pair = "page_index \<times> i64"

section \<open>Sizes and sentinels\<close>

definition PAGESIZE :: nat where
  "PAGESIZE = 4096"

definition STOREEXT :: string where
  "STOREEXT = ''.store''"

definition STOREEXTLEN :: nat where
  "STOREEXTLEN = 6"

definition NULLLEN :: nat where
  "NULLLEN = 1"

definition ERR_SET :: i64 where
  "ERR_SET = - 1"

definition EMPTY_LIST :: i64 where
  "EMPTY_LIST = - 1"

definition METADATA :: i64 where
  "METADATA = 0"

definition LOWEST_PAGE :: i64 where
  "LOWEST_PAGE = 1"

definition SMALLEST_KEY_SIZE :: i64 where
  "SMALLEST_KEY_SIZE = 1"

definition ARR_OFFSET :: i64 where
  "ARR_OFFSET = 1"

text \<open>\<open>sizeof(page_type)\<close> is 4 on the target; \<open>END_OF_PAGE\<close> is an unsigned \<open>size_t\<close>.\<close>

definition SIZEOF_PAGE_TYPE :: nat where
  "SIZEOF_PAGE_TYPE = 4"

definition END_OF_PAGE :: i64 where
  "END_OF_PAGE = word_of_nat (PAGESIZE - SIZEOF_PAGE_TYPE)"

definition START_OF_DATA :: i64 where
  "START_OF_DATA = END_OF_PAGE"

definition START_OF_SEP :: i64 where
  "START_OF_SEP = START_OF_DATA"

definition LEFT_SEP :: "i64 \<Rightarrow> i64" where
  "LEFT_SEP x = 0"

definition RIGHT_SEP :: "i64 \<Rightarrow> i64" where
  "RIGHT_SEP x = x"

text \<open>\<open>RECORD_BOUNDS(x)\<close> holds for the record offsets the code rejects; \<open>record\<close> is a
  signed 16-bit integer.\<close>

definition RECORD_BOUNDS :: "16 word \<Rightarrow> bool" where
  "RECORD_BOUNDS x \<longleftrightarrow>
     sint x \<le> int SIZEOF_PAGE_TYPE \<or> sint x \<ge> int (unat START_OF_DATA)"

lemmas constant_defs =
  PAGESIZE_def STOREEXT_def STOREEXTLEN_def NULLLEN_def ERR_SET_def EMPTY_LIST_def METADATA_def
  LOWEST_PAGE_def SMALLEST_KEY_SIZE_def ARR_OFFSET_def SIZEOF_PAGE_TYPE_def
  END_OF_PAGE_def START_OF_DATA_def START_OF_SEP_def LEFT_SEP_def RIGHT_SEP_def

lemma PAGESIZE_pos [simp]: "0 < PAGESIZE"
  by (simp add: PAGESIZE_def)

lemma PAGESIZE_nonzero [simp]: "PAGESIZE \<noteq> 0"
  by (simp add: PAGESIZE_def)

section \<open>Enums\<close>

datatype page_type = FREE_PAGE | DATA_PAGE | DIR_PAGE

fun page_type_code :: "page_type \<Rightarrow> 32 word" where
  "page_type_code FREE_PAGE = 0"
| "page_type_code DATA_PAGE = 1"
| "page_type_code DIR_PAGE = 2"

datatype frame_state = FS_PINNED | FS_UNPINNED | FS_PINNED_DIRTY | FS_UNPINNED_DIRTY

datatype status =
    STATUS_OK | STATUS_ERR
  | STATUS_NO_BACKING | STATUS_NO_FILE | STATUS_BAD_FILE | STATUS_BAD_OPEN
  | STATUS_BAD_CLOSE | STATUS_BAD_REMOVE
  | STATUS_BAD_READ | STATUS_BAD_WRITE | STATUS_BAD_SEEK
  | STATUS_META_PAGE
  | STATUS_NO_MANAGER
  | STATUS_NO_FREE_FRAMES | STATUS_PIN_ERR | STATUS_UNPIN_ERR | STATUS_MARK_ERR
  | STATUS_FLUSH_ERR
  | STATUS_NO_CONFIG
  | STATUS_TEST_RESET | STATUS_TEST_ERR
  | STATUS_MAX

text \<open>The enumerators in declaration order; a C enum numbers them from 0.\<close>

definition status_order :: "status list" where
  "status_order =
     [STATUS_OK, STATUS_ERR,
      STATUS_NO_BACKING, STATUS_NO_FILE, STATUS_BAD_FILE, STATUS_BAD_OPEN,
      STATUS_BAD_CLOSE, STATUS_BAD_REMOVE,
      STATUS_BAD_READ, STATUS_BAD_WRITE, STATUS_BAD_SEEK,
      STATUS_META_PAGE,
      STATUS_NO_MANAGER,
      STATUS_NO_FREE_FRAMES, STATUS_PIN_ERR, STATUS_UNPIN_ERR, STATUS_MARK_ERR,
      STATUS_FLUSH_ERR,
      STATUS_NO_CONFIG,
      STATUS_TEST_RESET, STATUS_TEST_ERR,
      STATUS_MAX]"

fun status_code :: "status \<Rightarrow> nat" where
  "status_code STATUS_OK = 0"
| "status_code STATUS_ERR = 1"
| "status_code STATUS_NO_BACKING = 2"
| "status_code STATUS_NO_FILE = 3"
| "status_code STATUS_BAD_FILE = 4"
| "status_code STATUS_BAD_OPEN = 5"
| "status_code STATUS_BAD_CLOSE = 6"
| "status_code STATUS_BAD_REMOVE = 7"
| "status_code STATUS_BAD_READ = 8"
| "status_code STATUS_BAD_WRITE = 9"
| "status_code STATUS_BAD_SEEK = 10"
| "status_code STATUS_META_PAGE = 11"
| "status_code STATUS_NO_MANAGER = 12"
| "status_code STATUS_NO_FREE_FRAMES = 13"
| "status_code STATUS_PIN_ERR = 14"
| "status_code STATUS_UNPIN_ERR = 15"
| "status_code STATUS_MARK_ERR = 16"
| "status_code STATUS_FLUSH_ERR = 17"
| "status_code STATUS_NO_CONFIG = 18"
| "status_code STATUS_TEST_RESET = 19"
| "status_code STATUS_TEST_ERR = 20"
| "status_code STATUS_MAX = 21"

lemma status_order_code: "status_order ! status_code st = st"
  by (cases st) (simp_all add: status_order_def)

lemma status_code_inj: "status_code a = status_code b \<longleftrightarrow> a = b"
  by (metis status_order_code)

lemma status_code_le_MAX: "status_code st \<le> status_code STATUS_MAX"
  by (cases st) simp_all

instantiation status :: linorder
begin

definition less_eq_status :: "status \<Rightarrow> status \<Rightarrow> bool" where
  "less_eq_status a b \<longleftrightarrow> status_code a \<le> status_code b"

definition less_status :: "status \<Rightarrow> status \<Rightarrow> bool" where
  "less_status a b \<longleftrightarrow> status_code a < status_code b"

instance
  by standard (auto simp: less_eq_status_def less_status_def status_code_inj)

end

text \<open>
  \<open>status_str[]\<close> uses designated initialisers: its length is one more than the largest
  designator and the elements no designator names are null pointers (\<^const>\<open>None\<close>).
\<close>

definition status_str_inits :: "(status \<times> string) list" where
  "status_str_inits =
     [(STATUS_OK, ''STATUS_OK''),
      (STATUS_ERR, ''STATUS_ERR''),
      (STATUS_NO_BACKING, ''STATUS_NO_BACKING''),
      (STATUS_NO_FILE, ''STATUS_NO_FILE''),
      (STATUS_BAD_FILE, ''STATUS_BAD_FILE''),
      (STATUS_BAD_OPEN, ''STATUS_BAD_OPEN''),
      (STATUS_BAD_CLOSE, ''STATUS_BAD_CLOSE''),
      (STATUS_BAD_REMOVE, ''STATUS_BAD_REMOVE''),
      (STATUS_BAD_READ, ''STATUS_BAD_READ''),
      (STATUS_BAD_WRITE, ''STATUS_BAD_WRITE''),
      (STATUS_BAD_SEEK, ''STATUS_BAD_SEEK''),
      (STATUS_NO_MANAGER, ''STATUS_NO_MANAGER''),
      (STATUS_NO_FREE_FRAMES, ''STATUS_NO_FREE_FRAMES''),
      (STATUS_UNPIN_ERR, ''STATUS_UNPIN_ERR''),
      (STATUS_MARK_ERR, ''STATUS_MARK_ERR''),
      (STATUS_FLUSH_ERR, ''STATUS_FLUSH_ERR''),
      (STATUS_META_PAGE, ''STATUS_META_PAGE''),
      (STATUS_TEST_RESET, ''STATUS_TEST_RESET''),
      (STATUS_TEST_ERR, ''STATUS_TEST_ERR'')]"

definition status_str :: "string option list" where
  "status_str =
     map (\<lambda>i. map_of (map (\<lambda>(st, s). (status_code st, s)) status_str_inits) i)
       [0..<Suc (Max (status_code ` fst ` set status_str_inits))]"

text \<open>\<open>ASSERT_ENUM_TO_STR\<close>: the array type has size 1 when the check passes, -1 (a compile
  error) when it does not.\<close>

definition ASSERT_ENUM_TO_STR :: "'a list \<Rightarrow> nat \<Rightarrow> bool" where
  "ASSERT_ENUM_TO_STR sarray mx \<longleftrightarrow> length sarray = mx"

lemma length_status_str: "length status_str = 21"
  by (simp add: status_str_def status_str_inits_def)

lemma status_str_nth:
  "i < 21 \<Longrightarrow> status_str ! i
     = map_of (map (\<lambda>(st, s). (status_code st, s)) status_str_inits) i"
  by (simp add: status_str_def status_str_inits_def)

text \<open>The compile-time check passes, and yet two codes have no name: the length of the array
  only shows that the last one has.\<close>

lemma status_str_gaps:
  "ASSERT_ENUM_TO_STR status_str (status_code STATUS_MAX)
   \<and> (\<forall>st. st \<noteq> STATUS_MAX \<longrightarrow>
        (status_str ! status_code st = None \<longleftrightarrow> st = STATUS_PIN_ERR \<or> st = STATUS_NO_CONFIG))"
proof (intro conjI allI impI)
  show "ASSERT_ENUM_TO_STR status_str (status_code STATUS_MAX)"
    by (simp add: ASSERT_ENUM_TO_STR_def length_status_str)
  fix st assume "st \<noteq> STATUS_MAX"
  then show "status_str ! status_code st = None \<longleftrightarrow> st = STATUS_PIN_ERR \<or> st = STATUS_NO_CONFIG"
    by (cases st) (simp_all add: status_str_nth status_str_inits_def)
qed

end
