(* ===== verification/Posix.thy ===== *)
theory Posix
  imports Constants
begin

text \<open>
  The part of the POSIX file interface that \<open>src/lib/fileio.c\<close> calls: \<open>open\<close>, \<open>close\<close>,
  \<open>remove\<close>, \<open>lseek\<close>, \<open>pread\<close> and \<open>pwrite\<close>.  The state holds the directory (names to
  inodes), the inodes' byte contents and lengths, the descriptor table, and \<open>sched\<close>, the
  outcome the environment has in store for each call to come: success, a short transfer or
  a failure.  An exhausted schedule means success.  Theorems quantify over every
  schedule or those whose calls fail as a whole, or assume an empty one (\<open>fault-free\<close>).  The file position that \<open>lseek\<close> sets is
  not kept: the code only uses positioned transfers, which do not read it.
\<close>

section \<open>State\<close>

record regfile =
  fbytes :: mem
  flen :: nat

datatype io_outcome = IO_ok | IO_short nat | IO_fail

record os =
  names :: "string \<Rightarrow> nat option"
  inodes :: "nat \<Rightarrow> regfile"
  next_inode :: nat
  fdtab :: "nat option list"
  sched :: "io_outcome list"

definition empty_file :: regfile where
  "empty_file = \<lparr>fbytes = zero_mem, flen = 0\<rparr>"

definition init_os :: os where
  "init_os = \<lparr>names = (\<lambda>_. None), inodes = (\<lambda>_. empty_file), next_inode = 3,
               fdtab = [Some 0, Some 1, Some 2], sched = []\<rparr>"

definition next_outcome :: "os \<Rightarrow> io_outcome" where
  "next_outcome s = (case sched s of [] \<Rightarrow> IO_ok | x # _ \<Rightarrow> x)"

definition tick :: "os \<Rightarrow> os" where
  "tick s = s\<lparr>sched := tl (sched s)\<rparr>"

definition fd_inode :: "os \<Rightarrow> int \<Rightarrow> nat option" where
  "fd_inode s fd =
     (if 0 \<le> fd \<and> nat fd < length (fdtab s) then fdtab s ! nat fd else None)"

section \<open>Opening, closing and removing\<close>

text \<open>\<open>open\<close> hands out the lowest free descriptor.  Slots 0 to 2 of \<^const>\<open>init_os\<close> are
  the standard streams (inodes 0 to 2, no directory entry).\<close>

primrec lowest_free :: "nat option list \<Rightarrow> nat" where
  "lowest_free [] = 0"
| "lowest_free (x # xs) = (case x of None \<Rightarrow> 0 | Some _ \<Rightarrow> Suc (lowest_free xs))"

primrec install_fd :: "nat option list \<Rightarrow> nat \<Rightarrow> nat option list" where
  "install_fd [] ino = [Some ino]"
| "install_fd (x # xs) ino =
     (case x of None \<Rightarrow> Some ino # xs | Some i \<Rightarrow> Some i # install_fd xs ino)"

definition fresh_fd :: "os \<Rightarrow> nat \<Rightarrow> int \<times> os" where
  "fresh_fd s ino =
     (int (lowest_free (fdtab s)), s\<lparr>fdtab := install_fd (fdtab s) ino\<rparr>)"

text \<open>\<open>open(name, O_CREAT | O_TRUNC | O_RDWR, S_IRWXU)\<close>\<close>

definition posix_open_creat :: "string \<Rightarrow> os \<Rightarrow> int \<times> os" where
  "posix_open_creat name s =
     (if next_outcome s = IO_fail then (- 1, tick s)
      else case names s name of
        Some ino \<Rightarrow> fresh_fd ((tick s)\<lparr>inodes := (inodes s)(ino := empty_file)\<rparr>) ino
      | None \<Rightarrow>
          fresh_fd ((tick s)\<lparr>names := (names s)(name \<mapsto> next_inode s),
                            inodes := (inodes s)(next_inode s := empty_file),
                            next_inode := Suc (next_inode s)\<rparr>) (next_inode s))"

text \<open>\<open>open(name, O_RDWR)\<close>\<close>

definition posix_open :: "string \<Rightarrow> os \<Rightarrow> int \<times> os" where
  "posix_open name s =
     (if next_outcome s = IO_fail then (- 1, tick s)
      else case names s name of
        None \<Rightarrow> (- 1, tick s)
      | Some ino \<Rightarrow> fresh_fd (tick s) ino)"

text \<open>A \<open>close\<close> that reports an error has still released the descriptor, as on Linux.\<close>

definition posix_close :: "int \<Rightarrow> os \<Rightarrow> int \<times> os" where
  "posix_close fd s =
     (case fd_inode s fd of
        None \<Rightarrow> (- 1, tick s)
      | Some _ \<Rightarrow>
          (if next_outcome s = IO_fail then - 1 else 0,
           (tick s)\<lparr>fdtab := (fdtab s)[nat fd := None]\<rparr>))"

definition posix_remove :: "string \<Rightarrow> os \<Rightarrow> int \<times> os" where
  "posix_remove name s =
     (if next_outcome s = IO_fail then (- 1, tick s)
      else case names s name of
        None \<Rightarrow> (- 1, tick s)
      | Some _ \<Rightarrow> (0, (tick s)\<lparr>names := (names s)(name := None)\<rparr>))"

section \<open>Positioned transfers\<close>

text \<open>How many of the \<open>n\<close> requested bytes the outcome lets through.\<close>

fun transfer :: "io_outcome \<Rightarrow> nat \<Rightarrow> nat" where
  "transfer IO_ok n = n"
| "transfer (IO_short k) n = min k n"
| "transfer IO_fail n = 0"

definition posix_lseek :: "int \<Rightarrow> i64 \<Rightarrow> os \<Rightarrow> int \<times> os" where
  "posix_lseek fd off s =
     (if fd_inode s fd = None \<or> sint off < 0 \<or> next_outcome s = IO_fail
      then (- 1, tick s) else (sint off, tick s))"

text \<open>The bytes a read of \<open>k\<close> bytes leaves in the buffer: what it did not transfer keeps
  its old value.\<close>

definition read_into :: "mem \<Rightarrow> nat \<Rightarrow> nat \<Rightarrow> mem \<Rightarrow> mem" where
  "read_into src off k buf = (\<lambda>i. if i < k then src (off + i) else buf i)"

definition posix_pread :: "int \<Rightarrow> mem \<Rightarrow> nat \<Rightarrow> i64 \<Rightarrow> os \<Rightarrow> int \<times> mem \<times> os" where
  "posix_pread fd buf n off s =
     (case fd_inode s fd of
        None \<Rightarrow> (- 1, buf, tick s)
      | Some ino \<Rightarrow>
          if sint off < 0 \<or> next_outcome s = IO_fail then (- 1, buf, tick s)
          else
            let f = inodes s ino;
                o' = unat off;
                k = transfer (next_outcome s) (min n (flen f - o'))
            in (int k, read_into (fbytes f) o' k buf, tick s))"

text \<open>A write past the end fills the gap with zero bytes.\<close>

definition write_file :: "regfile \<Rightarrow> nat \<Rightarrow> mem \<Rightarrow> nat \<Rightarrow> regfile" where
  "write_file f off buf k =
     (if k = 0 then f
      else \<lparr>fbytes = (\<lambda>i. if off \<le> i \<and> i < off + k then buf (i - off)
                           else if i < flen f then fbytes f i else 0),
            flen = max (flen f) (off + k)\<rparr>)"

definition posix_pwrite :: "int \<Rightarrow> mem \<Rightarrow> nat \<Rightarrow> i64 \<Rightarrow> os \<Rightarrow> int \<times> os" where
  "posix_pwrite fd buf n off s =
     (case fd_inode s fd of
        None \<Rightarrow> (- 1, tick s)
      | Some ino \<Rightarrow>
          if sint off < 0 \<or> next_outcome s = IO_fail then (- 1, tick s)
          else
            let k = transfer (next_outcome s) n
            in (int k, (tick s)\<lparr>inodes := (inodes s)(ino := write_file (inodes s ino) (unat off) buf k)\<rparr>))"

section \<open>Facts about descriptors\<close>

lemma lowest_free_installed: "install_fd xs ino ! lowest_free xs = Some ino"
  by (induction xs) (auto split: option.splits)

lemma lowest_free_less: "lowest_free xs < length (install_fd xs ino)"
  by (induction xs) (auto split: option.splits)

lemma tick_simps [simp]:
  "names (tick s) = names s" "inodes (tick s) = inodes s" "fdtab (tick s) = fdtab s"
  "next_inode (tick s) = next_inode s" "sched (tick s) = tl (sched s)"
  by (simp_all add: tick_def)

lemma fd_inode_tick [simp]: "fd_inode (tick s) = fd_inode s"
  by (simp add: fd_inode_def fun_eq_iff)

lemma fd_inode_cong: "fdtab s = fdtab t \<Longrightarrow> fd_inode s = fd_inode t"
  by (simp add: fd_inode_def fun_eq_iff)

lemma fd_inode_updates [simp]:
  "fd_inode (s\<lparr>inodes := x\<rparr>) = fd_inode s" "fd_inode (s\<lparr>sched := y\<rparr>) = fd_inode s"
  "fd_inode (s\<lparr>names := z\<rparr>) = fd_inode s" "fd_inode (s\<lparr>next_inode := n\<rparr>) = fd_inode s"
  by (rule fd_inode_cong, simp)+

lemma next_outcome_nil [simp]: "sched s = [] \<Longrightarrow> next_outcome s = IO_ok"
  by (simp add: next_outcome_def)

lemma fresh_fd_inode: "fresh_fd s ino = (fd, s') \<Longrightarrow> fd_inode s' fd = Some ino"
  by (auto simp: fresh_fd_def fd_inode_def lowest_free_installed lowest_free_less)

lemma fresh_fd_nonneg: "fresh_fd s ino = (fd, s') \<Longrightarrow> 0 \<le> fd"
  by (auto simp: fresh_fd_def)

lemma transfer_le: "transfer out n \<le> n"
  by (cases out) auto

section \<open>Fault-free evaluation\<close>

definition set_file :: "nat \<Rightarrow> regfile \<Rightarrow> os \<Rightarrow> os" where
  "set_file ino f s = s\<lparr>inodes := (inodes s)(ino := f)\<rparr>"

lemma set_file_simps [simp]:
  "inodes (set_file ino f s) = (inodes s)(ino := f)"
  "sched (set_file ino f s) = sched s" "fdtab (set_file ino f s) = fdtab s"
  "names (set_file ino f s) = names s" "next_inode (set_file ino f s) = next_inode s"
  "fd_inode (set_file ino f s) = fd_inode s"
  by (simp_all add: set_file_def)

lemma set_file_set_file [simp]: "set_file ino g (set_file ino f s) = set_file ino g s"
  by (simp add: set_file_def)

lemma set_file_same [simp]: "set_file ino (inodes s ino) s = s"
  by (simp add: set_file_def)

lemma tick_nil [io_simps]: "sched s = [] \<Longrightarrow> tick s = s"
  by (simp add: tick_def)

lemma pread_ok [io_simps]:
  "sched s = [] \<Longrightarrow> fd_inode s fd = Some ino \<Longrightarrow> 0 \<le> sint off \<Longrightarrow>
   posix_pread fd buf n off s =
     (int (min n (flen (inodes s ino) - unat off)),
      read_into (fbytes (inodes s ino)) (unat off) (min n (flen (inodes s ino) - unat off)) buf, s)"
  by (simp add: posix_pread_def Let_def tick_nil)

lemma pwrite_ok [io_simps]:
  "sched s = [] \<Longrightarrow> fd_inode s fd = Some ino \<Longrightarrow> 0 \<le> sint off \<Longrightarrow>
   posix_pwrite fd buf n off s =
     (int n, set_file ino (write_file (inodes s ino) (unat off) buf n) s)"
  by (simp add: posix_pwrite_def Let_def tick_nil set_file_def)

lemma lseek_ok [io_simps]:
  "sched s = [] \<Longrightarrow> fd_inode s fd = Some ino \<Longrightarrow> 0 \<le> sint off \<Longrightarrow>
   posix_lseek fd off s = (sint off, s)"
  by (simp add: posix_lseek_def tick_nil)

end
