(* ===== verification/FileIO.thy ===== *)
theory FileIO
  imports Posix
begin

text \<open>
  Model of \<open>src/lib/fileio.h\<close> and \<open>src/lib/fileio.c\<close>: the backing store, its metadata page
  and the page operations.  A \<open>NULL\<close> pointer to a backing or to a source page is
  \<^const>\<open>None\<close>; out-parameters (\<open>*index\<close>, \<open>dest\<close>, \<open>store->storefd\<close>) are returned.  Out
  pointers are taken to be valid and \<open>calloc\<close> to succeed.  Page indexes and byte offsets
  are 64-bit words; the multiplication in \<open>index_to_offset\<close> is the two's complement one
  (signed overflow, undefined in C, does not occur under the bounds of the theorems).
\<close>

section \<open>Data\<close>

record backing =
  storefd :: int

text \<open>
  \<open>meta_page\<close> laid over a page: \<open>size\<close> at byte 0, \<open>freelist_head.offset\<close> at byte 8,
  \<open>freelist_tail.offset\<close> at byte 16.  \<open>freepage\<close> is a single offset at byte 0.
\<close>

definition mp_size :: "mem \<Rightarrow> i64" where
  "mp_size m = load64 m 0"

definition mp_head :: "mem \<Rightarrow> i64" where
  "mp_head m = load64 m 8"

definition mp_tail :: "mem \<Rightarrow> i64" where
  "mp_tail m = load64 m 16"

definition set_mp_size :: "i64 \<Rightarrow> mem \<Rightarrow> mem" where
  "set_mp_size v m = store64 m 0 v"

definition set_mp_head :: "i64 \<Rightarrow> mem \<Rightarrow> mem" where
  "set_mp_head v m = store64 m 8 v"

definition set_mp_tail :: "i64 \<Rightarrow> mem \<Rightarrow> mem" where
  "set_mp_tail v m = store64 m 16 v"

definition SIZEOF_FREEPAGE :: nat where
  "SIZEOF_FREEPAGE = 8"

definition fp_offset :: "mem \<Rightarrow> i64" where
  "fp_offset m = load64 m 0"

definition set_fp_offset :: "i64 \<Rightarrow> mem \<Rightarrow> mem" where
  "set_fp_offset v m = store64 m 0 v"

section \<open>Page helpers\<close>

definition index_to_offset :: "page_index \<Rightarrow> byte_offset" where
  "index_to_offset index = index * word_of_nat PAGESIZE"

text \<open>C division of a signed value truncates towards zero.\<close>

definition offset_to_index :: "byte_offset \<Rightarrow> page_index" where
  "offset_to_index offset =
     (if offset = 0 then 0
      else word_of_int (sgn (sint offset) * (\<bar>sint offset\<bar> div int PAGESIZE)))"

section \<open>The backing\<close>

text \<open>The name buffer: \<open>memcpy\<close> of the name, then of \<open>STOREEXT\<close>; the terminating NUL of
  the C string is implicit in a HOL string.\<close>

definition store_filename :: "string \<Rightarrow> string" where
  "store_filename filename = filename @ take STOREEXTLEN STOREEXT"

definition close_backing :: "backing option \<Rightarrow> os \<Rightarrow> status \<times> os" where
  "close_backing store s =
     (case store of
        None \<Rightarrow> (STATUS_ERR, s)
      | Some b \<Rightarrow>
          (case posix_close (storefd b) s of
             (r, s1) \<Rightarrow> (if r = 0 then STATUS_OK else STATUS_BAD_CLOSE, s1)))"

definition create_new_backing ::
  "string \<Rightarrow> backing option \<Rightarrow> os \<Rightarrow> (status \<times> backing \<times> os) res" where
  "create_new_backing filename store s =
     (case store of
        None \<Rightarrow> Inl NullDeref
      | Some b0 \<Rightarrow>
          (case posix_open_creat (store_filename filename) s of
             (fd, s1) \<Rightarrow>
               let b = b0\<lparr>storefd := fd\<rparr> in
               if fd = - 1
               then case close_backing (Some b) s1 of (_, s2) \<Rightarrow> Inr (STATUS_BAD_FILE, b, s2)
               else
                 let metadata = set_mp_tail (- 1) (set_mp_head (- 1) (set_mp_size 1 zero_mem)) in
                 case posix_pwrite fd metadata PAGESIZE (index_to_offset 0) s1 of
                   (written, s2) \<Rightarrow>
                     if written \<noteq> int PAGESIZE
                     then case close_backing (Some b) s2 of
                            (_, s3) \<Rightarrow> Inr (STATUS_BAD_WRITE, b, s3)
                     else Inr (STATUS_OK, b, s2)))"

definition open_backing ::
  "string \<Rightarrow> backing option \<Rightarrow> os \<Rightarrow> (status \<times> backing \<times> os) res" where
  "open_backing filename store s =
     (case store of
        None \<Rightarrow> Inl NullDeref
      | Some b0 \<Rightarrow>
          (case posix_open (store_filename filename) s of
             (fd, s1) \<Rightarrow>
               let b = b0\<lparr>storefd := fd\<rparr> in
               if fd = - 1
               then case close_backing (Some b) s1 of (_, s2) \<Rightarrow> Inr (STATUS_BAD_OPEN, b, s2)
               else Inr (STATUS_OK, b, s1)))"

definition remove_backing :: "string \<Rightarrow> os \<Rightarrow> status \<times> os" where
  "remove_backing filename s =
     (case posix_remove (store_filename filename) s of
        (r, s1) \<Rightarrow> (if r \<noteq> 0 then STATUS_BAD_REMOVE else STATUS_OK, s1))"

section \<open>Page allocation\<close>

text \<open>The metadata after the head of the free list has been taken off it.\<close>

definition unlink_head :: "mem \<Rightarrow> i64 \<Rightarrow> mem" where
  "unlink_head metadata next =
     (if mp_head metadata = mp_tail metadata
      then set_mp_tail next (set_mp_head next metadata)
      else set_mp_head next metadata)"

text \<open>
  The reuse branch.  With a source page the code writes it at \<open>offset\<close>; without one it
  writes the blank page at \<open>index_to_offset(offset)\<close>, a byte offset scaled a second time.
\<close>

definition alloc_reuse :: "mem option \<Rightarrow> int \<Rightarrow> mem \<Rightarrow> os \<Rightarrow> status \<times> i64 \<times> os" where
  "alloc_reuse src fd metadata s =
     (let offset = mp_head metadata in
      case posix_pread fd zero_mem SIZEOF_FREEPAGE offset s of
        (r, nextpage, s1) \<Rightarrow>
          if r \<noteq> int SIZEOF_FREEPAGE then (STATUS_BAD_READ, ERR_SET, s1)
          else
            let metadata' = unlink_head metadata (fp_offset nextpage) in
            case (case src of
                    Some page \<Rightarrow> posix_pwrite fd page PAGESIZE offset s1
                  | None \<Rightarrow> posix_pwrite fd zero_mem PAGESIZE (index_to_offset offset) s1) of
              (w, s2) \<Rightarrow>
                if w \<noteq> int PAGESIZE then (STATUS_BAD_WRITE, ERR_SET, s2)
                else
                  case posix_pwrite fd metadata' PAGESIZE (index_to_offset 0) s2 of
                    (mw, s3) \<Rightarrow>
                      if mw \<noteq> int PAGESIZE then (STATUS_BAD_WRITE, ERR_SET, s3)
                      else (STATUS_OK, offset_to_index offset, s3))"

text \<open>The extension branch.  A failed data write sets \<open>*index\<close> to \<open>STATUS_ERR\<close>, not to
  \<open>ERR_SET\<close>.\<close>

definition alloc_extend :: "mem option \<Rightarrow> int \<Rightarrow> mem \<Rightarrow> os \<Rightarrow> status \<times> i64 \<times> os" where
  "alloc_extend src fd metadata s =
     (let newpage = mp_size metadata in
      case posix_pwrite fd zero_mem PAGESIZE (index_to_offset newpage) s of
        (bw, s1) \<Rightarrow>
          if bw \<noteq> int PAGESIZE then (STATUS_BAD_WRITE, ERR_SET, s1)
          else
            case (case src of
                    Some page \<Rightarrow> posix_pwrite fd page PAGESIZE (index_to_offset newpage) s1
                  | None \<Rightarrow> (int PAGESIZE, s1)) of
              (dw, s2) \<Rightarrow>
                if dw \<noteq> int PAGESIZE
                then (STATUS_BAD_WRITE, word_of_nat (status_code STATUS_ERR), s2)
                else
                  let metadata' = set_mp_size (mp_size metadata + 1) metadata in
                  case posix_pwrite fd metadata' PAGESIZE (index_to_offset 0) s2 of
                    (mw, s3) \<Rightarrow>
                      if mw \<noteq> int PAGESIZE then (STATUS_BAD_WRITE, ERR_SET, s3)
                      else (STATUS_OK, newpage, s3))"

definition alloc_page :: "mem option \<Rightarrow> backing option \<Rightarrow> os \<Rightarrow> status \<times> page_index \<times> os" where
  "alloc_page src file s =
     (case file of
        None \<Rightarrow> (STATUS_NO_FILE, ERR_SET, s)
      | Some b \<Rightarrow>
          (case posix_pread (storefd b) zero_mem PAGESIZE (index_to_offset 0) s of
             (r, metadata, s1) \<Rightarrow>
               if r \<noteq> int PAGESIZE then (STATUS_BAD_READ, ERR_SET, s1)
               else if mp_head metadata \<noteq> EMPTY_LIST
               then alloc_reuse src (storefd b) metadata s1
               else alloc_extend src (storefd b) metadata s1))"

section \<open>Page release\<close>

text \<open>The first page of an empty free list becomes its head and tail.\<close>

definition free_first :: "int \<Rightarrow> mem \<Rightarrow> i64 \<Rightarrow> os \<Rightarrow> status \<times> os" where
  "free_first fd metadata pageloc s =
     (let metadata' = set_mp_tail pageloc (set_mp_head pageloc metadata);
          new = set_fp_offset (- 1) zero_mem in
      case posix_pwrite fd new PAGESIZE pageloc s of
        (fw, s1) \<Rightarrow>
          if fw \<noteq> int PAGESIZE then (STATUS_BAD_WRITE, s1)
          else case posix_pwrite fd metadata' PAGESIZE (index_to_offset 0) s1 of
                 (mw, s2) \<Rightarrow>
                   if mw \<noteq> int PAGESIZE then (STATUS_BAD_WRITE, s2) else (STATUS_OK, s2))"

text \<open>Otherwise the page is appended behind the tail.\<close>

definition free_append :: "int \<Rightarrow> mem \<Rightarrow> i64 \<Rightarrow> os \<Rightarrow> status \<times> os" where
  "free_append fd metadata pageloc s =
     (let old = set_fp_offset pageloc zero_mem in
      case posix_pwrite fd old PAGESIZE (mp_tail metadata) s of
        (ow, s1) \<Rightarrow>
          if ow \<noteq> int PAGESIZE then (STATUS_BAD_WRITE, s1)
          else
            let new = set_fp_offset (- 1) zero_mem in
            case posix_pwrite fd new PAGESIZE pageloc s1 of
              (fw, s2) \<Rightarrow>
                if fw \<noteq> int PAGESIZE then (STATUS_BAD_WRITE, s2)
                else
                  let metadata' = set_mp_tail pageloc metadata in
                  case posix_pwrite fd metadata' PAGESIZE (index_to_offset 0) s2 of
                    (mw, s3) \<Rightarrow>
                      if mw \<noteq> int PAGESIZE then (STATUS_BAD_WRITE, s3) else (STATUS_OK, s3))"

definition free_page :: "backing option \<Rightarrow> page_index \<Rightarrow> os \<Rightarrow> status \<times> os" where
  "free_page store index s =
     (let pageloc = index_to_offset index in
      if pageloc = 0 then (STATUS_META_PAGE, s)
      else case store of
        None \<Rightarrow> (STATUS_NO_FILE, s)
      | Some b \<Rightarrow>
          (case posix_pread (storefd b) zero_mem PAGESIZE (index_to_offset 0) s of
             (r, metadata, s1) \<Rightarrow>
               if r \<noteq> int PAGESIZE then (STATUS_BAD_READ, s1)
               else if mp_tail metadata = - 1 \<and> mp_head metadata = - 1
               then free_first (storefd b) metadata pageloc s1
               else free_append (storefd b) metadata pageloc s1))"

section \<open>Page transfer\<close>

definition get_page :: "mem \<Rightarrow> backing option \<Rightarrow> page_index \<Rightarrow> os \<Rightarrow> status \<times> mem \<times> os" where
  "get_page dest store index s =
     (let pageloc = index_to_offset index in
      if pageloc = 0 then (STATUS_META_PAGE, dest, s)
      else case store of
        None \<Rightarrow> (STATUS_NO_FILE, dest, s)
      | Some b \<Rightarrow>
          (case posix_lseek (storefd b) pageloc s of
             (l, s1) \<Rightarrow>
               if l = - 1 then (STATUS_BAD_SEEK, dest, s1)
               else case posix_pread (storefd b) dest PAGESIZE (index_to_offset index) s1 of
                      (r, dest', s2) \<Rightarrow>
                        if r \<noteq> int PAGESIZE then (STATUS_BAD_READ, dest', s2)
                        else (STATUS_OK, dest', s2)))"

definition put_page :: "mem \<Rightarrow> backing option \<Rightarrow> page_index \<Rightarrow> os \<Rightarrow> status \<times> os" where
  "put_page src store index s =
     (let pageloc = index_to_offset index in
      if pageloc = 0 then (STATUS_META_PAGE, s)
      else case store of
        None \<Rightarrow> (STATUS_NO_FILE, s)
      | Some b \<Rightarrow>
          (case posix_lseek (storefd b) pageloc s of
             (l, s1) \<Rightarrow>
               if l = - 1 then (STATUS_BAD_SEEK, s1)
               else case posix_pwrite (storefd b) src PAGESIZE (index_to_offset index) s1 of
                      (w, s2) \<Rightarrow>
                        if w \<noteq> int PAGESIZE then (STATUS_BAD_WRITE, s2) else (STATUS_OK, s2)))"

end
