(* ===== verification/NameBuffer.thy ===== *)
theory NameBuffer
  imports FileIO "HOL-Library.Monad_Syntax"
begin

text \<open>
  The file-name buffer of \<open>create_new_backing\<close>, \<open>open_backing\<close> and \<open>remove_backing\<close>, byte by
  byte.  All three build it with the same three calls in a variable-length array on the
  stack.  Objects are lists of characters: the caller's name is an object in which
  \<open>strlen\<close> looks for the terminator, and the array starts with whatever the stack held.
  An access outside an object is \<^const>\<open>None\<close>.
\<close>

section \<open>The C string functions\<close>

definition NUL :: char where
  "NUL = CHR 0x00"

primrec strlen :: "char list \<Rightarrow> nat option" where
  "strlen [] = None"
| "strlen (c # cs) = (if c = NUL then Some 0 else map_option Suc (strlen cs))"

text \<open>\<open>memcpy(&dst[off], src, n)\<close> and \<open>memset(&dst[off], c, n)\<close>.\<close>

definition put_chars :: "char list \<Rightarrow> nat \<Rightarrow> char list \<Rightarrow> char list option" where
  "put_chars dst off cs =
     (if off + length cs \<le> length dst
      then Some (take off dst @ cs @ drop (off + length cs) dst) else None)"

definition memcpy :: "char list \<Rightarrow> nat \<Rightarrow> char list \<Rightarrow> nat \<Rightarrow> char list option" where
  "memcpy dst off src n = (if n \<le> length src then put_chars dst off (take n src) else None)"

definition memset :: "char list \<Rightarrow> nat \<Rightarrow> char \<Rightarrow> nat \<Rightarrow> char list option" where
  "memset dst off c n = put_chars dst off (replicate n c)"

text \<open>What \<open>open\<close> and \<open>remove\<close> read: the characters before the first terminator.\<close>

definition c_string :: "char list \<Rightarrow> string option" where
  "c_string obj = map_option (\<lambda>n. take n obj) (strlen obj)"

section \<open>The buffer\<close>

text \<open>The declaration \<open>char storefilename[namelen+STOREEXTLEN+NULLLEN]\<close>; \<open>stack\<close> gives the
  indeterminate bytes it starts with.\<close>

definition name_array :: "(nat \<Rightarrow> char) \<Rightarrow> nat \<Rightarrow> char list" where
  "name_array stack namelen = map stack [0..<namelen + STOREEXTLEN + NULLLEN]"

definition store_name_buffer :: "(nat \<Rightarrow> char) \<Rightarrow> char list \<Rightarrow> char list option" where
  "store_name_buffer stack filename = do {
     namelen \<leftarrow> strlen filename;
     buf \<leftarrow> memcpy (name_array stack namelen) 0 filename namelen;
     buf \<leftarrow> memcpy buf namelen (STOREEXT @ [NUL]) STOREEXTLEN;
     memset buf (namelen + STOREEXTLEN) NUL NULLLEN
   }"

section \<open>Lemmas\<close>

lemma strlen_terminated: "NUL \<notin> set name \<Longrightarrow> strlen (name @ NUL # rest) = Some (length name)"
  by (induction name) auto

lemma strlen_Some: "strlen obj = Some n \<Longrightarrow> \<exists>name rest. obj = name @ NUL # rest \<and> length name = n \<and> NUL \<notin> set name"
proof (induction obj arbitrary: n)
  case Nil
  then show ?case by simp
next
  case (Cons c cs)
  show ?case
  proof (cases "c = NUL")
    case True
    with Cons.prems show ?thesis by (intro exI [of _ "[]"] exI [of _ cs]) simp
  next
    case False
    with Cons.prems obtain k where k: "strlen cs = Some k" "n = Suc k" by auto
    from Cons.IH [OF k(1)] obtain name rest
      where "cs = name @ NUL # rest" "length name = k" "NUL \<notin> set name" by blast
    with False k(2) show ?thesis by (intro exI [of _ "c # name"] exI [of _ rest]) auto
  qed
qed

lemma c_string_terminated: "NUL \<notin> set name \<Longrightarrow> c_string (name @ NUL # rest) = Some name"
  by (simp add: c_string_def strlen_terminated)

lemma NUL_not_in_ext: "NUL \<notin> set STOREEXT"
  by (simp add: NUL_def STOREEXT_def)

lemma length_STOREEXT: "length STOREEXT = STOREEXTLEN"
  by (simp add: STOREEXT_def STOREEXTLEN_def)

lemma put_chars_front: "length cs \<le> length dst \<Longrightarrow> put_chars dst 0 cs = Some (cs @ drop (length cs) dst)"
  by (simp add: put_chars_def)

lemma put_chars_next:
  "length xs + length cs \<le> length (xs @ ys) \<Longrightarrow> put_chars (xs @ ys) (length xs) cs = Some (xs @ cs @ drop (length cs) ys)"
  by (simp add: put_chars_def)

lemma store_name_buffer_terminated:
  assumes "NUL \<notin> set name"
  shows "store_name_buffer stack (name @ NUL # rest) = Some (store_filename name @ [NUL])"
proof -
  let ?arr = "name_array stack (length name)"
  have len: "length ?arr = length name + STOREEXTLEN + NULLLEN"
    by (simp add: name_array_def)
  have 1: "memcpy ?arr 0 (name @ NUL # rest) (length name) = Some (name @ drop (length name) ?arr)"
    using len by (simp add: memcpy_def put_chars_front)
  have 2: "memcpy (name @ drop (length name) ?arr) (length name) (STOREEXT @ [NUL]) STOREEXTLEN
      = Some (name @ STOREEXT @ drop (length name + STOREEXTLEN) ?arr)"
    using len by (simp add: memcpy_def put_chars_next add.commute flip: length_STOREEXT)
  have l: "length name + STOREEXTLEN = length (name @ STOREEXT)"
    by (simp add: length_STOREEXT)
  have 3: "memset (name @ STOREEXT @ drop (length name + STOREEXTLEN) ?arr) (length name + STOREEXTLEN) NUL NULLLEN
      = Some (name @ STOREEXT @ [NUL])"
    using len put_chars_next [of "name @ STOREEXT" "[NUL]" "drop (length name + STOREEXTLEN) ?arr"]
    by (simp add: memset_def NULLLEN_def length_STOREEXT)
  show ?thesis
    using 1 2 3 assms
    by (simp add: store_name_buffer_def strlen_terminated store_filename_def length_STOREEXT [symmetric])
qed

section \<open>Properties\<close>

text \<open>
  C19: The name buffer is exactly as long as it has to be: for every object that holds a
  terminated name, whatever the stack held before, the three writes stay inside the array,
  overwrite all of it, and leave the C string \<open>store_filename name\<close>; without a terminator
  \<open>strlen\<close> leaves the object.  Different names give different files.
\<close>

theorem name_buffer_fits:
  "store_name_buffer stack obj =
     map_option (\<lambda>name. store_filename name @ [NUL]) (c_string obj)
   \<and> Option.bind (store_name_buffer stack obj) c_string = map_option store_filename (c_string obj)
   \<and> inj store_filename"
proof (intro conjI)
  show 1: "store_name_buffer stack obj = map_option (\<lambda>name. store_filename name @ [NUL]) (c_string obj)"
  proof (cases "strlen obj")
    case None
    then show ?thesis by (simp add: store_name_buffer_def c_string_def)
  next
    case (Some n)
    then obtain name rest where "obj = name @ NUL # rest" "NUL \<notin> set name"
      using strlen_Some by blast
    then show ?thesis by (simp add: store_name_buffer_terminated c_string_terminated)
  qed
  have "c_string (store_filename name @ [NUL]) = Some (store_filename name)" if n: "c_string obj = Some name" for name
  proof (rule c_string_terminated)
    obtain n where "strlen obj = Some n" "name = take n obj"
      using n by (auto simp: c_string_def)
    then have "NUL \<notin> set name" using strlen_Some [of obj n] by auto
    then show "NUL \<notin> set (store_filename name)"
      using NUL_not_in_ext set_take_subset [of STOREEXTLEN STOREEXT] by (auto simp: store_filename_def)
  qed
  with 1 show "Option.bind (store_name_buffer stack obj) c_string = map_option store_filename (c_string obj)"
    by (cases "c_string obj") auto
  show "inj store_filename" by (simp add: inj_def store_filename_def)
qed

end
