(* ===== verification/FreeList.thy ===== *)
theory FreeList
  imports FileIO
begin

text \<open>
  The on-disk free list.  \<open>wf_store f N fl\<close> says that the file \<open>f\<close> holds a store of \<open>N\<close>
  pages whose metadata page describes the free list \<open>fl\<close> (page numbers, head first) and
  whose free pages are linked in that order.  The lemmas give the fault-free effect of each
  page operation as an explicit sequence of page writes, and the effect of those writes on
  \<open>wf_store\<close> and on the contents of the pages.
\<close>

section \<open>Files as sequences of pages\<close>

definition page_of :: "mem \<Rightarrow> mem" where
  "page_of m = (\<lambda>i. if i < PAGESIZE then m i else 0)"

definition page_at :: "regfile \<Rightarrow> nat \<Rightarrow> mem" where
  "page_at f p = page_of (\<lambda>i. fbytes f (p * PAGESIZE + i))"

definition page_ptr :: "nat \<Rightarrow> i64" where
  "page_ptr p = word_of_nat (p * PAGESIZE)"

definition write_page :: "regfile \<Rightarrow> nat \<Rightarrow> mem \<Rightarrow> regfile" where
  "write_page f p m = write_file f (p * PAGESIZE) m PAGESIZE"

definition link :: "regfile \<Rightarrow> nat \<Rightarrow> i64" where
  "link f p = load64 (fbytes f) (p * PAGESIZE)"

text \<open>
  \<open>page_fits p\<close>: the byte offset of page \<open>p\<close> is a non-negative \<open>ssize_t\<close>.  A store of at
  most \<open>MAX_PAGES\<close> pages keeps even the doubly scaled offset of the reuse branch in range.
\<close>

definition page_fits :: "nat \<Rightarrow> bool" where
  "page_fits p \<longleftrightarrow> p * PAGESIZE < 2 ^ 63"

definition MAX_PAGES :: nat where
  "MAX_PAGES = 2 ^ 39"

lemma page_fits_MAX [intro]: "p \<le> MAX_PAGES \<Longrightarrow> page_fits p"
  by (simp add: page_fits_def MAX_PAGES_def PAGESIZE_def)

lemma page_fits_scaled: "p < MAX_PAGES \<Longrightarrow> page_fits (p * PAGESIZE)"
  by (simp add: page_fits_def MAX_PAGES_def PAGESIZE_def)

text \<open>The doubly scaled offset lies beyond a store of at most 4096 pages.\<close>

lemma scaled_beyond:
  assumes "1 \<le> p" and "n \<le> PAGESIZE"
  shows "n \<le> p * PAGESIZE"
  using mult_le_mono1 [OF assms(1), of PAGESIZE] assms(2) by linarith

lemma page_fits_0 [simp]: "page_fits 0"
  by (simp add: page_fits_def)

lemma page_fits_bytes: "page_fits p \<Longrightarrow> p * PAGESIZE < 2 ^ 63"
  by (simp add: page_fits_def)

lemma unat_page_ptr:
  assumes "page_fits p"
  shows "unat (page_ptr p) = p * PAGESIZE"
  unfolding page_ptr_def
  by (rule unat_word_of_nat64) (use page_fits_bytes [OF assms] in simp)

lemma sint_page_ptr:
  assumes "page_fits p"
  shows "sint (page_ptr p) = int (p * PAGESIZE)"
  unfolding page_ptr_def
  by (rule sint_word_of_nat) (rule page_fits_bytes [OF assms])

lemma page_ptr_inj:
  assumes "page_fits p" and "page_fits q"
  shows "page_ptr p = page_ptr q \<longleftrightarrow> p = q"
proof
  assume "page_ptr p = page_ptr q"
  then have "p * PAGESIZE = q * PAGESIZE"
    by (metis assms unat_page_ptr)
  then show "p = q" by simp
qed simp

lemma page_ptr_not_empty:
  assumes "page_fits p"
  shows "page_ptr p \<noteq> - 1"
  unfolding page_ptr_def
  by (rule word_of_nat_not_minus1) (rule page_fits_bytes [OF assms])

lemma page_ptr_0 [simp]: "page_ptr 0 = 0"
  by (simp add: page_ptr_def)

lemma index_to_offset_of_nat: "index_to_offset (word_of_nat p) = page_ptr p"
  by (simp add: index_to_offset_def page_ptr_def)

lemma index_to_offset_0 [simp]: "index_to_offset 0 = 0"
  by (simp add: index_to_offset_def)

lemma index_to_offset_page_ptr: "index_to_offset (page_ptr p) = page_ptr (p * PAGESIZE)"
  by (simp add: index_to_offset_def page_ptr_def)

lemma offset_to_index_page_ptr:
  assumes "page_fits p"
  shows "offset_to_index (page_ptr p) = word_of_nat p"
proof (cases "p = 0")
  case True
  then show ?thesis by (simp add: offset_to_index_def)
next
  case False
  have s: "sint (page_ptr p) = int p * 4096"
    using sint_page_ptr [OF assms] by (simp add: PAGESIZE_def)
  have "page_ptr p \<noteq> 0"
    using False page_ptr_inj [OF assms, of 0] by simp
  with s False show ?thesis
    by (simp add: offset_to_index_def PAGESIZE_def sgn_if)
qed

section \<open>Effect of a write on loads, links and pages\<close>

lemma fbytes_write_file:
  "0 < k \<Longrightarrow> fbytes (write_file f off m k) i
     = (if off \<le> i \<and> i < off + k then m (i - off) else if i < flen f then fbytes f i else 0)"
  by (simp add: write_file_def)

lemma flen_write_file: "0 < k \<Longrightarrow> flen (write_file f off m k) = max (flen f) (off + k)"
  by (simp add: write_file_def)

lemma flen_write_page [simp]: "flen (write_page f p m) = max (flen f) (Suc p * PAGESIZE)"
  by (simp add: write_page_def flen_write_file add.commute)

lemma load64_shift:
  "(\<And>i. i < 8 \<Longrightarrow> m (a + i) = m' (b + i)) \<Longrightarrow> load64 m a = load64 m' b"
proof -
  assume same: "\<And>i. i < 8 \<Longrightarrow> m (a + i) = m' (b + i)"
  have "load_bytes m a 8 = load_bytes m' b 8"
    by (rule nth_equalityI) (auto simp: load_bytes_def same)
  then show ?thesis by (simp add: load64_def)
qed

lemma load64_write_in:
  "a + 8 \<le> k \<Longrightarrow> load64 (fbytes (write_file f off m k)) (off + a) = load64 m a"
  by (rule load64_shift) (simp add: fbytes_write_file)

lemma load64_write_out:
  "0 < k \<Longrightarrow> a + 8 \<le> off \<or> off + k \<le> a \<Longrightarrow> a + 8 \<le> flen f
   \<Longrightarrow> load64 (fbytes (write_file f off m k)) a = load64 (fbytes f) a"
  by (rule load64_shift) (auto simp: fbytes_write_file)

lemma link_write_same: "link (write_page f p m) p = load64 m 0"
  using load64_write_in [of 0 PAGESIZE f "p * PAGESIZE" m]
  by (simp add: link_def PAGESIZE_def write_page_def)

lemma pages_apart:
  assumes "(p::nat) \<noteq> q"
  shows "Suc p * PAGESIZE \<le> q * PAGESIZE \<or> Suc q * PAGESIZE \<le> p * PAGESIZE"
proof -
  from assms have "Suc p \<le> q \<or> Suc q \<le> p" by auto
  then show ?thesis by (metis mult_le_mono1)
qed

lemma link_write_other:
  "p \<noteq> q \<Longrightarrow> Suc q * PAGESIZE \<le> flen f \<Longrightarrow> link (write_page f p m) q = link f q"
  unfolding link_def write_page_def
  by (rule load64_write_out) (use pages_apart [of p q] in \<open>auto simp: PAGESIZE_def\<close>)

lemma page_at_write_same: "page_at (write_page f p m) p = page_of m"
  by (auto simp: page_at_def page_of_def write_page_def fbytes_write_file)

lemma page_at_write_other:
  "p \<noteq> q \<Longrightarrow> Suc q * PAGESIZE \<le> flen f \<Longrightarrow> page_at (write_page f p m) q = page_at f q"
  using pages_apart [of p q]
  by (auto simp: page_at_def page_of_def write_page_def fbytes_write_file fun_eq_iff)

lemma link_conv_page_at: "link f p = load64 (page_at f p) 0"
  unfolding link_def page_at_def page_of_def
  by (rule load64_shift) (simp add: PAGESIZE_def)

lemma link_page_at: "page_at f p = page_at g p \<Longrightarrow> link f p = link g p"
  by (simp add: link_conv_page_at)

section \<open>Fault-free page transfers\<close>

lemma read_into_page: "read_into (fbytes f) (p * PAGESIZE) PAGESIZE zero_mem = page_at f p"
  by (auto simp: read_into_def page_at_def page_of_def)

lemma pread_page:
  assumes "sched s = []" and "fd_inode s fd = Some ino" and "page_fits p"
    and "Suc p * PAGESIZE \<le> flen (inodes s ino)"
  shows "posix_pread fd zero_mem PAGESIZE (page_ptr p) s
           = (int PAGESIZE, page_at (inodes s ino) p, s)"
proof -
  have "min PAGESIZE (flen (inodes s ino) - p * PAGESIZE) = PAGESIZE"
    using assms(4) by (simp add: min_def)
  then show ?thesis
    using assms(1-3) by (simp add: pread_ok sint_page_ptr unat_page_ptr read_into_page)
qed

lemma pwrite_page:
  assumes "sched s = []" and "fd_inode s fd = Some ino" and "page_fits p"
  shows "posix_pwrite fd m PAGESIZE (page_ptr p) s
           = (int PAGESIZE, set_file ino (write_page (inodes s ino) p m) s)"
  using assms by (simp add: pwrite_ok sint_page_ptr unat_page_ptr write_page_def)

lemma pread_meta:
  assumes "sched s = []" and "fd_inode s fd = Some ino" and "PAGESIZE \<le> flen (inodes s ino)"
  shows "posix_pread fd zero_mem PAGESIZE 0 s = (int PAGESIZE, page_at (inodes s ino) 0, s)"
  using pread_page [of s fd ino 0] assms by simp

lemma pwrite_meta:
  assumes "sched s = []" and "fd_inode s fd = Some ino"
  shows "posix_pwrite fd m PAGESIZE 0 s
           = (int PAGESIZE, set_file ino (write_page (inodes s ino) 0 m) s)"
  using pwrite_page [of s fd ino 0] assms by simp

lemma pread_freepage:
  assumes "sched s = []" and "fd_inode s fd = Some ino" and "page_fits p"
    and "Suc p * PAGESIZE \<le> flen (inodes s ino)"
  shows "\<exists>m. posix_pread fd zero_mem SIZEOF_FREEPAGE (page_ptr p) s = (int SIZEOF_FREEPAGE, m, s)
             \<and> fp_offset m = link (inodes s ino) p"
proof -
  let ?f = "inodes s ino"
  have k: "min SIZEOF_FREEPAGE (flen ?f - p * PAGESIZE) = SIZEOF_FREEPAGE"
    using assms(4) by (simp add: min_def SIZEOF_FREEPAGE_def PAGESIZE_def)
  have "load64 (read_into (fbytes ?f) (p * PAGESIZE) SIZEOF_FREEPAGE zero_mem) 0 = link ?f p"
    unfolding link_def by (rule load64_shift) (simp add: read_into_def SIZEOF_FREEPAGE_def)
  then show ?thesis
    using assms(1-3) k by (simp add: pread_ok sint_page_ptr unat_page_ptr fp_offset_def)
qed

section \<open>The metadata fields\<close>

lemma mp_setters [mem_simps]:
  "mp_size (set_mp_size v m) = v" "mp_head (set_mp_size v m) = mp_head m"
  "mp_tail (set_mp_size v m) = mp_tail m"
  "mp_size (set_mp_head v m) = mp_size m" "mp_head (set_mp_head v m) = v"
  "mp_tail (set_mp_head v m) = mp_tail m"
  "mp_size (set_mp_tail v m) = mp_size m" "mp_head (set_mp_tail v m) = mp_head m"
  "mp_tail (set_mp_tail v m) = v"
  by (simp_all add: mp_size_def mp_head_def mp_tail_def set_mp_size_def set_mp_head_def
      set_mp_tail_def load64_store64_other)

lemma fp_offset_set [mem_simps]: "load64 (set_fp_offset v m) 0 = v"
  by (simp add: set_fp_offset_def)

text \<open>The metadata as the file holds it.\<close>

definition meta :: "regfile \<Rightarrow> mem" where
  "meta f = page_at f 0"

lemma load64_page_of: "a + 8 \<le> PAGESIZE \<Longrightarrow> load64 (page_of m) a = load64 m a"
  by (rule load64_cong) (auto simp: page_of_def)

lemma meta_write_0 [mem_simps]:
  "mp_size (meta (write_page f 0 m)) = mp_size m"
  "mp_head (meta (write_page f 0 m)) = mp_head m"
  "mp_tail (meta (write_page f 0 m)) = mp_tail m"
  using page_at_write_same [of f 0 m]
  by (simp_all add: meta_def mp_size_def mp_head_def mp_tail_def load64_page_of PAGESIZE_def)

lemma meta_write_other [mem_simps]:
  "p \<noteq> 0 \<Longrightarrow> PAGESIZE \<le> flen f \<Longrightarrow> meta (write_page f p m) = meta f"
  by (simp add: meta_def page_at_write_other)

section \<open>The free list on disk\<close>

fun chain :: "regfile \<Rightarrow> nat list \<Rightarrow> bool" where
  "chain f [] = True"
| "chain f [p] = (link f p = - 1)"
| "chain f (p # q # r) = (link f p = page_ptr q \<and> chain f (q # r))"

definition head_ptr :: "nat list \<Rightarrow> i64" where
  "head_ptr fl = (case fl of [] \<Rightarrow> - 1 | p # _ \<Rightarrow> page_ptr p)"

definition tail_ptr :: "nat list \<Rightarrow> i64" where
  "tail_ptr fl = (case fl of [] \<Rightarrow> - 1 | _ \<Rightarrow> page_ptr (last fl))"

lemma head_ptr_prefix: "head_ptr (xs @ p # ys) = head_ptr (xs @ [p])"
  by (cases xs) (simp_all add: head_ptr_def)

lemma tail_ptr_snoc [simp]: "tail_ptr (xs @ [p]) = page_ptr p"
  by (cases xs) (simp_all add: tail_ptr_def)

definition wf_store :: "regfile \<Rightarrow> nat \<Rightarrow> nat list \<Rightarrow> bool" where
  "wf_store f N fl \<longleftrightarrow>
     1 \<le> N \<and> N \<le> MAX_PAGES \<and> N * PAGESIZE \<le> flen f \<and>
     mp_size (meta f) = word_of_nat N \<and>
     mp_head (meta f) = head_ptr fl \<and> mp_tail (meta f) = tail_ptr fl \<and>
     distinct fl \<and> (\<forall>p \<in> set fl. 1 \<le> p \<and> p < N) \<and> chain f fl"

lemma wf_store_page_in_file:
  assumes "wf_store f N fl" and "p < N"
  shows "Suc p * PAGESIZE \<le> flen f"
proof -
  have "Suc p * PAGESIZE \<le> N * PAGESIZE"
    using assms(2) by (intro mult_le_mono1) simp
  with assms(1) show ?thesis by (simp add: wf_store_def)
qed

lemma wf_store_meta_in_file: "wf_store f N fl \<Longrightarrow> PAGESIZE \<le> flen f"
  using wf_store_page_in_file [of f N fl 0] by (auto simp: wf_store_def)

lemma wf_store_free_page:
  assumes "wf_store f N fl" and "p \<in> set fl"
  shows "1 \<le> p" "p < N" "p < MAX_PAGES" "page_fits p"
proof -
  show 1: "1 \<le> p" "p < N"
    using assms by (auto simp: wf_store_def)
  show "p < MAX_PAGES"
    using assms(1) 1(2) by (simp add: wf_store_def)
  then show "page_fits p" by auto
qed

lemma chain_cong: "(\<And>p. p \<in> set fl \<Longrightarrow> link f p = link g p) \<Longrightarrow> chain f fl = chain g fl"
  by (induction g fl rule: chain.induct) auto

lemma chain_tail: "chain f (p # ps) \<Longrightarrow> chain f ps \<and> link f p = head_ptr ps"
  by (cases ps) (auto simp: head_ptr_def)

lemma chain_snoc:
  "chain f fl \<Longrightarrow> fl \<noteq> [] \<Longrightarrow> (\<And>q. q \<in> set (butlast fl) \<Longrightarrow> link g q = link f q)
   \<Longrightarrow> link g (last fl) = page_ptr p \<Longrightarrow> link g p = - 1 \<Longrightarrow> chain g (fl @ [p])"
  by (induction f fl rule: chain.induct) auto

end
