(* ===== verification/PageStore.thy ===== *)
theory PageStore
  imports FreeList
begin

text \<open>
  The page operations against an abstract page store.  \<open>pstore\<close> is what a client may rely
  on: a number of pages, a FIFO queue of free pages and the contents of the live ones.
  \<open>store_at b s a\<close> relates a backing and an operating-system state to an abstract store;
  the lemmas show that each page operation of \<open>fileio.c\<close>, without I/O faults, simulates
  the abstract operation of the same name, and where it does not.
\<close>

section \<open>Abstract page stores\<close>

record pstore =
  ps_size :: nat
  ps_free :: "nat list"
  ps_data :: "nat \<Rightarrow> mem"

definition ps_live :: "pstore \<Rightarrow> nat \<Rightarrow> bool" where
  "ps_live a p \<longleftrightarrow> 1 \<le> p \<and> p < ps_size a \<and> p \<notin> set (ps_free a)"

definition src_page :: "mem option \<Rightarrow> mem" where
  "src_page src = page_of (case src of None \<Rightarrow> zero_mem | Some m \<Rightarrow> m)"

text \<open>Allocation takes the oldest free page, or extends the store; the page holds the
  source, or zeros when there is none.\<close>

definition ps_alloc :: "mem option \<Rightarrow> pstore \<Rightarrow> nat \<times> pstore" where
  "ps_alloc src a =
     (case ps_free a of
        [] \<Rightarrow> (ps_size a, a\<lparr>ps_size := Suc (ps_size a),
                             ps_data := (ps_data a)(ps_size a := src_page src)\<rparr>)
      | p # ps \<Rightarrow> (p, a\<lparr>ps_free := ps, ps_data := (ps_data a)(p := src_page src)\<rparr>))"

definition ps_release :: "nat \<Rightarrow> pstore \<Rightarrow> pstore" where
  "ps_release p a = a\<lparr>ps_free := ps_free a @ [p]\<rparr>"

definition ps_put :: "nat \<Rightarrow> mem \<Rightarrow> pstore \<Rightarrow> pstore" where
  "ps_put p m a = a\<lparr>ps_data := (ps_data a)(p := page_of m)\<rparr>"

definition ps_empty :: pstore where
  "ps_empty = \<lparr>ps_size = 1, ps_free = [], ps_data = (\<lambda>_. zero_mem)\<rparr>"

definition store_rel :: "regfile \<Rightarrow> pstore \<Rightarrow> bool" where
  "store_rel f a \<longleftrightarrow>
     wf_store f (ps_size a) (ps_free a) \<and>
     (\<forall>p \<in> {1..<ps_size a}. p \<notin> set (ps_free a) \<longrightarrow> page_at f p = ps_data a p)"

definition store_at :: "backing \<Rightarrow> os \<Rightarrow> pstore \<Rightarrow> bool" where
  "store_at b s a \<longleftrightarrow> sched s = [] \<and>
     (case fd_inode s (storefd b) of None \<Rightarrow> False | Some ino \<Rightarrow> store_rel (inodes s ino) a)"

lemma store_relD:
  "store_rel f a \<Longrightarrow> wf_store f (ps_size a) (ps_free a)"
  "store_rel f a \<Longrightarrow> ps_live a p \<Longrightarrow> page_at f p = ps_data a p"
  by (auto simp: store_rel_def ps_live_def)

lemma store_relI:
  "wf_store f (ps_size a) (ps_free a) \<Longrightarrow> (\<And>p. ps_live a p \<Longrightarrow> page_at f p = ps_data a p)
   \<Longrightarrow> store_rel f a"
  by (auto simp: store_rel_def ps_live_def)

lemma store_atE:
  assumes "store_at b s a"
  obtains ino where "sched s = []" "fd_inode s (storefd b) = Some ino"
    "store_rel (inodes s ino) a"
  using assms by (auto simp: store_at_def split: option.splits)

lemma store_atI:
  "sched s = [] \<Longrightarrow> fd_inode s (storefd b) = Some ino \<Longrightarrow> store_rel (inodes s ino) a
   \<Longrightarrow> store_at b s a"
  by (simp add: store_at_def)

section \<open>The file after an allocation\<close>

definition data_write :: "mem option \<Rightarrow> nat \<Rightarrow> regfile \<Rightarrow> regfile" where
  "data_write src p f = (case src of None \<Rightarrow> f | Some m \<Rightarrow> write_page f p m)"

definition extend_file :: "mem option \<Rightarrow> nat \<Rightarrow> regfile \<Rightarrow> regfile" where
  "extend_file src N f =
     write_page (data_write src N (write_page f N zero_mem)) 0
       (set_mp_size (word_of_nat (Suc N)) (meta f))"

definition reuse_file :: "mem option \<Rightarrow> nat \<Rightarrow> regfile \<Rightarrow> regfile" where
  "reuse_file src p f =
     write_page (case src of None \<Rightarrow> write_page f (p * PAGESIZE) zero_mem
                           | Some m \<Rightarrow> write_page f p m) 0
       (unlink_head (meta f) (link f p))"

lemma alloc_page_nil:
  assumes "sched s = []" and "fd_inode s (storefd b) = Some ino"
    and wf: "wf_store (inodes s ino) N []"
  shows "alloc_page src (Some b) s
           = (STATUS_OK, word_of_nat N, set_file ino (extend_file src N (inodes s ino)) s)"
proof -
  let ?f = "inodes s ino"
  from wf have N: "mp_size (meta ?f) = word_of_nat N" "mp_head (meta ?f) = - 1" "page_fits N"
    by (auto simp: wf_store_def head_ptr_def)
  have r: "posix_pread (storefd b) zero_mem PAGESIZE 0 s = (int PAGESIZE, meta ?f, s)"
    unfolding meta_def using assms wf_store_meta_in_file [OF wf] by (intro pread_meta)
  show ?thesis
    using assms(1,2) N
    by (cases src) (simp_all add: alloc_page_def r EMPTY_LIST_def alloc_extend_def Let_def
        index_to_offset_of_nat pwrite_page pwrite_meta extend_file_def data_write_def add.commute)
qed

text \<open>The reuse branch needs only the head pointer and the file up to the head page.\<close>

lemma alloc_page_head:
  assumes "sched s = []" and "fd_inode s (storefd b) = Some ino"
    and p: "mp_head (meta (inodes s ino)) = page_ptr p" "p < MAX_PAGES"
    and len: "PAGESIZE \<le> flen (inodes s ino)" "Suc p * PAGESIZE \<le> flen (inodes s ino)"
  shows "alloc_page src (Some b) s
           = (STATUS_OK, word_of_nat p, set_file ino (reuse_file src p (inodes s ino)) s)"
proof -
  let ?f = "inodes s ino"
  from p(2) have fits: "page_fits p" "page_fits (p * PAGESIZE)"
    by (auto intro: page_fits_scaled)
  have r: "posix_pread (storefd b) zero_mem PAGESIZE 0 s = (int PAGESIZE, meta ?f, s)"
    unfolding meta_def using assms(1,2) len(1) by (intro pread_meta)
  obtain m where m: "posix_pread (storefd b) zero_mem SIZEOF_FREEPAGE (page_ptr p) s
      = (int SIZEOF_FREEPAGE, m, s)" "fp_offset m = link ?f p"
    using pread_freepage [OF assms(1,2) fits(1) len(2)] by blast
  have "page_ptr p \<noteq> - 1" using fits(1) by (rule page_ptr_not_empty)
  then show ?thesis
    using assms(1,2) p fits m
    by (cases src) (simp_all add: alloc_page_def r EMPTY_LIST_def alloc_reuse_def Let_def
        index_to_offset_page_ptr offset_to_index_page_ptr pwrite_page pwrite_meta reuse_file_def)
qed

lemma alloc_page_cons:
  assumes "sched s = []" and "fd_inode s (storefd b) = Some ino"
    and wf: "wf_store (inodes s ino) N (p # ps)"
  shows "alloc_page src (Some b) s
           = (STATUS_OK, word_of_nat p, set_file ino (reuse_file src p (inodes s ino)) s)"
proof (rule alloc_page_head [OF assms(1,2)])
  from wf have p: "mp_head (meta (inodes s ino)) = page_ptr p" "p < N" "p < MAX_PAGES"
    by (auto simp: wf_store_def head_ptr_def)
  then show "mp_head (meta (inodes s ino)) = page_ptr p" "p < MAX_PAGES" by simp_all
  show "PAGESIZE \<le> flen (inodes s ino)" using wf by (rule wf_store_meta_in_file)
  show "Suc p * PAGESIZE \<le> flen (inodes s ino)" using wf p(2) by (rule wf_store_page_in_file)
qed

lemma page_at_extend_new: "1 \<le> N \<Longrightarrow> page_at (extend_file src N f) N = src_page src"
  by (cases src)
    (simp_all add: extend_file_def data_write_def page_at_write_other page_at_write_same src_page_def)

lemma page_at_extend_other:
  "q \<noteq> 0 \<Longrightarrow> q < N \<Longrightarrow> Suc q * PAGESIZE \<le> flen f \<Longrightarrow> page_at (extend_file src N f) q = page_at f q"
  by (cases src) (simp_all add: extend_file_def data_write_def page_at_write_other le_max_iff_disj)

lemma flen_extend_file: "flen f \<le> flen (extend_file src N f) \<and> Suc N * PAGESIZE \<le> flen (extend_file src N f)"
  by (cases src) (auto simp: extend_file_def data_write_def)

lemma wf_extend_file:
  assumes wf: "wf_store f N []" and room: "N < MAX_PAGES"
  shows "wf_store (extend_file src N f) (Suc N) []"
  using assms flen_extend_file [of f src N]
  by (simp add: wf_store_def extend_file_def head_ptr_def tail_ptr_def mem_simps)

text \<open>The page the reuse branch writes: the free page itself, or, without a source, the page
  whose number is the byte offset of the free page.\<close>

definition reuse_target :: "mem option \<Rightarrow> nat \<Rightarrow> nat" where
  "reuse_target src p = (case src of None \<Rightarrow> p * PAGESIZE | Some _ \<Rightarrow> p)"

lemma reuse_file_write:
  "reuse_file src p f =
     write_page (write_page f (reuse_target src p) (case src of None \<Rightarrow> zero_mem | Some m \<Rightarrow> m)) 0
       (unlink_head (meta f) (link f p))"
  by (cases src) (simp_all add: reuse_file_def reuse_target_def)

lemma unlink_head_fields:
  assumes wf: "wf_store f N (p # ps)"
  shows "mp_size (unlink_head (meta f) (link f p)) = word_of_nat N"
    and "mp_head (unlink_head (meta f) (link f p)) = head_ptr ps"
    and "mp_tail (unlink_head (meta f) (link f p)) = tail_ptr ps"
proof -
  have fits: "page_fits q" if "q \<in> set (p # ps)" for q
    using wf that by (rule wf_store_free_page)
  have l: "link f p = head_ptr ps"
    using wf chain_tail [of f p ps] by (simp add: wf_store_def)
  have h: "mp_head (meta f) = page_ptr p" "mp_tail (meta f) = page_ptr (last (p # ps))"
    using wf by (simp_all add: wf_store_def head_ptr_def tail_ptr_def)
  have "mp_head (meta f) = mp_tail (meta f) \<longleftrightarrow> ps = []"
  proof (cases ps)
    case Nil
    with h show ?thesis by simp
  next
    case (Cons q qs)
    then have "last (p # ps) \<in> set ps" by simp
    moreover have "p \<notin> set ps" using wf by (simp add: wf_store_def)
    ultimately have "last (p # ps) \<noteq> p" by metis
    with h Cons fits page_ptr_inj [of p "last (p # ps)"] show ?thesis
      by (metis last_in_set list.distinct(1) list.set_intros(1))
  qed
  with h l wf show "mp_size (unlink_head (meta f) (link f p)) = word_of_nat N"
    and "mp_head (unlink_head (meta f) (link f p)) = head_ptr ps"
    and "mp_tail (unlink_head (meta f) (link f p)) = tail_ptr ps"
    by (auto simp: unlink_head_def wf_store_def mem_simps head_ptr_def tail_ptr_def
        split: list.splits)
qed

lemma page_at_reuse_other:
  assumes wf: "wf_store f N (p # ps)" and "q \<noteq> 0" "q < N" "q \<noteq> reuse_target src p"
  shows "page_at (reuse_file src p f) q = page_at f q"
  using assms(2-4) wf_store_page_in_file [OF wf assms(3)]
  by (simp add: reuse_file_write page_at_write_other le_max_iff_disj)

lemma page_at_reuse_same: "p \<noteq> 0 \<Longrightarrow> page_at (reuse_file (Some m) p f) p = page_of m"
  by (simp add: reuse_file_write reuse_target_def page_at_write_other page_at_write_same)

lemma wf_reuse_file:
  assumes wf: "wf_store f N (p # ps)" and safe: "src \<noteq> None \<or> N \<le> p * PAGESIZE"
  shows "wf_store (reuse_file src p f) N ps"
proof -
  let ?g = "reuse_file src p f"
  have p: "1 \<le> p" "p < N" and ps: "p \<notin> set ps" "distinct ps" "\<forall>q \<in> set ps. 1 \<le> q \<and> q < N"
    using wf by (auto simp: wf_store_def)
  have "flen f \<le> flen ?g"
    by (simp add: reuse_file_write)
  moreover have "N * PAGESIZE \<le> flen f"
    using wf by (simp add: wf_store_def)
  ultimately have len: "N * PAGESIZE \<le> flen ?g" by simp
  have fields: "mp_size (meta ?g) = word_of_nat N" "mp_head (meta ?g) = head_ptr ps"
    "mp_tail (meta ?g) = tail_ptr ps"
    by (simp_all only: reuse_file_write meta_write_0 unlink_head_fields [OF wf])
  have "link ?g q = link f q" if "q \<in> set ps" for q
  proof -
    have "q \<noteq> reuse_target src p"
      using that ps safe by (auto simp: reuse_target_def split: option.splits)
    then have "page_at ?g q = page_at f q"
      using ps(3) that page_at_reuse_other [OF wf] by auto
    then show ?thesis by (rule link_page_at)
  qed
  then have "chain ?g ps = chain f ps" by (rule chain_cong)
  moreover have "chain f ps"
    using wf chain_tail [of f p ps] by (simp add: wf_store_def)
  moreover have "1 \<le> N" "N \<le> MAX_PAGES"
    using wf by (simp_all add: wf_store_def)
  ultimately show ?thesis
    using ps len fields by (simp only: wf_store_def)
qed

section \<open>The file after a release\<close>

definition first_file :: "nat \<Rightarrow> regfile \<Rightarrow> regfile" where
  "first_file p f =
     write_page (write_page f p (set_fp_offset (- 1) zero_mem)) 0
       (set_mp_tail (page_ptr p) (set_mp_head (page_ptr p) (meta f)))"

definition append_file :: "nat \<Rightarrow> nat \<Rightarrow> regfile \<Rightarrow> regfile" where
  "append_file t p f =
     write_page
       (write_page (write_page f t (set_fp_offset (page_ptr p) zero_mem)) p
          (set_fp_offset (- 1) zero_mem)) 0
       (set_mp_tail (page_ptr p) (meta f))"

definition release_file :: "nat list \<Rightarrow> nat \<Rightarrow> regfile \<Rightarrow> regfile" where
  "release_file fl p f = (if fl = [] then first_file p f else append_file (last fl) p f)"

text \<open>A release looks at nothing but the metadata page.\<close>

lemma free_page_file:
  assumes "sched s = []" and "fd_inode s (storefd b) = Some ino"
    and m: "mp_head (meta (inodes s ino)) = head_ptr fl" "mp_tail (meta (inodes s ino)) = tail_ptr fl"
    and len: "PAGESIZE \<le> flen (inodes s ino)" and t: "fl \<noteq> [] \<Longrightarrow> page_fits (last fl)"
    and p: "p \<noteq> 0" "page_fits p"
  shows "free_page (Some b) (word_of_nat p) s
           = (STATUS_OK, set_file ino (release_file fl p (inodes s ino)) s)"
proof -
  let ?f = "inodes s ino"
  have nz: "page_ptr p \<noteq> 0"
    using p page_ptr_inj [of p 0] by simp
  have r: "posix_pread (storefd b) zero_mem PAGESIZE 0 s = (int PAGESIZE, meta ?f, s)"
    unfolding meta_def using assms(1,2) len by (intro pread_meta)
  show ?thesis
  proof (cases fl)
    case Nil
    with m have "mp_head (meta ?f) = - 1" "mp_tail (meta ?f) = - 1"
      by (simp_all add: head_ptr_def tail_ptr_def)
    with Nil assms(1,2) p nz show ?thesis
      by (simp add: free_page_def Let_def index_to_offset_of_nat r free_first_def pwrite_page
          pwrite_meta release_file_def first_file_def)
  next
    case (Cons q qs)
    with m have t1: "mp_tail (meta ?f) = page_ptr (last fl)"
      by (simp add: tail_ptr_def)
    have t2: "page_fits (last fl)" using t Cons by simp
    with t1 have "mp_tail (meta ?f) \<noteq> - 1"
      using page_ptr_not_empty by simp
    with Cons assms(1,2) p nz t1 t2 show ?thesis
      by (simp add: free_page_def Let_def index_to_offset_of_nat r free_append_def pwrite_page
          pwrite_meta release_file_def append_file_def)
  qed
qed

lemma free_page_ok:
  assumes "sched s = []" and "fd_inode s (storefd b) = Some ino"
    and wf: "wf_store (inodes s ino) N fl" and p: "p \<noteq> 0" "page_fits p"
  shows "free_page (Some b) (word_of_nat p) s
           = (STATUS_OK, set_file ino (release_file fl p (inodes s ino)) s)"
  using wf wf_store_meta_in_file [OF wf] wf_store_free_page(4) [OF wf] p
  by (intro free_page_file [OF assms(1,2)]) (simp_all add: wf_store_def)

lemma flen_release_file: "flen f \<le> flen (release_file fl p f)"
  by (simp add: release_file_def first_file_def append_file_def le_max_iff_disj)

lemma page_at_release_other:
  assumes "q \<noteq> 0" and "q \<noteq> p" and "fl = [] \<or> q \<noteq> last fl" and "Suc q * PAGESIZE \<le> flen f"
  shows "page_at (release_file fl p f) q = page_at f q"
  using assms
  by (auto simp: release_file_def first_file_def append_file_def page_at_write_other le_max_iff_disj)

lemma link_release_new: "p \<noteq> 0 \<Longrightarrow> link (release_file fl p f) p = - 1"
  by (auto simp: release_file_def first_file_def append_file_def link_write_other
      link_write_same fp_offset_set le_max_iff_disj)

lemma link_release_tail:
  "fl \<noteq> [] \<Longrightarrow> last fl \<noteq> 0 \<Longrightarrow> last fl \<noteq> p \<Longrightarrow> link (release_file fl p f) (last fl) = page_ptr p"
  by (simp add: release_file_def append_file_def link_write_other link_write_same
      fp_offset_set le_max_iff_disj)

lemma meta_release_file:
  assumes "p \<noteq> 0" and "fl = [] \<or> last fl \<noteq> 0" and "PAGESIZE \<le> flen f"
  shows "mp_size (meta (release_file fl p f)) = mp_size (meta f)"
    and "mp_head (meta (release_file fl p f)) = (if fl = [] then page_ptr p else mp_head (meta f))"
    and "mp_tail (meta (release_file fl p f)) = page_ptr p"
  using assms by (auto simp: release_file_def first_file_def append_file_def mem_simps)

text \<open>Releasing a page that is not on the free list appends it.\<close>

lemma wf_release_file:
  assumes wf: "wf_store f N fl" and p: "1 \<le> p" "p < N" "p \<notin> set fl"
  shows "wf_store (release_file fl p f) N (fl @ [p])"
proof -
  let ?g = "release_file fl p f"
  have t: "last fl \<in> set fl" "last fl \<noteq> 0" "last fl \<noteq> p" if "fl \<noteq> []"
    using that p wf_store_free_page(1) [OF wf, of "last fl"] last_in_set [OF that] by auto
  have chain: "chain ?g (fl @ [p])"
  proof (cases "fl = []")
    case True
    then show ?thesis using p link_release_new [of p fl f] by simp
  next
    case False
    show ?thesis
    proof (rule chain_snoc [of f fl])
      show "chain f fl" using wf by (simp add: wf_store_def)
      show "fl \<noteq> []" by fact
      show "link ?g (last fl) = page_ptr p"
        using False t by (simp add: link_release_tail)
      show "link ?g p = - 1"
        using p by (simp add: link_release_new)
      fix q assume q: "q \<in> set (butlast fl)"
      have "distinct fl" using wf by (simp add: wf_store_def)
      with q have "q \<noteq> last fl" "q \<in> set fl"
        by (simp_all add: butlast_not_last)
      then show "link ?g q = link f q"
        using p wf_store_free_page [OF wf, of q] wf_store_page_in_file [OF wf, of q]
        by (intro link_page_at page_at_release_other) auto
    qed
  qed
  have "N * PAGESIZE \<le> flen ?g"
    using wf flen_release_file [of f fl p] by (simp add: wf_store_def)
  moreover have "head_ptr (fl @ [p]) = (if fl = [] then page_ptr p else mp_head (meta f))"
    using wf by (auto simp: wf_store_def head_ptr_def split: list.splits)
  ultimately show ?thesis
    using wf p t chain meta_release_file [of p fl f, OF _ _ wf_store_meta_in_file [OF wf]]
    by (auto simp: wf_store_def)
qed

text \<open>Releasing a page that already is on the free list cuts the list off behind it.\<close>

lemma chain_prefix_stop:
  "chain f (xs @ p # ys) \<Longrightarrow> (\<And>q. q \<in> set xs \<Longrightarrow> link g q = link f q) \<Longrightarrow> link g p = - 1
   \<Longrightarrow> chain g (xs @ [p])"
proof (induction xs)
  case Nil
  then show ?case by simp
next
  case (Cons x xs)
  then have "chain g (xs @ [p])"
    using chain_tail [of f x "xs @ p # ys"] by simp
  moreover have "link g x = link f x" using Cons.prems(2) by simp
  ultimately show ?case
    using Cons.prems(1) by (cases xs) auto
qed

lemma wf_release_twice:
  assumes wf: "wf_store f N (xs @ p # ys)"
  shows "wf_store (release_file (xs @ p # ys) p f) N (xs @ [p])"
proof -
  let ?fl = "xs @ p # ys" and ?g = "release_file (xs @ p # ys) p f"
  have p: "1 \<le> p" "p < N"
    by (rule wf_store_free_page [OF wf], simp)+
  have d: "distinct ?fl" using wf by (simp add: wf_store_def)
  have "1 \<le> last ?fl"
    by (rule wf_store_free_page(1) [OF wf]) (rule last_in_set, simp)
  then have l: "last ?fl \<noteq> 0" by simp
  have "chain ?g (xs @ [p])"
  proof (rule chain_prefix_stop [of f xs p ys])
    show "chain f (xs @ p # ys)" using wf by (simp add: wf_store_def)
    show "link ?g p = - 1" using p by (simp add: link_release_new)
    fix q assume q: "q \<in> set xs"
    with d have "q \<noteq> p" "q \<noteq> last ?fl"
      by (auto simp: last_in_set disjoint_iff)
    with q show "link ?g q = link f q"
      using wf_store_free_page [OF wf, of q] wf_store_page_in_file [OF wf, of q]
      by (intro link_page_at page_at_release_other) auto
  qed
  moreover have "N * PAGESIZE \<le> flen ?g"
    using wf flen_release_file [of f ?fl p] by (simp add: wf_store_def)
  moreover have "head_ptr (xs @ [p]) = mp_head (meta f)"
    using wf by (simp add: wf_store_def head_ptr_prefix [of xs p ys])
  ultimately show ?thesis
    using wf p l meta_release_file [of p ?fl f, OF _ _ wf_store_meta_in_file [OF wf]]
    by (auto simp: wf_store_def)
qed

section \<open>Reading and writing pages\<close>

lemma get_page_ok:
  assumes "sched s = []" and "fd_inode s (storefd b) = Some ino" and "p \<noteq> 0" and "page_fits p"
    and "Suc p * PAGESIZE \<le> flen (inodes s ino)"
  shows "\<exists>m. get_page dest (Some b) (word_of_nat p) s = (STATUS_OK, m, s)
             \<and> page_of m = page_at (inodes s ino) p"
proof -
  let ?f = "inodes s ino"
  have nz: "page_ptr p \<noteq> 0"
    using assms(3,4) page_ptr_inj [of p 0] by simp
  have k: "min PAGESIZE (flen ?f - p * PAGESIZE) = PAGESIZE"
    using assms(5) by (simp add: min_def)
  have "get_page dest (Some b) (word_of_nat p) s
      = (STATUS_OK, read_into (fbytes ?f) (p * PAGESIZE) PAGESIZE dest, s)"
    using assms nz k
    by (simp add: get_page_def Let_def index_to_offset_of_nat lseek_ok pread_ok sint_page_ptr
        unat_page_ptr)
  moreover have "page_of (read_into (fbytes ?f) (p * PAGESIZE) PAGESIZE dest) = page_at ?f p"
    by (auto simp: page_of_def page_at_def read_into_def)
  ultimately show ?thesis by blast
qed

lemma put_page_ok:
  assumes "sched s = []" and "fd_inode s (storefd b) = Some ino" and "p \<noteq> 0" and "page_fits p"
  shows "put_page src (Some b) (word_of_nat p) s
           = (STATUS_OK, set_file ino (write_page (inodes s ino) p src) s)"
proof -
  have nz: "page_ptr p \<noteq> 0"
    using assms(3,4) page_ptr_inj [of p 0] by simp
  with assms show ?thesis
    by (simp add: put_page_def Let_def index_to_offset_of_nat lseek_ok pwrite_page sint_page_ptr)
qed

lemma wf_write_live:
  assumes wf: "wf_store f N fl" and p: "1 \<le> p" "p < N" "p \<notin> set fl"
  shows "wf_store (write_page f p m) N fl"
proof -
  have "chain (write_page f p m) fl = chain f fl"
  proof (rule chain_cong)
    fix q assume "q \<in> set fl"
    then show "link (write_page f p m) q = link f q"
      using p wf_store_free_page(2) [OF wf, of q] wf_store_page_in_file [OF wf, of q]
      by (intro link_write_other) auto
  qed
  moreover have "N * PAGESIZE \<le> flen (write_page f p m)"
    using wf by (simp add: wf_store_def le_max_iff_disj)
  moreover have "meta (write_page f p m) = meta f"
    using p wf_store_meta_in_file [OF wf] by (simp add: meta_write_other)
  ultimately show ?thesis
    using wf by (simp add: wf_store_def)
qed

section \<open>Simulation\<close>

lemma store_at_fits: "store_rel f a \<Longrightarrow> ps_live a p \<Longrightarrow> p \<noteq> 0 \<and> page_fits p \<and> Suc p * PAGESIZE \<le> flen f"
  using store_relD(1) [of f a] wf_store_page_in_file [of f "ps_size a" "ps_free a" p]
  by (auto simp: ps_live_def wf_store_def)

lemma sim_get:
  assumes "store_at b s a" and live: "ps_live a p"
  shows "\<exists>m. get_page dest (Some b) (word_of_nat p) s = (STATUS_OK, m, s) \<and> page_of m = ps_data a p"
proof -
  from assms(1) obtain ino where s: "sched s = []" "fd_inode s (storefd b) = Some ino"
    and rel: "store_rel (inodes s ino) a" by (rule store_atE)
  with live show ?thesis
    using get_page_ok [OF s, of p dest] store_at_fits [OF rel live] store_relD(2) [OF rel live]
    by simp
qed

lemma sim_put:
  assumes "store_at b s a" and live: "ps_live a p"
  shows "\<exists>s'. put_page src (Some b) (word_of_nat p) s = (STATUS_OK, s') \<and> store_at b s' (ps_put p src a)"
proof -
  from assms(1) obtain ino where s: "sched s = []" "fd_inode s (storefd b) = Some ino"
    and rel: "store_rel (inodes s ino) a" by (rule store_atE)
  let ?f = "inodes s ino"
  have "store_rel (write_page ?f p src) (ps_put p src a)"
  proof (rule store_relI)
    show "wf_store (write_page ?f p src) (ps_size (ps_put p src a)) (ps_free (ps_put p src a))"
      using live store_relD(1) [OF rel] by (simp add: ps_put_def ps_live_def wf_write_live)
    fix q assume "ps_live (ps_put p src a) q"
    then have "ps_live a q" by (simp add: ps_live_def ps_put_def)
    then show "page_at (write_page ?f p src) q = ps_data (ps_put p src a) q"
      using store_relD(2) [OF rel, of q] store_at_fits [OF rel, of q]
      by (cases "q = p") (auto simp: ps_put_def page_at_write_same page_at_write_other)
  qed
  with s show ?thesis
    using put_page_ok [OF s, of p src] store_at_fits [OF rel live] by (auto intro!: store_atI)
qed

lemma store_rel_release:
  assumes rel: "store_rel f a" and live: "ps_live a p"
  shows "store_rel (release_file (ps_free a) p f) (ps_release p a)"
proof (rule store_relI)
  let ?fl = "ps_free a"
  have wf: "wf_store f (ps_size a) ?fl" by (rule store_relD) (rule rel)
  show "wf_store (release_file ?fl p f) (ps_size (ps_release p a)) (ps_free (ps_release p a))"
    using live wf_release_file [OF wf] by (simp add: ps_release_def ps_live_def)
  fix q assume q: "ps_live (ps_release p a) q"
  then have qa: "ps_live a q" and "q \<noteq> p" and "?fl = [] \<or> q \<noteq> last ?fl"
    by (auto simp: ps_live_def ps_release_def)
  then have "page_at (release_file ?fl p f) q = page_at f q"
    using store_at_fits [OF rel qa] by (intro page_at_release_other) auto
  then show "page_at (release_file ?fl p f) q = ps_data (ps_release p a) q"
    using store_relD(2) [OF rel qa] by (simp add: ps_release_def)
qed

lemma sim_free:
  assumes "store_at b s a" and live: "ps_live a p"
  shows "\<exists>s'. free_page (Some b) (word_of_nat p) s = (STATUS_OK, s') \<and> store_at b s' (ps_release p a)"
proof -
  from assms(1) obtain ino where s: "sched s = []" "fd_inode s (storefd b) = Some ino"
    and rel: "store_rel (inodes s ino) a" by (rule store_atE)
  have "wf_store (inodes s ino) (ps_size a) (ps_free a)" by (rule store_relD) (rule rel)
  from free_page_ok [OF s this, of p] show ?thesis
    using s store_at_fits [OF rel live] store_rel_release [OF rel live] by (auto intro!: store_atI)
qed

text \<open>
  Allocation.  The new page holds the source; without a source it is blank when the store
  grows, but a reused page keeps the bytes it had as a free page: its first eight are the
  link to the next free page.
\<close>

lemma sim_alloc_nil:
  assumes "store_at b s a" and room: "ps_size a < MAX_PAGES" and nil: "ps_free a = []"
  shows "\<exists>s'. alloc_page src (Some b) s = (STATUS_OK, word_of_nat (ps_size a), s')
              \<and> store_at b s' (snd (ps_alloc src a))"
proof -
  from assms(1) obtain ino where s: "sched s = []" "fd_inode s (storefd b) = Some ino"
    and rel: "store_rel (inodes s ino) a" by (rule store_atE)
  let ?f = "inodes s ino" and ?N = "ps_size a" and ?a' = "snd (ps_alloc src a)"
  have wf: "wf_store ?f ?N []" using store_relD(1) [OF rel] nil by simp
  have a': "ps_size ?a' = Suc ?N" "ps_free ?a' = []" "ps_data ?a' = (ps_data a)(?N := src_page src)"
    using nil by (simp_all add: ps_alloc_def)
  have "store_rel (extend_file src ?N ?f) ?a'"
  proof (rule store_relI)
    show "wf_store (extend_file src ?N ?f) (ps_size ?a') (ps_free ?a')"
      using wf_extend_file [OF wf room] a' by simp
    fix q assume q: "ps_live ?a' q"
    show "page_at (extend_file src ?N ?f) q = ps_data ?a' q"
    proof (cases "q = ?N")
      case True
      with q a' show ?thesis by (simp add: page_at_extend_new ps_live_def)
    next
      case False
      with q a' nil have qa: "ps_live a q" "q \<noteq> 0" "q < ?N" by (auto simp: ps_live_def)
      then show ?thesis
        using False a' store_relD(2) [OF rel qa(1)] wf_store_page_in_file [OF wf qa(3)]
        by (simp add: page_at_extend_other)
    qed
  qed
  with s wf show ?thesis
    using alloc_page_nil [OF s, of ?N src] by (auto intro!: store_atI)
qed

lemma sim_alloc_cons:
  assumes "store_at b s a" and fl: "ps_free a = p # ps"
    and safe: "src \<noteq> None \<or> ps_size a \<le> p * PAGESIZE"
  shows "\<exists>s' d. alloc_page src (Some b) s = (STATUS_OK, word_of_nat p, s')
              \<and> store_at b s' (a\<lparr>ps_free := ps, ps_data := (ps_data a)(p := d)\<rparr>)
              \<and> (case src of None \<Rightarrow> load64 d 0 = head_ptr ps | Some m \<Rightarrow> d = page_of m)"
proof -
  from assms(1) obtain ino where s: "sched s = []" "fd_inode s (storefd b) = Some ino"
    and rel: "store_rel (inodes s ino) a" by (rule store_atE)
  let ?f = "inodes s ino" and ?N = "ps_size a"
  let ?g = "reuse_file src p ?f"
  let ?d = "page_at ?g p"
  let ?a' = "a\<lparr>ps_free := ps, ps_data := (ps_data a)(p := ?d)\<rparr>"
  have wf: "wf_store ?f ?N (p # ps)" using store_relD(1) [OF rel] fl by simp
  have p: "p \<noteq> 0" "p < ?N" using wf_store_free_page [OF wf, of p] by auto
  have "store_rel ?g ?a'"
  proof (rule store_relI)
    show "wf_store ?g (ps_size ?a') (ps_free ?a')"
      using wf_reuse_file [OF wf safe] by simp
    fix q assume q: "ps_live ?a' q"
    show "page_at ?g q = ps_data ?a' q"
    proof (cases "q = p")
      case False
      with q fl have qa: "ps_live a q" "q \<noteq> 0" "q < ?N" by (auto simp: ps_live_def)
      then have "q \<noteq> reuse_target src p"
        using False safe by (auto simp: reuse_target_def split: option.splits)
      with qa False show ?thesis
        using store_relD(2) [OF rel qa(1)] page_at_reuse_other [OF wf, of q src] by simp
    qed simp
  qed
  moreover have "case src of None \<Rightarrow> load64 ?d 0 = head_ptr ps | Some m \<Rightarrow> ?d = page_of m"
  proof (cases src)
    case None
    with safe p have "p \<noteq> reuse_target src p" by (auto simp: reuse_target_def PAGESIZE_def)
    then have "?d = page_at ?f p" using page_at_reuse_other [OF wf p] by simp
    then have "load64 ?d 0 = link ?f p" by (simp add: link_conv_page_at)
    with None wf show ?thesis
      using chain_tail [of ?f p ps] by (simp add: wf_store_def)
  next
    case (Some m)
    with p show ?thesis by (simp add: page_at_reuse_same)
  qed
  ultimately show ?thesis
    using s alloc_page_cons [OF s wf, of src] by (auto intro!: store_atI)
qed

section \<open>Creating and opening a store\<close>

definition first_metadata :: mem where
  "first_metadata = set_mp_tail (- 1) (set_mp_head (- 1) (set_mp_size 1 zero_mem))"

lemma wf_first_store: "wf_store (write_page empty_file 0 first_metadata) 1 []"
  by (simp add: wf_store_def mem_simps first_metadata_def head_ptr_def tail_ptr_def MAX_PAGES_def)

lemma create_backing_ok:
  assumes "sched s = []"
  shows "\<exists>b s'. create_new_backing name (Some b0) s = Inr (STATUS_OK, b, s') \<and>
           store_at b s' ps_empty \<and> names s' (store_filename name) = fd_inode s' (storefd b)"
proof -
  obtain fd s1 where o: "posix_open_creat (store_filename name) s = (fd, s1)"
    by fastforce
  from o assms obtain ino where s1: "sched s1 = []" "fd_inode s1 fd = Some ino" "0 \<le> fd"
    "inodes s1 ino = empty_file" "names s1 (store_filename name) = Some ino"
    by (auto simp: posix_open_creat_def fresh_fd_inode fresh_fd_nonneg tick_nil split: option.splits)
      (auto simp: fresh_fd_def)
  let ?s2 = "set_file ino (write_page empty_file 0 first_metadata) s1"
  have c: "create_new_backing name (Some b0) s = Inr (STATUS_OK, b0\<lparr>storefd := fd\<rparr>, ?s2)"
    using s1 by (simp add: create_new_backing_def o Let_def first_metadata_def pwrite_meta)
  have "store_at (b0\<lparr>storefd := fd\<rparr>) ?s2 ps_empty"
    using s1 wf_first_store by (auto intro!: store_atI store_relI simp: ps_empty_def ps_live_def)
  with c s1 show ?thesis by auto
qed

lemma open_backing_ok:
  assumes "sched s = []" and "names s (store_filename name) = Some ino"
    and "store_rel (inodes s ino) a"
  shows "\<exists>b s'. open_backing name (Some b0) s = Inr (STATUS_OK, b, s') \<and> store_at b s' a"
proof -
  obtain fd s1 where o: "fresh_fd s ino = (fd, s1)" by fastforce
  then have s1: "sched s1 = []" "fd_inode s1 fd = Some ino" "0 \<le> fd" "inodes s1 = inodes s"
    using assms(1) by (auto simp: fresh_fd_inode fresh_fd_nonneg) (auto simp: fresh_fd_def)
  have "open_backing name (Some b0) s = Inr (STATUS_OK, b0\<lparr>storefd := fd\<rparr>, s1)"
    using assms(1,2) s1 by (simp add: open_backing_def posix_open_def tick_nil o Let_def)
  with s1 assms(3) show ?thesis by (auto intro!: store_atI)
qed

end
