(* ===== verification/StoreSafety.thy ===== *)
theory StoreSafety
  imports PageStore
begin

text \<open>
  The interfaces a client of the page layer relies on, as locales, and their interpretation
  on the operations of \<open>fileio.c\<close>: \<open>page_allocator\<close> (allocation returns pages nobody
  holds), \<open>page_io\<close> (a page reads back as written) and \<open>page_manager\<close>, which extends both
  with the frame conditions between them.  The client lemmas are proved once in the locales:
  repeated allocation yields distinct pages, writing a batch of pages, and the survival of a
  page through any sequence of operations on other pages.
\<close>

section \<open>Reading the abstract store off the disk\<close>

fun walk :: "nat \<Rightarrow> regfile \<Rightarrow> i64 \<Rightarrow> nat list" where
  "walk 0 f ptr = []"
| "walk (Suc n) f ptr =
     (if ptr = EMPTY_LIST then []
      else unat ptr div PAGESIZE # walk n f (link f (unat ptr div PAGESIZE)))"

definition decode_store :: "regfile \<Rightarrow> pstore" where
  "decode_store f =
     \<lparr>ps_size = unat (mp_size (meta f)),
      ps_free = walk (unat (mp_size (meta f))) f (mp_head (meta f)),
      ps_data = page_at f\<rparr>"

lemma walk_chain:
  "chain f fl \<Longrightarrow> (\<And>p. p \<in> set fl \<Longrightarrow> page_fits p) \<Longrightarrow> length fl \<le> n \<Longrightarrow> walk n f (head_ptr fl) = fl"
proof (induction fl arbitrary: n)
  case Nil
  then show ?case by (cases n) (simp_all add: head_ptr_def EMPTY_LIST_def)
next
  case (Cons p ps)
  from Cons.prems(3) obtain k where n: "n = Suc k" and k: "length ps \<le> k"
    by (cases n) auto
  have p: "page_fits p" using Cons.prems(2) by simp
  have c: "chain f ps" "link f p = head_ptr ps"
    using chain_tail [OF Cons.prems(1)] by simp_all
  have "walk k f (head_ptr ps) = ps"
    using c(1) k Cons.prems(2) by (intro Cons.IH) auto
  with n p c show ?case
    by (simp add: head_ptr_def EMPTY_LIST_def page_ptr_not_empty unat_page_ptr)
qed

lemma wf_store_length:
  assumes "wf_store f N fl"
  shows "length fl \<le> N"
proof -
  have "length fl = card (set fl)"
    using assms by (simp add: wf_store_def distinct_card)
  also have "\<dots> \<le> card {1..<N}"
    using assms by (intro card_mono) (auto simp: wf_store_def)
  finally show ?thesis by simp
qed

lemma decode_store_rel:
  assumes "store_rel f a"
  shows "ps_size (decode_store f) = ps_size a" and "ps_free (decode_store f) = ps_free a"
    and "store_rel f (decode_store f)"
proof -
  have wf: "wf_store f (ps_size a) (ps_free a)" using assms by (rule store_relD)
  then have "unat (mp_size (meta f)) = ps_size a"
    by (simp add: wf_store_def MAX_PAGES_def unat_word_of_nat64)
  then show 1: "ps_size (decode_store f) = ps_size a" by (simp add: decode_store_def)
  have "walk (ps_size a) f (head_ptr (ps_free a)) = ps_free a"
    using wf wf_store_free_page(4) [OF wf] wf_store_length [OF wf]
    by (intro walk_chain) (simp_all add: wf_store_def)
  then show 2: "ps_free (decode_store f) = ps_free a"
    using wf 1 by (simp add: decode_store_def wf_store_def)
  show "store_rel f (decode_store f)"
    using wf 1 2 by (auto intro: store_relI simp: decode_store_def)
qed

definition decode_at :: "backing \<Rightarrow> os \<Rightarrow> pstore" where
  "decode_at b s =
     (case fd_inode s (storefd b) of
        None \<Rightarrow> ps_empty | Some ino \<Rightarrow> decode_store (inodes s ino))"

definition page_live :: "backing \<Rightarrow> os \<Rightarrow> nat \<Rightarrow> bool" where
  "page_live b s p = ps_live (decode_at b s) p"

text \<open>\<open>ready b n s\<close>: the descriptor holds a well-formed store, the environment injects no
  fault, and \<open>n\<close> more pages keep the store within 4096 pages (16 MiB).  The bound is what
  keeps the misplaced blank write of the reuse branch beyond the end of the store.\<close>

definition ready :: "backing \<Rightarrow> nat \<Rightarrow> os \<Rightarrow> bool" where
  "ready b n s \<longleftrightarrow> store_at b s (decode_at b s) \<and> ps_size (decode_at b s) + n \<le> PAGESIZE"

lemma store_at_decode:
  assumes "store_at b s a"
  shows "ps_size (decode_at b s) = ps_size a" "ps_free (decode_at b s) = ps_free a"
    "store_at b s (decode_at b s)"
  using assms by (auto simp: store_at_def decode_at_def decode_store_rel split: option.splits)

lemma page_live_store_at: "store_at b s a \<Longrightarrow> page_live b s p = ps_live a p"
  using store_at_decode [of b s a] by (simp add: page_live_def ps_live_def)

lemma ready_store_at: "store_at b s a \<Longrightarrow> ready b n s \<longleftrightarrow> ps_size a + n \<le> PAGESIZE"
  using store_at_decode [of b s a] by (simp add: ready_def)

section \<open>The operations as the client sees them\<close>

definition alloc_step :: "mem option \<Rightarrow> backing \<Rightarrow> os \<Rightarrow> nat \<times> os" where
  "alloc_step src b s = (case alloc_page src (Some b) s of (st, index, s') \<Rightarrow> (unat index, s'))"

definition release_step :: "backing \<Rightarrow> nat \<Rightarrow> os \<Rightarrow> os" where
  "release_step b p s = snd (free_page (Some b) (word_of_nat p) s)"

definition read_step :: "backing \<Rightarrow> os \<Rightarrow> nat \<Rightarrow> mem option" where
  "read_step b s p =
     (case get_page zero_mem (Some b) (word_of_nat p) s of
        (st, m, s') \<Rightarrow> if st = STATUS_OK then Some (page_of m) else None)"

definition write_step :: "backing \<Rightarrow> mem \<Rightarrow> nat \<Rightarrow> os \<Rightarrow> os" where
  "write_step b m p s = snd (put_page m (Some b) (word_of_nat p) s)"

lemma alloc_step_ok:
  assumes "ready b (Suc n) s"
  obtains p a' where "fst (alloc_step src b s) = p" "\<not> page_live b s p"
    "store_at b (snd (alloc_step src b s)) a'" "ps_size a' + n \<le> PAGESIZE"
    "\<And>q. ps_live a' q \<longleftrightarrow> q = p \<or> page_live b s q"
    "\<And>q. q \<noteq> p \<Longrightarrow> ps_data a' q = ps_data (decode_at b s) q"
proof -
  let ?a = "decode_at b s"
  have a: "store_at b s ?a" "ps_size ?a + Suc n \<le> PAGESIZE"
    using assms by (simp_all add: ready_def)
  have small: "ps_size ?a < MAX_PAGES" using a(2) by (simp add: PAGESIZE_def MAX_PAGES_def)
  from a(1) obtain ino where "store_rel (inodes s ino) ?a" by (rule store_atE)
  then have wf: "wf_store (inodes s ino) (ps_size ?a) (ps_free ?a)" by (rule store_relD)
  show ?thesis
  proof (cases "ps_free ?a")
    case Nil
    obtain s' where s': "alloc_page src (Some b) s = (STATUS_OK, word_of_nat (ps_size ?a), s')"
      "store_at b s' (snd (ps_alloc src ?a))"
      using sim_alloc_nil [OF a(1) small Nil] by blast
    have "unat (word_of_nat (ps_size ?a) :: i64) = ps_size ?a"
      using small by (intro unat_word_of_nat64) (simp add: MAX_PAGES_def)
    moreover have "1 \<le> ps_size ?a" using wf by (simp add: wf_store_def)
    ultimately show ?thesis
      using s' a(2) Nil
      by (intro that [of "ps_size ?a" "snd (ps_alloc src ?a)"])
        (auto simp: alloc_step_def ps_alloc_def ps_live_def page_live_def)
  next
    case (Cons p ps)
    have p: "1 \<le> p" "p < ps_size ?a" "p \<notin> set ps"
      using wf Cons wf_store_free_page [OF wf, of p] by (auto simp: wf_store_def)
    have safe: "src \<noteq> None \<or> ps_size ?a \<le> p * PAGESIZE"
      using scaled_beyond [OF p(1), of "ps_size ?a"] a(2) by simp
    obtain s' d where s': "alloc_page src (Some b) s = (STATUS_OK, word_of_nat p, s')"
      "store_at b s' (?a\<lparr>ps_free := ps, ps_data := (ps_data ?a)(p := d)\<rparr>)"
      using sim_alloc_cons [OF a(1) Cons safe] by blast
    have "unat (word_of_nat p :: i64) = p"
      using small p(2) by (intro unat_word_of_nat64) (simp add: MAX_PAGES_def)
    with s' a(2) Cons p show ?thesis
      by (intro that [of p "?a\<lparr>ps_free := ps, ps_data := (ps_data ?a)(p := d)\<rparr>"])
        (auto simp: alloc_step_def ps_live_def page_live_def)
  qed
qed

lemma release_step_ok:
  assumes "ready b n s" and "page_live b s p"
  obtains a' where "store_at b (release_step b p s) a'" "ps_size a' + n \<le> PAGESIZE"
    "\<And>q. ps_live a' q \<longleftrightarrow> page_live b s q \<and> q \<noteq> p"
    "ps_data a' = ps_data (decode_at b s)"
proof -
  let ?a = "decode_at b s"
  have a: "store_at b s ?a" "ps_live ?a p" "ps_size ?a + n \<le> PAGESIZE"
    using assms by (simp_all add: ready_def page_live_def)
  obtain s' where "free_page (Some b) (word_of_nat p) s = (STATUS_OK, s')"
    "store_at b s' (ps_release p ?a)"
    using sim_free [OF a(1,2)] by blast
  with a show ?thesis
    by (intro that [of "ps_release p ?a"])
      (auto simp: release_step_def ps_release_def ps_live_def page_live_def)
qed

lemma write_step_ok:
  assumes "ready b n s" and "page_live b s p"
  obtains a' where "store_at b (write_step b m p s) a'" "ps_size a' + n \<le> PAGESIZE"
    "\<And>q. ps_live a' q \<longleftrightarrow> page_live b s q"
    "ps_data a' = (ps_data (decode_at b s))(p := page_of m)"
proof -
  let ?a = "decode_at b s"
  have a: "store_at b s ?a" "ps_live ?a p" "ps_size ?a + n \<le> PAGESIZE"
    using assms by (simp_all add: ready_def page_live_def)
  obtain s' where "put_page m (Some b) (word_of_nat p) s = (STATUS_OK, s')"
    "store_at b s' (ps_put p m ?a)"
    using sim_put [OF a(1,2)] by blast
  with a show ?thesis
    by (intro that [of "ps_put p m ?a"])
      (auto simp: write_step_def ps_put_def ps_live_def page_live_def)
qed

lemma read_step_ok:
  assumes "store_at b s a" and "ps_live a p"
  shows "read_step b s p = Some (ps_data a p)"
  using sim_get [OF assms, of zero_mem] by (auto simp: read_step_def)

lemma read_step_ready:
  "ready b n s \<Longrightarrow> page_live b s p \<Longrightarrow> read_step b s p = Some (ps_data (decode_at b s) p)"
  by (rule read_step_ok) (simp_all add: ready_def page_live_def)

section \<open>The allocator interface\<close>

primrec alloc_many :: "('s \<Rightarrow> nat \<times> 's) \<Rightarrow> nat \<Rightarrow> 's \<Rightarrow> nat list \<times> 's" where
  "alloc_many alloc 0 s = ([], s)"
| "alloc_many alloc (Suc n) s =
     (case alloc s of (p, s1) \<Rightarrow> case alloc_many alloc n s1 of (ps, s2) \<Rightarrow> (p # ps, s2))"

locale page_allocator =
  fixes alloc :: "'s \<Rightarrow> nat \<times> 's"
    and release :: "nat \<Rightarrow> 's \<Rightarrow> 's"
    and live :: "'s \<Rightarrow> nat \<Rightarrow> bool"
    and room :: "nat \<Rightarrow> 's \<Rightarrow> bool"
  assumes alloc_fresh: "room (Suc n) s \<Longrightarrow> \<not> live s (fst (alloc s))"
    and alloc_live: "room (Suc n) s \<Longrightarrow> live (snd (alloc s)) q \<longleftrightarrow> q = fst (alloc s) \<or> live s q"
    and alloc_room: "room (Suc n) s \<Longrightarrow> room n (snd (alloc s))"
    and release_live: "room n s \<Longrightarrow> live s p \<Longrightarrow> live (release p s) q \<longleftrightarrow> live s q \<and> q \<noteq> p"
    and release_room: "room n s \<Longrightarrow> live s p \<Longrightarrow> room n (release p s)"
begin

lemma alloc_many_fresh:
  "room n s \<Longrightarrow> alloc_many alloc n s = (ps, s') \<Longrightarrow>
   distinct ps \<and> length ps = n \<and> (\<forall>p \<in> set ps. \<not> live s p)
   \<and> (\<forall>q. live s' q \<longleftrightarrow> q \<in> set ps \<or> live s q)"
proof (induction n arbitrary: s ps)
  case 0
  then show ?case by simp
next
  case (Suc n)
  obtain p s1 where p: "alloc s = (p, s1)" by fastforce
  obtain qs s2 where q: "alloc_many alloc n s1 = (qs, s2)" by fastforce
  have ps: "ps = p # qs" "s' = s2" using Suc.prems(2) p q by auto
  have r: "room n s1" using alloc_room [OF Suc.prems(1)] p by simp
  have IH: "distinct qs \<and> length qs = n \<and> (\<forall>p \<in> set qs. \<not> live s1 p)
      \<and> (\<forall>q. live s2 q \<longleftrightarrow> q \<in> set qs \<or> live s1 q)"
    using Suc.IH [OF r, of qs] q ps by simp
  have "\<not> live s p" "\<And>q. live s1 q \<longleftrightarrow> q = p \<or> live s q"
    using alloc_fresh [OF Suc.prems(1)] alloc_live [OF Suc.prems(1)] p by simp_all
  with IH ps show ?case by auto
qed

lemma realloc_after_release:
  "room (Suc n) s \<Longrightarrow> live s p \<Longrightarrow> live s q \<Longrightarrow> q \<noteq> p \<Longrightarrow> fst (alloc (release p s)) \<noteq> q"
  using release_room [of "Suc n" s p] release_live [of "Suc n" s p q]
    alloc_fresh [of n "release p s"] by auto

end

section \<open>The transfer interface\<close>

locale page_io =
  fixes rd :: "'s \<Rightarrow> nat \<Rightarrow> mem option"
    and wr :: "mem \<Rightarrow> nat \<Rightarrow> 's \<Rightarrow> 's"
    and live :: "'s \<Rightarrow> nat \<Rightarrow> bool"
    and room :: "nat \<Rightarrow> 's \<Rightarrow> bool"
  assumes wr_live: "room n s \<Longrightarrow> live s p \<Longrightarrow> live (wr m p s) q \<longleftrightarrow> live s q"
    and wr_room: "room n s \<Longrightarrow> live s p \<Longrightarrow> room n (wr m p s)"
    and rd_wr_same: "room n s \<Longrightarrow> live s p \<Longrightarrow> rd (wr m p s) p = Some (page_of m)"
    and rd_wr_other: "room n s \<Longrightarrow> live s p \<Longrightarrow> live s q \<Longrightarrow> q \<noteq> p \<Longrightarrow> rd (wr m p s) q = rd s q"
begin

lemma write_batch_other:
  "room n s \<Longrightarrow> (\<forall>x \<in> set ws. live s (fst x)) \<Longrightarrow> live s q \<Longrightarrow> q \<notin> fst ` set ws \<Longrightarrow>
   rd (fold (\<lambda>(p, m). wr m p) ws s) q = rd s q"
proof (induction ws arbitrary: s)
  case Nil
  then show ?case by simp
next
  case (Cons w ws)
  obtain p m where w: "w = (p, m)" by fastforce
  have p: "live s p" using Cons.prems(2) w by simp
  have "rd (fold (\<lambda>(p, m). wr m p) ws (wr m p s)) q = rd (wr m p s) q"
    using Cons.prems w p by (intro Cons.IH) (auto simp: wr_room wr_live)
  also have "\<dots> = rd s q"
    using Cons.prems w p by (intro rd_wr_other) auto
  finally show ?case by (simp add: w)
qed

lemma write_batch:
  "room n s \<Longrightarrow> (\<forall>x \<in> set ws. live s (fst x)) \<Longrightarrow> distinct (map fst ws) \<Longrightarrow> (p, m) \<in> set ws \<Longrightarrow>
   rd (fold (\<lambda>(p, m). wr m p) ws s) p = Some (page_of m)"
proof (induction ws arbitrary: s)
  case Nil
  then show ?case by simp
next
  case (Cons w ws)
  obtain p' m' where w: "w = (p', m')" by fastforce
  have p': "live s p'" using Cons.prems(2) w by simp
  have s1: "room n (wr m' p' s)" "\<And>q. live (wr m' p' s) q = live s q"
    using Cons.prems(1) p' by (simp_all add: wr_room wr_live)
  show ?case
  proof (cases "w = (p, m)")
    case True
    then have "rd (fold (\<lambda>(p, m). wr m p) ws (wr m' p' s)) p = rd (wr m' p' s) p"
      using Cons.prems w s1 p' by (intro write_batch_other [OF s1(1)]) auto
    with True w p' Cons.prems(1) show ?thesis by (simp add: rd_wr_same)
  next
    case False
    then have "rd (fold (\<lambda>(p, m). wr m p) ws (wr m' p' s)) p = Some (page_of m)"
      using Cons.prems w s1 by (intro Cons.IH) auto
    then show ?thesis by (simp add: w)
  qed
qed

end

section \<open>Both together\<close>

datatype page_op = PAlloc | PFree nat | PWrite nat mem

primrec run_op ::
  "('s \<Rightarrow> nat \<times> 's) \<Rightarrow> (nat \<Rightarrow> 's \<Rightarrow> 's) \<Rightarrow> (mem \<Rightarrow> nat \<Rightarrow> 's \<Rightarrow> 's) \<Rightarrow> page_op \<Rightarrow> 's \<Rightarrow> 's"
where
  "run_op alloc release wr PAlloc s = snd (alloc s)"
| "run_op alloc release wr (PFree p) s = release p s"
| "run_op alloc release wr (PWrite p m) s = wr m p s"

primrec op_ok :: "('s \<Rightarrow> nat \<Rightarrow> bool) \<Rightarrow> page_op \<Rightarrow> 's \<Rightarrow> bool" where
  "op_ok live PAlloc s = True"
| "op_ok live (PFree p) s = live s p"
| "op_ok live (PWrite p m) s = live s p"

primrec op_avoids :: "nat \<Rightarrow> page_op \<Rightarrow> bool" where
  "op_avoids q PAlloc = True"
| "op_avoids q (PFree p) = (p \<noteq> q)"
| "op_avoids q (PWrite p m) = (p \<noteq> q)"

text \<open>A client session: every page it frees or writes is one it holds at that moment.\<close>

primrec session_ok ::
  "('s \<Rightarrow> nat \<times> 's) \<Rightarrow> (nat \<Rightarrow> 's \<Rightarrow> 's) \<Rightarrow> (mem \<Rightarrow> nat \<Rightarrow> 's \<Rightarrow> 's) \<Rightarrow> ('s \<Rightarrow> nat \<Rightarrow> bool)
   \<Rightarrow> page_op list \<Rightarrow> 's \<Rightarrow> bool"
where
  "session_ok alloc release wr live [] s = True"
| "session_ok alloc release wr live (x # xs) s =
     (op_ok live x s \<and> session_ok alloc release wr live xs (run_op alloc release wr x s))"

definition run_session ::
  "('s \<Rightarrow> nat \<times> 's) \<Rightarrow> (nat \<Rightarrow> 's \<Rightarrow> 's) \<Rightarrow> (mem \<Rightarrow> nat \<Rightarrow> 's \<Rightarrow> 's) \<Rightarrow> page_op list \<Rightarrow> 's \<Rightarrow> 's"
where
  "run_session alloc release wr = fold (run_op alloc release wr)"

locale page_manager =
  page_allocator alloc release live room + page_io rd wr live room
  for alloc :: "'s \<Rightarrow> nat \<times> 's"
    and release :: "nat \<Rightarrow> 's \<Rightarrow> 's"
    and live :: "'s \<Rightarrow> nat \<Rightarrow> bool"
    and room :: "nat \<Rightarrow> 's \<Rightarrow> bool"
    and rd :: "'s \<Rightarrow> nat \<Rightarrow> mem option"
    and wr :: "mem \<Rightarrow> nat \<Rightarrow> 's \<Rightarrow> 's" +
  assumes rd_alloc: "room (Suc n) s \<Longrightarrow> live s q \<Longrightarrow> rd (snd (alloc s)) q = rd s q"
    and rd_release: "room n s \<Longrightarrow> live s p \<Longrightarrow> live s q \<Longrightarrow> q \<noteq> p \<Longrightarrow> rd (release p s) q = rd s q"
    and room_mono: "room (Suc n) s \<Longrightarrow> room n s"
begin

lemma run_op_keeps:
  assumes "room (Suc n) s" and "op_ok live x s" and "op_avoids q x" and "live s q"
  shows "room n (run_op alloc release wr x s)"
    and "live (run_op alloc release wr x s) q"
    and "rd (run_op alloc release wr x s) q = rd s q"
proof -
  have n: "room n s" by (rule room_mono) (rule assms(1))
  show "room n (run_op alloc release wr x s)"
    using assms n by (cases x) (simp_all add: alloc_room release_room wr_room)
  show "live (run_op alloc release wr x s) q"
    using assms n by (cases x) (simp_all add: alloc_live release_live wr_live)
  show "rd (run_op alloc release wr x s) q = rd s q"
    using assms n by (cases x) (simp_all add: rd_alloc rd_release rd_wr_other)
qed

lemma session_keeps:
  "room (length xs) s \<Longrightarrow> session_ok alloc release wr live xs s \<Longrightarrow> list_all (op_avoids q) xs
   \<Longrightarrow> live s q \<Longrightarrow>
   live (run_session alloc release wr xs s) q \<and> rd (run_session alloc release wr xs s) q = rd s q"
proof (induction xs arbitrary: s)
  case Nil
  then show ?case by (simp add: run_session_def)
next
  case (Cons x xs)
  let ?t = "run_op alloc release wr x s"
  have "room (Suc (length xs)) s" "op_ok live x s" "op_avoids q x" "live s q"
    using Cons.prems by simp_all
  note t = run_op_keeps [OF this]
  have "live (run_session alloc release wr xs ?t) q \<and> rd (run_session alloc release wr xs ?t) q = rd ?t q"
    using t Cons.prems by (intro Cons.IH) simp_all
  with t show ?case by (simp add: run_session_def)
qed

end

section \<open>The code implements the interfaces\<close>

interpretation fio: page_manager
  "alloc_step src b" "release_step b" "page_live b" "ready b" "read_step b" "write_step b"
  for src :: "mem option" and b :: backing
proof unfold_locales
  fix n s q assume r: "ready b (Suc n) s"
  show "\<not> page_live b s (fst (alloc_step src b s))"
    using r by (rule alloc_step_ok [of b n s src]) simp
  show "page_live b (snd (alloc_step src b s)) q \<longleftrightarrow> q = fst (alloc_step src b s) \<or> page_live b s q"
    using r by (rule alloc_step_ok [of b n s src]) (simp add: page_live_store_at)
  show "ready b n (snd (alloc_step src b s))"
    using r by (rule alloc_step_ok [of b n s src]) (simp add: ready_store_at)
  show "ready b n s" using r by (simp add: ready_def)
  assume q: "page_live b s q"
  show "read_step b (snd (alloc_step src b s)) q = read_step b s q"
    using r
  proof (rule alloc_step_ok [of b n s src])
    fix p a'
    assume "fst (alloc_step src b s) = p" "\<not> page_live b s p"
      and "store_at b (snd (alloc_step src b s)) a'" "ps_size a' + n \<le> PAGESIZE"
      and "\<And>q. ps_live a' q \<longleftrightarrow> q = p \<or> page_live b s q"
      and "\<And>q. q \<noteq> p \<Longrightarrow> ps_data a' q = ps_data (decode_at b s) q"
    with q r show ?thesis
      by (metis read_step_ok read_step_ready)
  qed
next
  fix n s p q assume r: "ready b n s" "page_live b s p"
  show "page_live b (release_step b p s) q \<longleftrightarrow> page_live b s q \<and> q \<noteq> p"
    using r by (rule release_step_ok) (simp add: page_live_store_at)
  show "ready b n (release_step b p s)"
    using r by (rule release_step_ok) (simp add: ready_store_at)
  fix m
  show "page_live b (write_step b m p s) q \<longleftrightarrow> page_live b s q"
    using r by (rule write_step_ok [of b n s p m]) (simp add: page_live_store_at)
  show "ready b n (write_step b m p s)"
    using r by (rule write_step_ok [of b n s p m]) (simp add: ready_store_at)
  show "read_step b (write_step b m p s) p = Some (page_of m)"
    using r by (rule write_step_ok [of b n s p m]) (simp add: read_step_ok r)
  assume q: "page_live b s q" "q \<noteq> p"
  show "read_step b (release_step b p s) q = read_step b s q"
    using r by (rule release_step_ok) (simp add: read_step_ok q read_step_ready [OF r(1)])
  show "read_step b (write_step b m p s) q = read_step b s q"
    using r by (rule write_step_ok [of b n s p m]) (simp add: read_step_ok q read_step_ready [OF r(1)])
qed

end
