(* ===== verification/StoreFaults.thy ===== *)
theory StoreFaults
  imports StoreSafety
begin

text \<open>
  The page operations under an arbitrary schedule of I/O faults: what they may change
  (\<open>keeps\<close>), which status and index they return, and which failures leave the store as it
  was.  \<open>all_or_nothing s\<close> restricts the schedule to calls that succeed or fail as a whole.
\<close>

section \<open>Frame\<close>

definition keeps :: "int \<Rightarrow> os \<Rightarrow> os \<Rightarrow> bool" where
  "keeps fd s s' \<longleftrightarrow> fdtab s' = fdtab s \<and> names s' = names s \<and> next_inode s' = next_inode s \<and>
     (\<forall>ino. fd_inode s fd \<noteq> Some ino \<longrightarrow> inodes s' ino = inodes s ino)"

lemma keeps_refl [simp]: "keeps fd s s"
  by (simp add: keeps_def)

lemma keeps_trans: "keeps fd s t \<Longrightarrow> keeps fd t u \<Longrightarrow> keeps fd s u"
  using fd_inode_cong [of t s] by (auto simp: keeps_def)

lemma keeps_tick: "keeps fd s (tick s)"
  by (simp add: keeps_def)

lemma keeps_pread: "posix_pread fd buf n off s = (r, m, s') \<Longrightarrow> keeps fd s s'"
  by (auto simp: posix_pread_def Let_def keeps_tick split: option.splits if_splits)

lemma keeps_pwrite: "posix_pwrite fd buf n off s = (r, s') \<Longrightarrow> keeps fd s s'"
  by (auto simp: posix_pwrite_def Let_def keeps_def split: option.splits if_splits)

lemma keeps_lseek: "posix_lseek fd off s = (r, s') \<Longrightarrow> keeps fd s s'"
  by (auto simp: posix_lseek_def keeps_tick split: if_splits)

lemmas keeps_io = keeps_pread keeps_pwrite keeps_lseek

lemma keeps_alloc_reuse: "alloc_reuse src fd metadata s = (st, i, s') \<Longrightarrow> keeps fd s s'"
  unfolding alloc_reuse_def Let_def
  by (auto split: prod.splits if_splits option.splits dest!: keeps_io intro: keeps_trans)

lemma keeps_alloc_extend: "alloc_extend src fd metadata s = (st, i, s') \<Longrightarrow> keeps fd s s'"
  unfolding alloc_extend_def Let_def
  by (auto split: prod.splits if_splits option.splits dest!: keeps_io intro: keeps_trans)

lemma keeps_alloc_page: "alloc_page src (Some b) s = (st, i, s') \<Longrightarrow> keeps (storefd b) s s'"
  unfolding alloc_page_def
  by (auto split: prod.splits if_splits dest!: keeps_io keeps_alloc_reuse keeps_alloc_extend
      intro: keeps_trans)

lemma keeps_free_first: "free_first fd metadata loc s = (st, s') \<Longrightarrow> keeps fd s s'"
  unfolding free_first_def Let_def
  by (auto split: prod.splits if_splits dest!: keeps_io intro: keeps_trans)

lemma keeps_free_append: "free_append fd metadata loc s = (st, s') \<Longrightarrow> keeps fd s s'"
  unfolding free_append_def Let_def
  by (auto split: prod.splits if_splits dest!: keeps_io intro: keeps_trans)

lemma keeps_free_page: "free_page (Some b) i s = (st, s') \<Longrightarrow> keeps (storefd b) s s'"
  unfolding free_page_def Let_def
  by (auto split: prod.splits if_splits dest!: keeps_io keeps_free_first keeps_free_append
      intro: keeps_trans)

lemma keeps_put_page: "put_page m (Some b) i s = (st, s') \<Longrightarrow> keeps (storefd b) s s'"
  unfolding put_page_def Let_def
  by (auto split: prod.splits if_splits dest!: keeps_io intro: keeps_trans)

text \<open>Reading never writes.\<close>

lemma get_page_inodes: "get_page d store i s = (st, m, s') \<Longrightarrow> inodes s' = inodes s"
  unfolding get_page_def Let_def posix_lseek_def posix_pread_def
  by (auto split: prod.splits if_splits option.splits simp: Let_def)

section \<open>Status and index\<close>

lemma alloc_reuse_outcome:
  "alloc_reuse src fd metadata s = (st, i, s') \<Longrightarrow>
   st = STATUS_OK \<or> (st = STATUS_BAD_READ \<or> st = STATUS_BAD_WRITE) \<and> i = ERR_SET"
  by (auto simp: alloc_reuse_def Let_def split: prod.splits if_splits)

lemma alloc_extend_outcome:
  "alloc_extend src fd metadata s = (st, i, s') \<Longrightarrow>
   st = STATUS_OK \<or> st = STATUS_BAD_WRITE \<and> (i = ERR_SET \<or> i = 1 \<and> src \<noteq> None)"
  by (auto simp: alloc_extend_def Let_def split: prod.splits if_splits option.splits)

lemma alloc_page_outcome:
  "alloc_page src file s = (st, i, s') \<Longrightarrow>
   st = STATUS_OK \<or> (st = STATUS_NO_FILE \<or> st = STATUS_BAD_READ \<or> st = STATUS_BAD_WRITE) \<and>
     (i = ERR_SET \<or> st = STATUS_BAD_WRITE \<and> i = 1 \<and> src \<noteq> None)"
  by (auto simp: alloc_page_def split: prod.splits if_splits option.splits
      dest!: alloc_reuse_outcome alloc_extend_outcome)

section \<open>Failures that leave the store intact\<close>

definition all_or_nothing :: "os \<Rightarrow> bool" where
  "all_or_nothing s \<longleftrightarrow> set (sched s) \<subseteq> {IO_ok, IO_fail}"

lemma all_or_nothing_tick: "all_or_nothing s \<Longrightarrow> all_or_nothing (tick s)"
  by (cases "sched s") (auto simp: all_or_nothing_def)

lemma all_or_nothing_cong: "sched s' = sched s \<Longrightarrow> all_or_nothing s' = all_or_nothing s"
  by (simp add: all_or_nothing_def)

lemma all_or_nothing_outcome:
  "all_or_nothing s \<Longrightarrow> next_outcome s = IO_ok \<or> next_outcome s = IO_fail"
  by (cases "sched s") (auto simp: all_or_nothing_def next_outcome_def)

lemma pwrite_all_or_nothing:
  assumes "all_or_nothing s" and "fd_inode s fd = Some ino" and "0 \<le> sint off"
    and "posix_pwrite fd m n off s = (w, s')"
  shows "all_or_nothing s' \<and> fd_inode s' fd = Some ino \<and>
    (w = - 1 \<and> inodes s' = inodes s \<or>
     w = int n \<and> inodes s' = (inodes s)(ino := write_file (inodes s ino) (unat off) m n))"
  using assms all_or_nothing_outcome [OF assms(1)] all_or_nothing_tick [OF assms(1)]
  by (auto simp: posix_pwrite_def Let_def split: if_splits cong: all_or_nothing_cong)
    (simp_all add: all_or_nothing_def)

lemma pwrite_page_all_or_nothing:
  assumes "all_or_nothing s" and "fd_inode s fd = Some ino" and "page_fits p"
    and "posix_pwrite fd m PAGESIZE (page_ptr p) s = (w, s')"
  shows "all_or_nothing s' \<and> fd_inode s' fd = Some ino \<and>
    (w \<noteq> int PAGESIZE \<and> inodes s' = inodes s \<or>
     w = int PAGESIZE \<and> inodes s' = (inodes s)(ino := write_page (inodes s ino) p m))"
  using pwrite_all_or_nothing [OF assms(1,2) _ assms(4)] assms(3)
  by (auto simp: sint_page_ptr unat_page_ptr write_page_def)

lemma pread_all_or_nothing:
  assumes "all_or_nothing s" and "fd_inode s fd = Some ino"
    and "PAGESIZE \<le> flen (inodes s ino)"
    and "posix_pread fd zero_mem PAGESIZE 0 s = (r, m, s')"
  shows "all_or_nothing s' \<and> fd_inode s' fd = Some ino \<and> inodes s' = inodes s \<and>
    (r = int PAGESIZE \<longrightarrow> m = meta (inodes s ino))"
proof -
  have "read_into (fbytes (inodes s ino)) 0 PAGESIZE zero_mem = meta (inodes s ino)"
    using read_into_page [of "inodes s ino" 0] by (simp add: meta_def)
  then show ?thesis
    using assms all_or_nothing_outcome [OF assms(1)] all_or_nothing_tick [OF assms(1)]
    by (auto simp: posix_pread_def Let_def split: if_splits)
qed

text \<open>Bytes beyond the last page are nobody's.\<close>

lemma store_rel_beyond:
  assumes rel: "store_rel f a" and q: "ps_size a \<le> q"
  shows "store_rel (write_page f q m) a"
proof (rule store_relI)
  have wf: "wf_store f (ps_size a) (ps_free a)" by (rule store_relD) (rule rel)
  have q0: "q \<noteq> 0" using wf q by (auto simp: wf_store_def)
  have "chain (write_page f q m) (ps_free a) = chain f (ps_free a)"
  proof (rule chain_cong)
    fix p assume "p \<in> set (ps_free a)"
    then show "link (write_page f q m) p = link f p"
      using q wf_store_free_page(2) [OF wf, of p] wf_store_page_in_file [OF wf, of p]
      by (intro link_write_other) auto
  qed
  then show "wf_store (write_page f q m) (ps_size a) (ps_free a)"
    using wf q0 by (simp add: wf_store_def le_max_iff_disj meta_write_other
        wf_store_meta_in_file [OF wf])
  fix p assume p: "ps_live a p"
  then show "page_at (write_page f q m) p = ps_data a p"
    using q store_relD(2) [OF rel p] store_at_fits [OF rel p]
    by (simp add: page_at_write_other ps_live_def)
qed

lemma pwrite_beyond:
  assumes "all_or_nothing s" and "fd_inode s fd = Some ino" and rel: "store_rel (inodes s ino) a"
    and q: "ps_size a \<le> q" "page_fits q"
    and run: "posix_pwrite fd m PAGESIZE (page_ptr q) s = (w, s')"
  shows "all_or_nothing s' \<and> fd_inode s' fd = Some ino \<and> store_rel (inodes s' ino) a"
  using pwrite_page_all_or_nothing [OF assms(1,2) q(2) run] rel store_rel_beyond [OF rel q(1)] by auto

lemma alloc_extend_failure:
  assumes s: "all_or_nothing s" "fd_inode s fd = Some ino" "store_rel (inodes s ino) a"
    and size: "mp_size metadata = word_of_nat (ps_size a)"
    and run: "alloc_extend src fd metadata s = (st, i, s')" and bad: "st \<noteq> STATUS_OK"
  shows "store_rel (inodes s' ino) a"
proof -
  let ?N = "ps_size a"
  let ?off = "index_to_offset (mp_size metadata)"
  have off: "?off = page_ptr ?N" by (simp add: size index_to_offset_of_nat)
  obtain bw s1 where b1: "posix_pwrite fd zero_mem PAGESIZE ?off s = (bw, s1)"
    by fastforce
  have fits: "page_fits ?N" using store_relD(1) [OF s(3)] by (auto simp: wf_store_def)
  note s1 = pwrite_beyond [OF s order_refl fits b1 [unfolded off]]
  obtain dw s2 where b2: "(case src of None \<Rightarrow> (int PAGESIZE, s1)
      | Some page \<Rightarrow> posix_pwrite fd page PAGESIZE ?off s1) = (dw, s2)"
    by fastforce
  have s2: "all_or_nothing s2" "fd_inode s2 fd = Some ino" "store_rel (inodes s2 ino) a"
    using b2 s1 fits pwrite_beyond [of s1 fd ino a ?N _ dw s2] off by (auto split: option.splits)
  let ?m = "set_mp_size (mp_size metadata + 1) metadata"
  obtain mw s3 where b3: "posix_pwrite fd ?m PAGESIZE (index_to_offset 0) s2 = (mw, s3)"
    by fastforce
  have r3: "mw = int PAGESIZE \<or> inodes s3 = inodes s2"
    using pwrite_page_all_or_nothing [OF s2(1,2) page_fits_0, of ?m mw s3] b3 by auto
  have "alloc_extend src fd metadata s =
      (if bw \<noteq> int PAGESIZE then (STATUS_BAD_WRITE, ERR_SET, s1)
       else if dw \<noteq> int PAGESIZE then (STATUS_BAD_WRITE, word_of_nat (status_code STATUS_ERR), s2)
       else if mw \<noteq> int PAGESIZE then (STATUS_BAD_WRITE, ERR_SET, s3)
       else (STATUS_OK, mp_size metadata, s3))"
    by (simp only: alloc_extend_def Let_def b1 b2 b3 prod.case)
  then show ?thesis
    using run bad s1 s2(3) r3 by (auto split: if_splits)
qed

lemma alloc_page_extend_failure:
  assumes s: "all_or_nothing s" "fd_inode s (storefd b) = Some ino" "store_rel (inodes s ino) a"
    and nil: "ps_free a = []"
    and run: "alloc_page src (Some b) s = (st, i, s')" and bad: "st \<noteq> STATUS_OK"
  shows "store_rel (inodes s' ino) a"
proof -
  have wf: "wf_store (inodes s ino) (ps_size a) []"
    using store_relD(1) [OF s(3)] nil by simp
  obtain r m s1 where b1: "posix_pread (storefd b) zero_mem PAGESIZE 0 s = (r, m, s1)"
    by (cases "posix_pread (storefd b) zero_mem PAGESIZE 0 s") auto
  note r1 = pread_all_or_nothing [OF s(1,2) wf_store_meta_in_file [OF wf] b1]
  show ?thesis
  proof (cases "r = int PAGESIZE")
    case False
    with run b1 r1 s(3) show ?thesis by (auto simp: alloc_page_def)
  next
    case True
    with r1 wf have m: "mp_head m = - 1" "mp_size m = word_of_nat (ps_size a)"
      by (simp_all add: wf_store_def head_ptr_def)
    have e: "alloc_extend src (storefd b) m s1 = (st, i, s')"
      using run b1 True m(1) by (simp add: alloc_page_def EMPTY_LIST_def)
    have "all_or_nothing s1" "fd_inode s1 (storefd b) = Some ino" "store_rel (inodes s1 ino) a"
      using r1 s(3) by simp_all
    then show ?thesis using m(2) e bad by (rule alloc_extend_failure)
  qed
qed

section \<open>A failure that does not\<close>

text \<open>
  The reuse branch writes the source over the free page before it unlinks the page.  When
  the metadata write then fails, the page is still the head of the free list on disk, and
  the link the next allocation follows is the first eight bytes of the client's data.
\<close>

lemma alloc_reuse_lost_link:
  assumes s: "fd_inode s (storefd b) = Some ino" "store_rel (inodes s ino) a"
    and fl: "ps_free a = p # ps"
    and sch: "sched s = [IO_ok, IO_ok, IO_ok, IO_fail]"
  shows "\<exists>s'. alloc_page (Some m) (Some b) s = (STATUS_BAD_WRITE, ERR_SET, s') \<and>
           mp_head (meta (inodes s' ino)) = page_ptr p \<and> link (inodes s' ino) p = load64 m 0"
proof -
  let ?f = "inodes s ino"
  have wf: "wf_store ?f (ps_size a) (p # ps)" using store_relD(1) [OF s(2)] fl by simp
  have p: "p \<noteq> 0" "page_fits p" "page_ptr p \<noteq> - 1" and len: "Suc p * PAGESIZE \<le> flen ?f"
    using wf_store_free_page [OF wf, of p] wf_store_page_in_file [OF wf, of p] page_ptr_not_empty
    by auto
  have m0: "mp_head (meta ?f) = page_ptr p" using wf by (simp add: wf_store_def head_ptr_def)
  have len0: "PAGESIZE \<le> flen ?f" by (rule wf_store_meta_in_file) (rule wf)
  have r0: "read_into (fbytes ?f) 0 PAGESIZE zero_mem = meta ?f"
    using read_into_page [of ?f 0] by (simp add: meta_def)
  have k: "min SIZEOF_FREEPAGE (flen ?f - p * PAGESIZE) = SIZEOF_FREEPAGE"
    using len by (simp add: min_def SIZEOF_FREEPAGE_def PAGESIZE_def)
  show ?thesis
    using s sch p m0 len0 r0 k
    by (simp add: alloc_page_def alloc_reuse_def posix_pread_def posix_pwrite_def Let_def
        next_outcome_def tick_def EMPTY_LIST_def sint_page_ptr unat_page_ptr min_absorb1
        flip: write_page_def) (simp add: meta_write_other link_write_same)
qed

end
