(* ===== verification/StoreProperties.thy ===== *)
theory StoreProperties
  imports StoreFaults
begin

text \<open>
  The properties of the page layer (\<open>src/lib/fileio.c\<close>), with witnesses on a small store
  made by the code itself: \<open>demo_os\<close> is the state after \<open>create_new_backing\<close>, \<open>demo1\<close>
  after one allocation, \<open>demo2\<close> after that page has been freed again.
\<close>

section \<open>A small store\<close>

definition demo_b :: backing where
  "demo_b = \<lparr>storefd = 3\<rparr>"

definition demo_os :: os where
  "demo_os =
     (case create_new_backing ''db'' (Some \<lparr>storefd = 0\<rparr>) init_os of
        Inl _ \<Rightarrow> init_os | Inr (_, _, s) \<Rightarrow> s)"

definition demo1 :: os where
  "demo1 = snd (alloc_step None demo_b demo_os)"

definition demo2 :: os where
  "demo2 = release_step demo_b 1 demo1"

definition demo_a1 :: pstore where
  "demo_a1 = \<lparr>ps_size = 2, ps_free = [], ps_data = (\<lambda>_. zero_mem)\<rparr>"

lemma page_of_zero [simp]: "page_of zero_mem = zero_mem"
  by (simp add: page_of_def zero_mem_def)

lemma demo_created: "create_new_backing ''db'' (Some \<lparr>storefd = 0\<rparr>) init_os = Inr (STATUS_OK, demo_b, demo_os)"
proof -
  obtain b s where c: "create_new_backing ''db'' (Some \<lparr>storefd = 0\<rparr>) init_os = Inr (STATUS_OK, b, s)"
    using create_backing_ok [of init_os "''db''" "\<lparr>storefd = 0\<rparr>"] by (auto simp: init_os_def)
  have "posix_open_creat (store_filename ''db'') init_os =
      (3, snd (posix_open_creat (store_filename ''db'') init_os))"
    by (simp add: posix_open_creat_def init_os_def next_outcome_def fresh_fd_def)
  then have "b = demo_b"
    using c by (auto simp: create_new_backing_def Let_def demo_b_def split: prod.splits if_splits)
  with c show ?thesis by (simp add: demo_os_def)
qed

lemma demo_store: "store_at demo_b demo_os ps_empty"
  "names demo_os (store_filename ''db'') = fd_inode demo_os (storefd demo_b)"
  using create_backing_ok [of init_os "''db''" "\<lparr>storefd = 0\<rparr>"] demo_created
  by (auto simp: init_os_def)

lemma demo1_store: "store_at demo_b demo1 demo_a1"
proof -
  obtain s where s: "alloc_page None (Some demo_b) demo_os = (STATUS_OK, word_of_nat 1, s)"
    "store_at demo_b s (snd (ps_alloc None ps_empty))"
    using sim_alloc_nil [OF demo_store(1), of None] by (auto simp: ps_empty_def MAX_PAGES_def)
  have "snd (ps_alloc None ps_empty) = demo_a1"
    by (simp add: ps_alloc_def ps_empty_def demo_a1_def src_page_def fun_upd_idem)
  with s show ?thesis by (simp add: demo1_def alloc_step_def)
qed

lemma demo1_live: "ps_live demo_a1 1" "page_live demo_b demo1 1" "ready demo_b 4 demo1"
  using page_live_store_at [OF demo1_store] ready_store_at [OF demo1_store]
  by (simp_all add: demo_a1_def ps_live_def PAGESIZE_def)

lemma demo2_store: "store_at demo_b demo2 (ps_release 1 demo_a1)"
  using sim_free [OF demo1_store demo1_live(1)] by (auto simp: demo2_def release_step_def)

section \<open>Reachable stores\<close>

text \<open>
  The states a single client reaches through the API from a fresh store, with the set of
  pages it holds: it frees and writes only pages it holds, and the store stays within 4096
  pages.
\<close>

inductive store_reach :: "backing \<Rightarrow> os \<Rightarrow> nat set \<Rightarrow> bool" for b where
  created: "sched s = [] \<Longrightarrow> create_new_backing name (Some b0) s = Inr (STATUS_OK, b, s')
    \<Longrightarrow> store_reach b s' {}"
| allocated: "store_reach b s held \<Longrightarrow> ps_size (decode_at b s) < PAGESIZE
    \<Longrightarrow> alloc_page src (Some b) s = (STATUS_OK, index, s') \<Longrightarrow> store_reach b s' (insert (unat index) held)"
| freed: "store_reach b s held \<Longrightarrow> p \<in> held
    \<Longrightarrow> free_page (Some b) (word_of_nat p) s = (STATUS_OK, s') \<Longrightarrow> store_reach b s' (held - {p})"
| written: "store_reach b s held \<Longrightarrow> p \<in> held
    \<Longrightarrow> put_page m (Some b) (word_of_nat p) s = (STATUS_OK, s') \<Longrightarrow> store_reach b s' held"
| fetched: "store_reach b s held \<Longrightarrow> p \<in> held
    \<Longrightarrow> get_page d (Some b) (word_of_nat p) s = (STATUS_OK, m, s') \<Longrightarrow> store_reach b s' held"

lemma store_reach_inv:
  "store_reach b s held \<Longrightarrow> ready b 0 s \<and> held = {p. page_live b s p}"
proof (induction rule: store_reach.induct)
  case (created s name b0 s')
  then have "store_at b s' ps_empty"
    using create_backing_ok [of s name b0] by auto
  then show ?case
    by (auto simp: ready_store_at page_live_store_at ps_empty_def ps_live_def PAGESIZE_def)
next
  case (allocated s held src index s')
  then have r: "ready b (Suc 0) s" by (simp add: ready_def)
  have e: "alloc_step src b s = (unat index, s')"
    using allocated.hyps(3) by (simp add: alloc_step_def)
  show ?case
    using fio.alloc_live [OF r, of src] fio.alloc_room [OF r, of src] e allocated.IH by auto
next
  case (freed s held p s')
  then have e: "release_step b p s = s'" "page_live b s p" "ready b 0 s"
    by (simp_all add: release_step_def)
  show ?case
    using fio.release_live [OF e(3,2)] fio.release_room [OF e(3,2)] e(1) freed.IH by auto
next
  case (written s held p m s')
  then have e: "write_step b m p s = s'" "page_live b s p" "ready b 0 s"
    by (simp_all add: write_step_def)
  show ?case
    using fio.wr_live [OF e(3,2), of m] fio.wr_room [OF e(3,2), of m] e(1) written.IH by auto
next
  case (fetched s held p d m s')
  then have "store_at b s (decode_at b s)" "ps_live (decode_at b s) p"
    by (simp_all add: ready_def page_live_def)
  then have "s' = s" using sim_get [of b s "decode_at b s" p d] fetched.hyps(3) by auto
  with fetched.IH show ?case by simp
qed

section \<open>Properties\<close>

text \<open>
  C2: A client's page survives.  Without faults, in a store whose pages and the session's operations
  together number at most 4096, through any sequence of allocations (all with one source, or
  all without), frees and writes in which every freed or written page is held by the client at
  that point and is not the page \<open>q\<close>, page \<open>q\<close> stays allocated and \<open>get_page\<close> keeps returning
  the same bytes.  (The bound matters: in a larger store a reuse without a source zeroes
  another page.)
\<close>

theorem store_session_keeps_page:
  assumes "ready b (length xs) s" and "page_live b s q"
    and "session_ok (alloc_step src b) (release_step b) (write_step b) (page_live b) xs s"
    and "list_all (op_avoids q) xs"
  shows "page_live b (run_session (alloc_step src b) (release_step b) (write_step b) xs s) q
    \<and> read_step b (run_session (alloc_step src b) (release_step b) (write_step b) xs s) q
      = read_step b s q"
  using assms by (intro fio.session_keeps)

theorem store_session_keeps_page_witness:
  "read_step demo_b (run_session (alloc_step None demo_b) (release_step demo_b)
     (write_step demo_b) [PAlloc, PAlloc] demo1) 1 = read_step demo_b demo1 1"
proof -
  have "ready demo_b (length [PAlloc, PAlloc]) demo1"
    using demo1_live(3) by (simp add: ready_def)
  then show ?thesis
    using store_session_keeps_page [of demo_b "[PAlloc, PAlloc]" demo1 1 None] demo1_live(2)
    by simp
qed

text \<open>
  C17: In every state that a client reaches without faults from \<open>create_new_backing\<close>, by
  allocating while the store has fewer than 4096 pages and by freeing and writing only pages it
  holds, a successful \<open>alloc_page\<close> in a store of fewer than 4096 pages returns a page the client
  does not hold, and never the metadata page: two live allocations never share a page.
\<close>

theorem reachable_alloc_fresh:
  assumes "store_reach b s held" and "ps_size (decode_at b s) < PAGESIZE"
    and "alloc_page src (Some b) s = (STATUS_OK, index, s')"
  shows "unat index \<notin> held \<and> index \<noteq> METADATA"
proof -
  have inv: "ready b 0 s" "held = {p. page_live b s p}"
    using store_reach_inv [OF assms(1)] by simp_all
  have r: "ready b (Suc 0) s" using inv(1) assms(2) by (simp add: ready_def)
  have e: "alloc_step src b s = (unat index, s')" using assms(3) by (simp add: alloc_step_def)
  have "page_live b s' (unat index)"
    using fio.alloc_live [OF r, of src "unat index"] e by simp
  then have "unat index \<noteq> 0" by (auto simp: page_live_def ps_live_def)
  then show ?thesis
    using fio.alloc_fresh [OF r, of src] e inv(2) by (auto simp: METADATA_def)
qed

theorem reachable_alloc_fresh_witness:
  "unat (fst (snd (alloc_page None (Some demo_b) demo_os))) \<notin> {}"
proof -
  obtain s where s: "alloc_page None (Some demo_b) demo_os = (STATUS_OK, word_of_nat 1, s)"
    using sim_alloc_nil [OF demo_store(1), of None] by (auto simp: ps_empty_def MAX_PAGES_def)
  have "store_reach demo_b demo_os {}"
    by (rule store_reach.created [OF _ demo_created]) (simp add: init_os_def)
  then show ?thesis
    using reachable_alloc_fresh [of demo_b demo_os "{}" None "word_of_nat 1" s] s
      store_at_decode(1) [OF demo_store(1)] by (simp add: ps_empty_def PAGESIZE_def)
qed

text \<open>
  C5: \<open>alloc_page\<close> refines the abstract allocator.  With a source page, or with an empty
  free list, it returns the page the abstract allocator returns (the oldest free page, or
  the next page of a growing store) and that page holds the source, or zeros.
\<close>

theorem alloc_page_refines:
  assumes "store_at b s a" and "ps_size a < MAX_PAGES" and "src \<noteq> None \<or> ps_free a = []"
  shows "\<exists>s'. alloc_page src (Some b) s = (STATUS_OK, word_of_nat (fst (ps_alloc src a)), s')
    \<and> store_at b s' (snd (ps_alloc src a))"
proof (cases "ps_free a")
  case Nil
  with assms show ?thesis using sim_alloc_nil [of b s a src] by (simp add: ps_alloc_def)
next
  case (Cons p ps)
  with assms(3) obtain m where m: "src = Some m" by auto
  obtain s' d where s': "alloc_page src (Some b) s = (STATUS_OK, word_of_nat p, s')"
    "store_at b s' (a\<lparr>ps_free := ps, ps_data := (ps_data a)(p := d)\<rparr>)" "d = page_of m"
    using sim_alloc_cons [OF assms(1) Cons, of src] m by auto
  then show ?thesis using Cons m by (simp add: ps_alloc_def src_page_def)
qed

theorem alloc_page_refines_witness:
  "\<exists>s'. alloc_page (Some (\<lambda>_. 65)) (Some demo_b) demo2 = (STATUS_OK, 1, s')
    \<and> store_at demo_b s' (snd (ps_alloc (Some (\<lambda>_. 65)) (ps_release 1 demo_a1)))"
  using alloc_page_refines [OF demo2_store, of "Some (\<lambda>_. 65)"]
  by (simp add: ps_release_def demo_a1_def ps_alloc_def MAX_PAGES_def)

text \<open>
  C6: \<open>free_page\<close> refines the abstract release: a live page joins the free list at its
  tail, the contents of every other live page stay, and the freed page is not live.
\<close>

theorem free_page_refines:
  assumes "store_at b s a" and "ps_live a p"
  shows "\<exists>s'. free_page (Some b) (word_of_nat p) s = (STATUS_OK, s')
    \<and> store_at b s' (ps_release p a)"
  using assms by (rule sim_free)

theorem free_page_refines_witness:
  "\<exists>s'. free_page (Some demo_b) 1 demo1 = (STATUS_OK, s') \<and> store_at demo_b s' (ps_release 1 demo_a1)"
  using free_page_refines [OF demo1_store demo1_live(1)] by simp

text \<open>
  C12: What \<open>put_page\<close> wrote \<open>get_page\<close> reads back, byte for byte, and every other live
  page reads as before.
\<close>

theorem put_get_roundtrip:
  assumes "store_at b s a" and "ps_live a p"
  shows "\<exists>s' d. put_page m (Some b) (word_of_nat p) s = (STATUS_OK, s')
    \<and> get_page dest (Some b) (word_of_nat p) s' = (STATUS_OK, d, s') \<and> page_of d = page_of m
    \<and> store_at b s' (ps_put p m a)"
proof -
  obtain s' where s': "put_page m (Some b) (word_of_nat p) s = (STATUS_OK, s')"
    "store_at b s' (ps_put p m a)"
    using sim_put [OF assms] by blast
  have "ps_live (ps_put p m a) p" using assms(2) by (simp add: ps_put_def ps_live_def)
  with s' show ?thesis
    using sim_get [OF s'(2), of p dest] by (auto simp: ps_put_def)
qed

theorem put_get_roundtrip_witness:
  "\<exists>s' d. put_page (\<lambda>_. 7) (Some demo_b) 1 demo1 = (STATUS_OK, s')
    \<and> get_page zero_mem (Some demo_b) 1 s' = (STATUS_OK, d, s') \<and> page_of d = page_of (\<lambda>_. 7)"
  using put_get_roundtrip [OF demo1_store demo1_live(1), of "\<lambda>_. 7" zero_mem] by auto

text \<open>
  Allocating \<open>n\<close> pages in a row yields \<open>n\<close> distinct pages, none of which was live
  before and all of which are live afterwards.
\<close>

theorem alloc_many_distinct:
  assumes "ready b n s" and "alloc_many (alloc_step src b) n s = (ps, s')"
  shows "distinct ps \<and> length ps = n \<and> (\<forall>p \<in> set ps. \<not> page_live b s p)
    \<and> (\<forall>q. page_live b s' q \<longleftrightarrow> q \<in> set ps \<or> page_live b s q)"
  using assms by (rule fio.alloc_many_fresh)

theorem alloc_many_distinct_witness:
  "distinct (fst (alloc_many (alloc_step None demo_b) 3 demo1))"
proof -
  have "ready demo_b 3 demo1" using demo1_live(3) by (simp add: ready_def)
  then show ?thesis
    using alloc_many_distinct [of demo_b 3 demo1 None] by (metis prod.collapse)
qed

lemma close_backing_ok:
  assumes "sched s = []" and "fd_inode s (storefd b) = Some ino"
  shows "\<exists>s1. close_backing (Some b) s = (STATUS_OK, s1) \<and> sched s1 = [] \<and> names s1 = names s
    \<and> inodes s1 = inodes s"
  using assms by (simp add: close_backing_def posix_close_def tick_nil)

text \<open>
  C28: Closing a store and opening it again by its name gives back the same store: same
  pages, same free list, same contents.
\<close>

theorem close_reopen_keeps_store:
  assumes "store_at b s a" and "names s (store_filename name) = fd_inode s (storefd b)"
  shows "\<exists>s1 b' s2. close_backing (Some b) s = (STATUS_OK, s1)
    \<and> open_backing name (Some b0) s1 = Inr (STATUS_OK, b', s2) \<and> store_at b' s2 a"
proof -
  from assms(1) obtain ino where ino: "sched s = []" "fd_inode s (storefd b) = Some ino"
    "store_rel (inodes s ino) a" by (rule store_atE)
  obtain s1 where s1: "close_backing (Some b) s = (STATUS_OK, s1)" "sched s1 = []"
    "names s1 = names s" "inodes s1 = inodes s"
    using close_backing_ok [OF ino(1,2)] by blast
  then show ?thesis
    using ino assms(2) open_backing_ok [of s1 name ino a b0] by auto
qed

theorem close_reopen_keeps_store_witness:
  "\<exists>s1 b' s2. close_backing (Some demo_b) demo_os = (STATUS_OK, s1)
    \<and> open_backing ''db'' (Some \<lparr>storefd = 0\<rparr>) s1 = Inr (STATUS_OK, b', s2) \<and> store_at b' s2 ps_empty"
  using close_reopen_keeps_store [OF demo_store] by blast

text \<open>
  The scenario of \<open>tests/pageiotest.c\<close> for every name and every page: create a store,
  allocate a page from a source, read page 1 back, close and remove the store.
\<close>

theorem page_io_scenario:
  "\<exists>b s1 s2 d s4 s5. create_new_backing name (Some b0) init_os = Inr (STATUS_OK, b, s1)
    \<and> alloc_page (Some m) (Some b) s1 = (STATUS_OK, 1, s2)
    \<and> get_page dest (Some b) 1 s2 = (STATUS_OK, d, s2) \<and> page_of d = page_of m
    \<and> close_backing (Some b) s2 = (STATUS_OK, s4) \<and> remove_backing name s4 = (STATUS_OK, s5)"
proof -
  obtain b s1 where b: "create_new_backing name (Some b0) init_os = Inr (STATUS_OK, b, s1)"
    "store_at b s1 ps_empty" "names s1 (store_filename name) = fd_inode s1 (storefd b)"
    using create_backing_ok [of init_os name b0] by (auto simp: init_os_def)
  obtain s2 where s2: "alloc_page (Some m) (Some b) s1 = (STATUS_OK, word_of_nat 1, s2)"
    "store_at b s2 (snd (ps_alloc (Some m) ps_empty))"
    using sim_alloc_nil [OF b(2), of "Some m"] by (auto simp: ps_empty_def MAX_PAGES_def)
  obtain d where d: "get_page dest (Some b) (word_of_nat 1) s2 = (STATUS_OK, d, s2)"
    "page_of d = page_of m"
    using sim_get [OF s2(2), of 1 dest]
    by (auto simp: ps_alloc_def ps_empty_def ps_live_def src_page_def)
  from s2(2) obtain ino where ino: "sched s2 = []" "fd_inode s2 (storefd b) = Some ino"
    by (rule store_atE)
  obtain s4 where s4: "close_backing (Some b) s2 = (STATUS_OK, s4)" "sched s4 = []"
    "names s4 = names s2"
    using close_backing_ok [OF ino] by blast
  have "keeps (storefd b) s1 s2" using s2(1) by (rule keeps_alloc_page)
  then have "names s4 (store_filename name) = Some ino"
    using s4(3) b(3) ino(2) fd_inode_cong [of s2 s1] by (simp add: keeps_def)
  then have "\<exists>s5. remove_backing name s4 = (STATUS_OK, s5)"
    using s4(2) by (simp add: remove_backing_def posix_remove_def)
  with b(1) s2(1) d s4(1) show ?thesis by auto
qed

text \<open>
  A removed store is gone: whatever the environment does, opening it again fails with
  \<open>STATUS_BAD_OPEN\<close>.
\<close>

theorem remove_then_open_fails:
  assumes "remove_backing name s = (STATUS_OK, s1)"
  shows "\<exists>b s2. open_backing name (Some b0) s1 = Inr (STATUS_BAD_OPEN, b, s2)"
proof -
  have "names s1 (store_filename name) = None"
    using assms by (auto simp: remove_backing_def posix_remove_def split: prod.splits if_splits option.splits)
  then show ?thesis
    by (auto simp: open_backing_def posix_open_def Let_def split: prod.splits)
qed

theorem remove_then_open_fails_witness:
  "\<exists>b s2. open_backing ''db'' (Some \<lparr>storefd = 0\<rparr>) (snd (remove_backing ''db'' demo_os))
     = Inr (STATUS_BAD_OPEN, b, s2)"
proof -
  obtain ino where "sched demo_os = []" "fd_inode demo_os (storefd demo_b) = Some ino"
    using demo_store(1) by (rule store_atE)
  then have "remove_backing ''db'' demo_os = (STATUS_OK, snd (remove_backing ''db'' demo_os))"
    using demo_store(2) by (simp add: remove_backing_def posix_remove_def)
  then show ?thesis by (rule remove_then_open_fails)
qed

text \<open>
  A page reused without a source is never blank, although the code means to give the
  caller a blank page: it succeeds and the page holds the link it had on the free list.
\<close>

theorem alloc_reuse_not_blank:
  assumes "store_at b s a" and "ps_free a = p # ps" and "ps_size a \<le> p * PAGESIZE"
  shows "\<exists>s' d. alloc_page None (Some b) s = (STATUS_OK, word_of_nat p, s')
    \<and> get_page zero_mem (Some b) (word_of_nat p) s' = (STATUS_OK, d, s')
    \<and> load64 d 0 = head_ptr ps \<and> load64 d 0 \<noteq> 0"
proof -
  obtain s' m where s': "alloc_page None (Some b) s = (STATUS_OK, word_of_nat p, s')"
    "store_at b s' (a\<lparr>ps_free := ps, ps_data := (ps_data a)(p := m)\<rparr>)" "load64 m 0 = head_ptr ps"
    using sim_alloc_cons [OF assms(1,2), of None] assms(3) by auto
  from assms(1) obtain ino where "store_rel (inodes s ino) a" by (rule store_atE)
  then have wf: "wf_store (inodes s ino) (ps_size a) (p # ps)"
    using store_relD(1) assms(2) by metis
  then have "ps_live (a\<lparr>ps_free := ps, ps_data := (ps_data a)(p := m)\<rparr>) p"
    using wf_store_free_page [OF wf, of p] by (auto simp: ps_live_def wf_store_def)
  then obtain d where d: "get_page zero_mem (Some b) (word_of_nat p) s' = (STATUS_OK, d, s')"
    "page_of d = m"
    using sim_get [OF s'(2), of p zero_mem] by auto
  have "load64 d 0 = head_ptr ps"
    using s'(3) load64_page_of [of 0 d] d(2) by (simp add: PAGESIZE_def)
  moreover have "head_ptr ps \<noteq> 0"
  proof (cases ps)
    case (Cons q qs)
    then have "q \<in> set (p # ps)" by simp
    with wf have "page_fits q" "1 \<le> q" by (rule wf_store_free_page)+
    with Cons show ?thesis using page_ptr_inj [of q 0] by (simp add: head_ptr_def)
  qed (simp add: head_ptr_def)
  ultimately show ?thesis using s'(1) d(1) by auto
qed

theorem alloc_reuse_not_blank_witness:
  "\<exists>s' d. alloc_page None (Some demo_b) demo2 = (STATUS_OK, 1, s')
    \<and> get_page zero_mem (Some demo_b) 1 s' = (STATUS_OK, d, s') \<and> load64 d 0 \<noteq> 0"
proof -
  have "ps_free (ps_release 1 demo_a1) = [1]" "ps_size (ps_release 1 demo_a1) \<le> 1 * PAGESIZE"
    by (simp_all add: ps_release_def demo_a1_def PAGESIZE_def)
  from alloc_reuse_not_blank [OF demo2_store this] show ?thesis by auto
qed

text \<open>
  C29: The blank page goes to the wrong place.  In a store of more than \<open>p * 4096\<close> pages,
  reusing page \<open>p\<close> without a source overwrites the live page \<open>p * 4096\<close> with zeros,
  because the byte offset of \<open>p\<close> is scaled a second time; the caller sees success.
\<close>

theorem alloc_reuse_clobbers_live_page:
  assumes "store_at b s a" and "ps_free a = p # ps" and "ps_live a (p * PAGESIZE)"
  shows "\<exists>s'. alloc_page None (Some b) s = (STATUS_OK, word_of_nat p, s')
    \<and> read_step b s (p * PAGESIZE) = Some (ps_data a (p * PAGESIZE))
    \<and> read_step b s' (p * PAGESIZE) = Some zero_mem"
proof -
  from assms(1) obtain ino where s: "sched s = []" "fd_inode s (storefd b) = Some ino"
    and rel: "store_rel (inodes s ino) a" by (rule store_atE)
  let ?f = "inodes s ino" and ?q = "p * PAGESIZE"
  let ?s' = "set_file ino (reuse_file None p ?f) s"
  have wf: "wf_store ?f (ps_size a) (p # ps)" using store_relD(1) [OF rel] assms(2) by simp
  have q: "?q \<noteq> 0 \<and> page_fits ?q \<and> Suc ?q * PAGESIZE \<le> flen ?f"
    using store_at_fits [OF rel assms(3)] .
  have "page_at (reuse_file None p ?f) ?q = zero_mem"
    using q by (simp add: reuse_file_write reuse_target_def page_at_write_other page_at_write_same)
  moreover have "Suc ?q * PAGESIZE \<le> flen (reuse_file None p ?f)"
    using q by (simp add: reuse_file_write le_max_iff_disj)
  ultimately have "\<exists>d. get_page zero_mem (Some b) (word_of_nat ?q) ?s' = (STATUS_OK, d, ?s')
      \<and> page_of d = zero_mem"
    using get_page_ok [of ?s' b ino ?q zero_mem] s q by simp
  then have "read_step b ?s' ?q = Some zero_mem"
    by (auto simp: read_step_def)
  then show ?thesis
    using alloc_page_cons [OF s wf, of None] read_step_ok [OF assms(1,3)] by blast
qed

text \<open>A store of 4097 pages with page 1 free and page 4096 live and full of 7s.\<close>

definition big_file :: regfile where
  "big_file =
     write_page (write_page (write_page \<lparr>fbytes = zero_mem, flen = 4097 * PAGESIZE\<rparr> 0
       (set_mp_tail (page_ptr 1) (set_mp_head (page_ptr 1) (set_mp_size 4097 zero_mem))))
       1 (set_fp_offset (- 1) zero_mem)) 4096 (\<lambda>_. 7)"

definition big_store :: pstore where
  "big_store = \<lparr>ps_size = 4097, ps_free = [1], ps_data = page_at big_file\<rparr>"

lemma big_file_store: "store_at demo_b (set_file 3 big_file demo_os) big_store"
proof -
  obtain ino where ino: "sched demo_os = []" "fd_inode demo_os (storefd demo_b) = Some ino"
    using demo_store(1) by (rule store_atE)
  have "fd_inode demo_os 3 = Some 3"
    by (simp add: demo_os_def create_new_backing_def posix_open_creat_def init_os_def fresh_fd_def
        next_outcome_def Let_def pwrite_meta posix_pwrite_def fd_inode_def tick_def)
  have 1: "page_fits 1" "page_fits 4096"
    by (simp_all add: page_fits_def PAGESIZE_def)
  have "wf_store big_file 4097 [1]"
    by (simp add: wf_store_def big_file_def mem_simps head_ptr_def tail_ptr_def link_write_other
        link_write_same MAX_PAGES_def PAGESIZE_def)
  then have "store_rel big_file big_store"
    by (intro store_relI) (simp_all add: big_store_def)
  with ino \<open>fd_inode demo_os 3 = Some 3\<close> show ?thesis
    by (auto intro!: store_atI simp: demo_b_def)
qed

theorem alloc_reuse_clobbers_live_page_witness:
  "\<exists>s'. alloc_page None (Some demo_b) (set_file 3 big_file demo_os) = (STATUS_OK, 1, s')
    \<and> read_step demo_b (set_file 3 big_file demo_os) 4096 = Some (page_of (\<lambda>_. 7))
    \<and> read_step demo_b s' 4096 = Some zero_mem"
proof -
  have h: "ps_free big_store = [1]" "ps_live big_store (1 * PAGESIZE)"
    by (simp_all add: big_store_def ps_live_def PAGESIZE_def)
  have "ps_data big_store (1 * PAGESIZE) = page_of (\<lambda>_. 7)"
    by (simp add: big_store_def big_file_def page_at_write_same PAGESIZE_def)
  with alloc_reuse_clobbers_live_page [OF big_file_store h] show ?thesis
    by (auto simp: PAGESIZE_def)
qed

text \<open>
  Freeing a page that is already free is not detected, but never makes the allocator
  hand a page out twice: the free list is cut off behind the page, and the pages behind it
  are lost.
\<close>

theorem double_free_truncates:
  assumes "store_at b s a" and "ps_free a = xs @ p # ys"
  shows "\<exists>s'. free_page (Some b) (word_of_nat p) s = (STATUS_OK, s')
    \<and> ps_free (decode_at b s') = xs @ [p] \<and> ps_size (decode_at b s') = ps_size a"
proof -
  from assms(1) obtain ino where s: "sched s = []" "fd_inode s (storefd b) = Some ino"
    and rel: "store_rel (inodes s ino) a" by (rule store_atE)
  let ?f = "inodes s ino" and ?s' = "set_file ino (release_file (ps_free a) p (inodes s ino)) s"
  have wf: "wf_store ?f (ps_size a) (xs @ p # ys)" using store_relD(1) [OF rel] assms(2) by simp
  have p: "p \<noteq> 0" "page_fits p"
    using wf_store_free_page(1,4) [OF wf, of p] by auto
  have run: "free_page (Some b) (word_of_nat p) s = (STATUS_OK, ?s')"
    using free_page_ok [OF s wf p] assms(2) by simp
  let ?a' = "\<lparr>ps_size = ps_size a, ps_free = xs @ [p], ps_data = page_at (inodes ?s' ino)\<rparr>"
  have "wf_store (inodes ?s' ino) (ps_size a) (xs @ [p])"
    using wf_release_twice [OF wf] assms(2) by simp
  then have "store_at b ?s' ?a'"
    using s by (intro store_atI [of _ b ino] store_relI) simp_all
  then show ?thesis
    using run store_at_decode(1,2) [of b ?s' ?a'] by simp
qed

theorem double_free_truncates_witness:
  "\<exists>s'. free_page (Some demo_b) 1 demo2 = (STATUS_OK, s') \<and> ps_free (decode_at demo_b s') = [1]"
proof -
  have "ps_free (ps_release 1 demo_a1) = [] @ 1 # []" by (simp add: ps_release_def demo_a1_def)
  from double_free_truncates [OF demo2_store this] show ?thesis by auto
qed

text \<open>
  C30: Isolation.  Whatever faults the environment injects, the page operations on one
  store change no descriptor, no directory entry and no file but the store's own.
\<close>

theorem page_ops_isolated:
  "keeps (storefd b) s (snd (snd (alloc_page src (Some b) s)))
    \<and> keeps (storefd b) s (snd (free_page (Some b) index s))
    \<and> keeps (storefd b) s (snd (put_page m (Some b) index s))
    \<and> inodes (snd (snd (get_page d (Some b) index s))) = inodes s"
proof (intro conjI)
  show "keeps (storefd b) s (snd (snd (alloc_page src (Some b) s)))"
    by (cases "alloc_page src (Some b) s") (auto dest: keeps_alloc_page)
  show "keeps (storefd b) s (snd (free_page (Some b) index s))"
    by (rule keeps_free_page) (rule prod.collapse [symmetric])
  show "keeps (storefd b) s (snd (put_page m (Some b) index s))"
    by (rule keeps_put_page) (rule prod.collapse [symmetric])
  show "inodes (snd (snd (get_page d (Some b) index s))) = inodes s"
    by (cases "get_page d (Some b) index s") (auto dest: get_page_inodes)
qed

text \<open>
  What a failed allocation reports, under every schedule of faults: one of three error
  codes, with the index set to \<open>ERR_SET\<close>, except after a failed data write of a growing
  store, which leaves the valid page number 1 in the out-parameter.
\<close>

theorem alloc_page_failure_report:
  "case alloc_page src file s of (st, index, s') \<Rightarrow>
     st = STATUS_OK \<or> (st = STATUS_NO_FILE \<or> st = STATUS_BAD_READ \<or> st = STATUS_BAD_WRITE) \<and>
       (index = ERR_SET \<or> st = STATUS_BAD_WRITE \<and> index = 1 \<and> src \<noteq> None)"
proof (cases "alloc_page src file s")
  case (fields st index s')
  with alloc_page_outcome [OF fields] show ?thesis by simp
qed

text \<open>
  The exception occurs: when the data write of a growing store fails, the status is
  \<open>STATUS_BAD_WRITE\<close> and the index 1, not \<open>ERR_SET\<close>.
\<close>

theorem alloc_extend_reports_page_one:
  assumes "fd_inode s (storefd b) = Some ino" and "wf_store (inodes s ino) N []"
    and "sched s = [IO_ok, IO_ok, IO_fail]"
  shows "\<exists>s'. alloc_page (Some m) (Some b) s = (STATUS_BAD_WRITE, 1, s')"
proof -
  let ?f = "inodes s ino"
  have f: "mp_head (meta ?f) = - 1" "mp_size (meta ?f) = word_of_nat N" "page_fits N"
    using assms(2) by (auto simp: wf_store_def head_ptr_def)
  have len: "PAGESIZE \<le> flen ?f" by (rule wf_store_meta_in_file) (rule assms(2))
  have "read_into (fbytes ?f) 0 PAGESIZE zero_mem = meta ?f"
    using read_into_page [of ?f 0] by (simp add: meta_def)
  then show ?thesis
    using assms(1,3) f len
    by (simp add: alloc_page_def alloc_extend_def posix_pread_def posix_pwrite_def Let_def
        next_outcome_def tick_def EMPTY_LIST_def sint_page_ptr index_to_offset_of_nat min_absorb1)
qed

theorem alloc_extend_reports_page_one_witness:
  "\<exists>s'. alloc_page (Some (\<lambda>_. 1)) (Some demo_b)
     (demo_os\<lparr>sched := [IO_ok, IO_ok, IO_fail]\<rparr>) = (STATUS_BAD_WRITE, 1, s')"
proof -
  obtain ino where "fd_inode demo_os (storefd demo_b) = Some ino"
    "store_rel (inodes demo_os ino) ps_empty"
    using demo_store(1) by (rule store_atE)
  then have "fd_inode (demo_os\<lparr>sched := [IO_ok, IO_ok, IO_fail]\<rparr>) (storefd demo_b) = Some ino"
    "wf_store (inodes (demo_os\<lparr>sched := [IO_ok, IO_ok, IO_fail]\<rparr>) ino) 1 []"
    using store_relD(1) [of "inodes demo_os ino" ps_empty] by (simp_all add: ps_empty_def)
  then show ?thesis by (rule alloc_extend_reports_page_one) simp
qed

text \<open>
  Growing a store is failure-atomic.  If reads and writes succeed or fail as a whole,
  a failed allocation on a store with an empty free list leaves the store exactly as it was:
  same size, same free list, same contents of every live page.
\<close>

theorem alloc_extend_failure_atomic:
  assumes "all_or_nothing s" and "fd_inode s (storefd b) = Some ino"
    and "store_rel (inodes s ino) a" and "ps_free a = []"
    and "alloc_page src (Some b) s = (st, index, s')" and "st \<noteq> STATUS_OK"
  shows "store_rel (inodes s' ino) a"
  using assms by (rule alloc_page_extend_failure)

theorem alloc_extend_failure_atomic_witness:
  "\<exists>ino st index s'. alloc_page None (Some demo_b) (demo_os\<lparr>sched := [IO_fail]\<rparr>) = (st, index, s')
     \<and> store_rel (inodes s' ino) ps_empty"
proof -
  let ?s = "demo_os\<lparr>sched := [IO_fail]\<rparr>"
  obtain ino where ino: "fd_inode demo_os (storefd demo_b) = Some ino"
    "store_rel (inodes demo_os ino) ps_empty"
    using demo_store(1) by (rule store_atE)
  obtain st index s' where run: "alloc_page None (Some demo_b) ?s = (st, index, s')"
    by (cases "alloc_page None (Some demo_b) ?s") auto
  have "st \<noteq> STATUS_OK"
    using run ino by (auto simp: alloc_page_def posix_pread_def next_outcome_def split: if_splits)
  then have "store_rel (inodes s' ino) ps_empty"
    using run ino
    by (intro alloc_extend_failure_atomic [of ?s demo_b ino ps_empty None st index s'])
      (simp_all add: all_or_nothing_def ps_empty_def)
  with run show ?thesis by blast
qed

text \<open>
  C31: Reusing a page is not.  When only the metadata write fails, the allocation reports
  \<open>STATUS_BAD_WRITE\<close>, but the page, still the head of the free list, now holds the
  caller's data, so the link to the next free page is the first eight bytes of that data.
\<close>

theorem alloc_reuse_failure_corrupts:
  assumes "fd_inode s (storefd b) = Some ino" and "store_rel (inodes s ino) a"
    and "ps_free a = p # ps" and "sched s = [IO_ok, IO_ok, IO_ok, IO_fail]"
  shows "\<exists>s'. alloc_page (Some m) (Some b) s = (STATUS_BAD_WRITE, ERR_SET, s')
    \<and> mp_head (meta (inodes s' ino)) = page_ptr p \<and> link (inodes s' ino) p = load64 m 0"
  using assms by (rule alloc_reuse_lost_link)

theorem alloc_reuse_failure_corrupts_witness:
  "\<exists>ino s'. alloc_page (Some (\<lambda>_. 65)) (Some demo_b)
       (demo2\<lparr>sched := [IO_ok, IO_ok, IO_ok, IO_fail]\<rparr>) = (STATUS_BAD_WRITE, ERR_SET, s')
     \<and> link (inodes s' ino) 1 = load64 (\<lambda>_. 65) 0"
proof -
  let ?s = "demo2\<lparr>sched := [IO_ok, IO_ok, IO_ok, IO_fail]\<rparr>"
  obtain ino where "fd_inode demo2 (storefd demo_b) = Some ino"
    "store_rel (inodes demo2 ino) (ps_release 1 demo_a1)"
    using demo2_store by (rule store_atE)
  then have "fd_inode ?s (storefd demo_b) = Some ino" "store_rel (inodes ?s ino) (ps_release 1 demo_a1)"
    by simp_all
  moreover have "ps_free (ps_release 1 demo_a1) = [1]" by (simp add: ps_release_def demo_a1_def)
  ultimately show ?thesis
    using alloc_reuse_failure_corrupts [of ?s demo_b ino "ps_release 1 demo_a1" 1 "[]" "\<lambda>_. 65"] by auto
qed

text \<open>
  The guards.  The metadata page is refused before anything else, then a missing
  backing; neither touches the store.
\<close>

theorem page_op_guards:
  "free_page store 0 s = (STATUS_META_PAGE, s) \<and> get_page d store 0 s = (STATUS_META_PAGE, d, s)
    \<and> put_page m store 0 s = (STATUS_META_PAGE, s) \<and> alloc_page src None s = (STATUS_NO_FILE, ERR_SET, s)
    \<and> free_page None 1 s = (STATUS_NO_FILE, s) \<and> get_page d None 1 s = (STATUS_NO_FILE, d, s)
    \<and> put_page m None 1 s = (STATUS_NO_FILE, s)"
  by (simp add: free_page_def get_page_def put_page_def alloc_page_def index_to_offset_def
      PAGESIZE_def)

text \<open>
  Reading a page that is not in the file fails with \<open>STATUS_BAD_READ\<close>, and a negative
  page number with \<open>STATUS_BAD_SEEK\<close>.
\<close>

theorem get_page_absent:
  assumes "sched s = []" and "fd_inode s (storefd b) = Some ino" and "page_fits p"
    and "p \<noteq> 0" and "flen (inodes s ino) < Suc p * PAGESIZE"
  shows "fst (get_page d (Some b) (word_of_nat p) s) = STATUS_BAD_READ
    \<and> fst (get_page d (Some b) (- 1) s) = STATUS_BAD_SEEK"
proof -
  have "page_ptr p \<noteq> 0" using assms(3,4) page_ptr_inj [of p 0] by simp
  moreover have "flen (inodes s ino) - p * PAGESIZE < PAGESIZE"
    using assms(5) PAGESIZE_pos unfolding mult_Suc by arith
  then have "min PAGESIZE (flen (inodes s ino) - p * PAGESIZE) < PAGESIZE"
    by (simp add: min_less_iff_disj)
  ultimately show ?thesis
    using assms(1-4)
    by (simp add: get_page_def Let_def index_to_offset_of_nat lseek_ok pread_ok sint_page_ptr
        unat_page_ptr) (simp add: index_to_offset_def PAGESIZE_def posix_lseek_def)
qed

theorem get_page_absent_witness:
  "fst (get_page zero_mem (Some demo_b) (word_of_nat 1) demo_os) = STATUS_BAD_READ"
proof -
  have "fd_inode demo_os 3 = Some 3" "sched demo_os = []" "flen (inodes demo_os 3) = PAGESIZE"
    by (simp_all add: demo_os_def create_new_backing_def posix_open_creat_def init_os_def
        fresh_fd_def next_outcome_def Let_def posix_pwrite_def fd_inode_def tick_def empty_file_def
        write_file_def)
  then show ?thesis
    using get_page_absent [of demo_os demo_b 3 1 zero_mem]
    by (simp add: demo_b_def page_fits_def PAGESIZE_def)
qed

text \<open>
  Page numbers and byte offsets convert back and forth without loss, for every page
  whose offset is representable.
\<close>

theorem offset_index_roundtrip:
  assumes "page_fits p"
  shows "offset_to_index (index_to_offset (word_of_nat p)) = word_of_nat p
    \<and> sint (index_to_offset (word_of_nat p)) = int (p * PAGESIZE)"
  using assms by (simp add: index_to_offset_of_nat offset_to_index_page_ptr sint_page_ptr)

theorem offset_index_roundtrip_witness:
  "offset_to_index (index_to_offset (word_of_nat 5)) = word_of_nat 5"
  using offset_index_roundtrip [of 5] by (simp add: page_fits_def PAGESIZE_def)

end
