(* ===== verification/StoreQueue.thy ===== *)
theory StoreQueue
  imports StoreProperties
begin

text \<open>
  The free list of a store as a queue, and what this gives a client over time: a freed page
  comes back, after exactly as many allocations as there were free pages before it, however
  frees, writes and allocations interleave.
\<close>

section \<open>The queue interface\<close>

primrec op_page :: "('s \<Rightarrow> nat \<times> 's) \<Rightarrow> page_op \<Rightarrow> 's \<Rightarrow> nat list" where
  "op_page alloc PAlloc s = [fst (alloc s)]"
| "op_page alloc (PFree p) s = []"
| "op_page alloc (PWrite p m) s = []"

text \<open>The pages that the allocations of a session return, in order.\<close>

primrec session_pages ::
  "('s \<Rightarrow> nat \<times> 's) \<Rightarrow> (nat \<Rightarrow> 's \<Rightarrow> 's) \<Rightarrow> (mem \<Rightarrow> nat \<Rightarrow> 's \<Rightarrow> 's) \<Rightarrow> page_op list \<Rightarrow> 's \<Rightarrow> nat list"
where
  "session_pages alloc release wr [] s = []"
| "session_pages alloc release wr (x # xs) s =
     op_page alloc x s @ session_pages alloc release wr xs (run_op alloc release wr x s)"

definition allocs :: "page_op list \<Rightarrow> nat" where
  "allocs xs = length (filter (\<lambda>x. x = PAlloc) xs)"

lemma allocs_simps [simp]:
  "allocs [] = 0" "allocs (PAlloc # xs) = Suc (allocs xs)" "allocs (PFree p # xs) = allocs xs"
  "allocs (PWrite p m # xs) = allocs xs"
  by (simp_all add: allocs_def)

lemma length_session_pages [simp]: "length (session_pages alloc release wr xs s) = allocs xs"
proof (induction xs arbitrary: s)
  case (Cons x xs)
  then show ?case by (cases x) simp_all
qed simp

locale queued_allocator = page_manager alloc release live room rd wr
  for alloc :: "'s \<Rightarrow> nat \<times> 's"
    and release :: "nat \<Rightarrow> 's \<Rightarrow> 's"
    and live :: "'s \<Rightarrow> nat \<Rightarrow> bool"
    and room :: "nat \<Rightarrow> 's \<Rightarrow> bool"
    and rd :: "'s \<Rightarrow> nat \<Rightarrow> mem option"
    and wr :: "mem \<Rightarrow> nat \<Rightarrow> 's \<Rightarrow> 's" +
  fixes queue :: "'s \<Rightarrow> nat list"
  assumes alloc_queue: "room (Suc n) s \<Longrightarrow> queue s = p # ps \<Longrightarrow> fst (alloc s) = p \<and> queue (snd (alloc s)) = ps"
    and release_queue: "room n s \<Longrightarrow> live s p \<Longrightarrow> queue (release p s) = queue s @ [p]"
    and wr_queue: "room n s \<Longrightarrow> live s p \<Longrightarrow> queue (wr m p s) = queue s"
begin

lemma run_op_room:
  "room (Suc n) s \<Longrightarrow> op_ok live x s \<Longrightarrow> room n (run_op alloc release wr x s)"
  by (cases x) (auto intro: alloc_room release_room wr_room room_mono)

text \<open>The pages at the front of the queue are handed out first, in their order.\<close>

lemma queue_front:
  "room (length xs) s \<Longrightarrow> session_ok alloc release wr live xs s \<Longrightarrow> queue s = ys @ zs
   \<Longrightarrow> length ys \<le> allocs xs \<Longrightarrow> take (length ys) (session_pages alloc release wr xs s) = ys"
proof (induction xs arbitrary: s ys zs)
  case Nil
  then show ?case by simp
next
  case (Cons x xs)
  let ?t = "run_op alloc release wr x s"
  have r: "room (Suc (length xs)) s" "room (length xs) s" "op_ok live x s"
    and t: "room (length xs) ?t" "session_ok alloc release wr live xs ?t"
    using Cons.prems(1,2) run_op_room [of "length xs" s x] by (simp_all add: room_mono)
  show ?case
  proof (cases x)
    case PAlloc
    show ?thesis
    proof (cases ys)
      case (Cons y ys')
      have q: "fst (alloc s) = y" "queue ?t = ys' @ zs"
        using alloc_queue [OF r(1), of y "ys' @ zs"] Cons.prems(3) Cons PAlloc by simp_all
      have "take (length ys') (session_pages alloc release wr xs ?t) = ys'"
        using Cons.prems(4) Cons PAlloc by (intro Cons.IH [OF t q(2)]) simp
      then show ?thesis using Cons PAlloc q(1) by simp
    qed simp
  next
    case (PFree p)
    have "queue ?t = ys @ (zs @ [p])"
      using release_queue [OF r(2), of p] r(3) Cons.prems(3) PFree by simp
    then show ?thesis using Cons.IH [OF t] Cons.prems(4) PFree by simp
  next
    case (PWrite p m)
    have "queue ?t = ys @ zs"
      using wr_queue [OF r(2), of p m] r(3) Cons.prems(3) PWrite by simp
    then show ?thesis using Cons.IH [OF t] Cons.prems(4) PWrite by simp
  qed
qed

lemma released_returns:
  assumes "room (Suc (length xs)) s" and "live s p" and "session_ok alloc release wr live xs (release p s)"
    and "length (queue s) < allocs xs"
  shows "take (Suc (length (queue s))) (session_pages alloc release wr xs (release p s)) = queue s @ [p]"
proof -
  have "room (length xs) (release p s)" "queue (release p s) = (queue s @ [p]) @ []"
    using assms(1,2) by (auto intro: release_room room_mono simp: release_queue)
  from queue_front [OF this(1) assms(3) this(2)] assms(4) show ?thesis by simp
qed

end

section \<open>The store is one\<close>

definition free_queue :: "backing \<Rightarrow> os \<Rightarrow> nat list" where
  "free_queue b s = ps_free (decode_at b s)"

lemma free_queue_store_at: "store_at b s a \<Longrightarrow> free_queue b s = ps_free a"
  by (simp add: free_queue_def store_at_decode)

lemma alloc_step_queue:
  assumes r: "ready b (Suc n) s" and q: "free_queue b s = p # ps"
  shows "fst (alloc_step src b s) = p \<and> free_queue b (snd (alloc_step src b s)) = ps"
proof -
  let ?a = "decode_at b s"
  have a: "store_at b s ?a" "ps_size ?a + Suc n \<le> PAGESIZE" "ps_free ?a = p # ps"
    using r q by (simp_all add: ready_def free_queue_def)
  from a(1) obtain ino where rel: "store_rel (inodes s ino) ?a" by (rule store_atE)
  have wf: "wf_store (inodes s ino) (ps_size ?a) (p # ps)" using store_relD(1) [OF rel] a(3) by simp
  have p: "1 \<le> p" "p < ps_size ?a" using wf_store_free_page [OF wf, of p] by auto
  have "ps_size ?a \<le> p * PAGESIZE" using p(1) a(2) by (intro scaled_beyond) simp_all
  then obtain s' d where s': "alloc_page src (Some b) s = (STATUS_OK, word_of_nat p, s')"
    "store_at b s' (?a\<lparr>ps_free := ps, ps_data := (ps_data ?a)(p := d)\<rparr>)"
    using sim_alloc_cons [OF a(1,3), of src] by blast
  have "unat (word_of_nat p :: i64) = p"
    using a(2) p(2) by (intro unat_word_of_nat64) (simp add: PAGESIZE_def)
  then show ?thesis using s' free_queue_store_at [OF s'(2)] by (simp add: alloc_step_def)
qed

interpretation fioq: queued_allocator
  "alloc_step src b" "release_step b" "page_live b" "ready b" "read_step b" "write_step b" "free_queue b"
  for src :: "mem option" and b :: backing
proof unfold_locales
  fix n s p ps assume "ready b (Suc n) s" "free_queue b s = p # ps"
  then show "fst (alloc_step src b s) = p \<and> free_queue b (snd (alloc_step src b s)) = ps"
    by (rule alloc_step_queue)
next
  fix n s p assume r: "ready b n s" "page_live b s p"
  then have a: "store_at b s (decode_at b s)" "ps_live (decode_at b s) p"
    by (simp_all add: ready_def page_live_def)
  show "free_queue b (release_step b p s) = free_queue b s @ [p]"
    using sim_free [OF a] by (auto simp: release_step_def free_queue_def ps_release_def dest: store_at_decode(2))
  show "free_queue b (write_step b m p s) = free_queue b s" for m
    using sim_put [OF a, of m] by (auto simp: write_step_def free_queue_def ps_put_def dest: store_at_decode(2))
qed

section \<open>Freed pages come back\<close>

text \<open>
  C23: Without faults, in a store whose pages and the session's operations (the release included)
  together number at most 4096, a freed page is returned again.  After page \<open>p\<close> has been freed, in
  any session that frees and writes only pages it holds and allocates more often than there
  were free pages before, the first allocations return exactly the pages that were free,
  oldest first, and then \<open>p\<close>; frees, writes and further allocations in between do not delay
  it.  (In a larger store a reuse without a source can overwrite a link of the free list.)
\<close>

theorem freed_page_returns:
  assumes "ready b (Suc (length xs)) s" and "page_live b s p"
    and "session_ok (alloc_step src b) (release_step b) (write_step b) (page_live b) xs (release_step b p s)"
    and "length (free_queue b s) < allocs xs"
  shows "take (Suc (length (free_queue b s)))
      (session_pages (alloc_step src b) (release_step b) (write_step b) xs (release_step b p s))
    = free_queue b s @ [p]"
  using assms by (rule fioq.released_returns)

theorem freed_page_returns_witness:
  "free_queue demo_b demo1 = []
   \<and> take 1 (session_pages (alloc_step None demo_b) (release_step demo_b) (write_step demo_b) [PAlloc, PAlloc]
       (release_step demo_b 1 demo1)) = [1]"
proof -
  have r: "ready demo_b (Suc (length [PAlloc, PAlloc])) demo1" and q: "free_queue demo_b demo1 = []"
    using demo1_live(3) free_queue_store_at [OF demo1_store] by (simp_all add: ready_def demo_a1_def)
  show ?thesis
    using freed_page_returns [OF r demo1_live(2), of None] q by simp
qed

end
