(* ===== verification/StoreCrash.thy ===== *)
theory StoreCrash
  imports StoreQueue
begin

text \<open>
  What a release that fails halfway leaves behind.  \<open>free_page\<close> overwrites pages before it
  writes the metadata, so a failed call is not a call without effect: with an empty free
  list it destroys the contents of the page, and otherwise it links the page behind the
  tail of the free list although it reports a failure.  \<open>dangling\<close> describes the second
  file; the allocator follows the link and hands the page out while its owner still holds
  it.
\<close>

section \<open>The file after a release whose second write fails\<close>

definition broken_file :: "nat list \<Rightarrow> nat \<Rightarrow> regfile \<Rightarrow> regfile" where
  "broken_file fl p f =
     (if fl = [] then write_page f p (set_fp_offset (- 1) zero_mem)
      else write_page f (last fl) (set_fp_offset (page_ptr p) zero_mem))"

definition calm :: "os \<Rightarrow> os" where
  "calm s = s\<lparr>sched := []\<rparr>"

lemma calm_simps [simp]:
  "sched (calm s) = []" "inodes (calm s) = inodes s" "fd_inode (calm s) fd = fd_inode s fd"
  by (simp_all add: calm_def fd_inode_def)

lemma free_page_second_write_fails:
  assumes s: "fd_inode s (storefd b) = Some ino" "sched s = [IO_ok, IO_ok, IO_fail]"
    and wf: "wf_store (inodes s ino) N fl" and p: "p \<noteq> 0" "page_fits p"
  shows "free_page (Some b) (word_of_nat p) s
           = (STATUS_BAD_WRITE, set_file ino (broken_file fl p (inodes s ino)) (calm s))"
proof -
  let ?f = "inodes s ino"
  have nz: "page_ptr p \<noteq> 0"
    using p page_ptr_inj [of p 0] by simp
  have len: "PAGESIZE \<le> flen ?f" using wf by (rule wf_store_meta_in_file)
  have r: "read_into (fbytes ?f) 0 PAGESIZE zero_mem = meta ?f"
    using read_into_page [of ?f 0] by (simp add: meta_def)
  show ?thesis
  proof (cases fl)
    case Nil
    with wf have "mp_head (meta ?f) = - 1" "mp_tail (meta ?f) = - 1"
      by (simp_all add: wf_store_def head_ptr_def tail_ptr_def)
    with Nil s p nz len r show ?thesis
      by (simp add: free_page_def free_first_def posix_pread_def posix_pwrite_def Let_def
          index_to_offset_of_nat next_outcome_def tick_def min_absorb1 sint_page_ptr unat_page_ptr
          broken_file_def set_file_def calm_def flip: write_page_def)
  next
    case (Cons q qs)
    with wf have t: "mp_tail (meta ?f) = page_ptr (last fl)"
      by (simp add: wf_store_def tail_ptr_def)
    have "last fl \<in> set fl" using Cons by simp
    with wf have t': "page_fits (last fl)" by (rule wf_store_free_page)
    with t have "mp_tail (meta ?f) \<noteq> - 1"
      using page_ptr_not_empty by simp
    with Cons s p nz len r t t' show ?thesis
      by (simp add: free_page_def free_append_def posix_pread_def posix_pwrite_def Let_def
          index_to_offset_of_nat next_outcome_def tick_def min_absorb1 sint_page_ptr unat_page_ptr
          broken_file_def set_file_def calm_def flip: write_page_def)
  qed
qed

section \<open>Allocating along a dangling link\<close>

primrec leads_to :: "regfile \<Rightarrow> nat list \<Rightarrow> nat \<Rightarrow> bool" where
  "leads_to f [] p = True"
| "leads_to f (q # qs) p = (link f q = head_ptr (qs @ [p]) \<and> leads_to f qs p)"

definition dangling :: "regfile \<Rightarrow> nat list \<Rightarrow> nat \<Rightarrow> bool" where
  "dangling f fl p \<longleftrightarrow>
     mp_head (meta f) = head_ptr (fl @ [p]) \<and> (fl \<noteq> [] \<longrightarrow> mp_tail (meta f) = tail_ptr fl) \<and>
     distinct (fl @ [p]) \<and> PAGESIZE \<le> flen f \<and>
     (\<forall>q \<in> set (fl @ [p]). 1 \<le> q \<and> q < MAX_PAGES \<and> Suc q * PAGESIZE \<le> flen f) \<and> leads_to f fl p"

lemma leads_to_cong: "(\<And>q. q \<in> set fl \<Longrightarrow> link g q = link f q) \<Longrightarrow> leads_to g fl p = leads_to f fl p"
  by (induction fl) auto

lemma leads_to_relinked:
  "chain f fl \<Longrightarrow> (\<And>q. q \<in> set (butlast fl) \<Longrightarrow> link g q = link f q)
   \<Longrightarrow> fl \<noteq> [] \<Longrightarrow> link g (last fl) = page_ptr p \<Longrightarrow> leads_to g fl p"
  by (induction f fl rule: chain.induct) (auto simp: head_ptr_def)

lemma dangling_broken_file:
  assumes wf: "wf_store f N fl" and fl: "fl \<noteq> []" and p: "1 \<le> p" "p < N" "p \<notin> set fl"
  shows "dangling (broken_file fl p f) fl p"
proof -
  let ?g = "broken_file fl p f"
  have l: "last fl \<in> set fl" using fl by simp
  have l0: "last fl \<noteq> 0" using wf_store_free_page(1) [OF wf l] by simp
  have g: "?g = write_page f (last fl) (set_fp_offset (page_ptr p) zero_mem)"
    using fl by (simp add: broken_file_def)
  have "leads_to ?g fl p"
  proof (rule leads_to_relinked [of f])
    show "chain f fl" using wf by (simp add: wf_store_def)
    show "link ?g (last fl) = page_ptr p" by (simp add: g link_write_same fp_offset_set)
    fix q assume q: "q \<in> set (butlast fl)"
    have "distinct fl" using wf by (simp add: wf_store_def)
    with q have "q \<noteq> last fl" "q \<in> set fl" by (simp_all add: butlast_not_last)
    then show "link ?g q = link f q"
      using wf_store_page_in_file [OF wf wf_store_free_page(2) [OF wf, of q]]
      by (simp add: g link_write_other)
  qed (rule fl)
  moreover have "meta ?g = meta f"
    using wf_store_meta_in_file [OF wf] l0 by (simp add: g meta_write_other)
  moreover have "mp_head (meta f) = head_ptr (fl @ [p])"
    using wf fl by (cases fl) (simp_all add: wf_store_def head_ptr_def)
  moreover have "q < MAX_PAGES \<and> Suc q * PAGESIZE \<le> flen f" if "1 \<le> q" "q < N" for q
    using that wf wf_store_page_in_file [OF wf that(2)] by (simp add: wf_store_def)
  moreover have "distinct fl" "\<forall>q \<in> set fl. 1 \<le> q \<and> q < N" "mp_tail (meta f) = tail_ptr fl"
    using wf by (simp_all add: wf_store_def)
  ultimately show ?thesis
    using p wf_store_meta_in_file [OF wf] by (auto simp: dangling_def g le_max_iff_disj)
qed

lemma dangling_reuse:
  assumes d: "dangling f (q # qs) p"
  shows "dangling (reuse_file (Some m) q f) qs p"
proof -
  let ?g = "reuse_file (Some m) q f" and ?md = "unlink_head (meta f) (link f q)"
  have q: "q \<noteq> 0" "q \<notin> set (qs @ [p])" and lk: "link f q = head_ptr (qs @ [p])"
    using d by (auto simp: dangling_def)
  have fits: "page_fits r" if "r \<in> set (q # qs)" for r
    using d that by (intro page_fits_MAX) (auto simp: dangling_def)
  have h: "mp_head (meta f) = page_ptr q" "mp_tail (meta f) = page_ptr (last (q # qs))"
    using d by (simp_all add: dangling_def head_ptr_def tail_ptr_def)
  have md: "mp_head ?md = head_ptr (qs @ [p])" by (simp add: unlink_head_def lk mem_simps)
  have mt: "mp_tail ?md = tail_ptr qs" if "qs \<noteq> []"
  proof -
    have "last qs \<in> set qs" using that by simp
    with q(2) fits [of q] fits [of "last qs"] have "page_ptr q \<noteq> page_ptr (last qs)"
      by (auto simp: page_ptr_inj)
    then show ?thesis using h that by (simp add: unlink_head_def mem_simps tail_ptr_def split: list.splits)
  qed
  have g: "?g = write_page (write_page f q m) 0 ?md"
    by (simp add: reuse_file_def)
  have "link ?g r = link f r" if r: "r \<in> set qs" for r
  proof -
    have "r \<noteq> 0" "r \<noteq> q" "Suc r * PAGESIZE \<le> flen f"
      using d r by (auto simp: dangling_def)
    then show ?thesis by (simp add: g link_write_other le_max_iff_disj)
  qed
  then have "leads_to ?g qs p = leads_to f qs p" by (rule leads_to_cong)
  then show ?thesis
    using d md mt by (auto simp: dangling_def g mem_simps le_max_iff_disj)
qed

lemma alloc_step_head:
  assumes s: "sched s = []" "fd_inode s (storefd b) = Some ino" and d: "dangling (inodes s ino) fl p"
    and h: "q = hd (fl @ [p])"
  shows "alloc_step (Some m) b s = (q, set_file ino (reuse_file (Some m) q (inodes s ino)) s)"
proof -
  have "q \<in> set (fl @ [p])" using h by (cases fl) auto
  then have q: "q < MAX_PAGES" "Suc q * PAGESIZE \<le> flen (inodes s ino)" "PAGESIZE \<le> flen (inodes s ino)"
    using d by (auto simp: dangling_def)
  have "mp_head (meta (inodes s ino)) = page_ptr q"
    using d h by (cases fl) (simp_all add: dangling_def head_ptr_def)
  then have "alloc_page (Some m) (Some b) s
      = (STATUS_OK, word_of_nat q, set_file ino (reuse_file (Some m) q (inodes s ino)) s)"
    using s q by (intro alloc_page_head)
  moreover have "unat (word_of_nat q :: i64) = q"
    using q(1) by (intro unat_word_of_nat64) (simp add: MAX_PAGES_def)
  ultimately show ?thesis by (simp add: alloc_step_def)
qed

lemma read_step_file:
  assumes "sched s = []" and "fd_inode s (storefd b) = Some ino" and "p \<noteq> 0" and "page_fits p"
    and "Suc p * PAGESIZE \<le> flen (inodes s ino)"
  shows "read_step b s p = Some (page_at (inodes s ino) p)"
  using get_page_ok [OF assms, of zero_mem] by (auto simp: read_step_def)

text \<open>The allocations hand out the free pages, then the page behind the dangling link.\<close>

lemma alloc_many_dangling:
  "sched s = [] \<Longrightarrow> fd_inode s (storefd b) = Some ino \<Longrightarrow> dangling (inodes s ino) fl p
   \<Longrightarrow> \<exists>t. alloc_many (alloc_step (Some m) b) (Suc (length fl)) s = (fl @ [p], t)
         \<and> read_step b t p = Some (page_of m)"
proof (induction fl arbitrary: s)
  case Nil
  let ?f = "inodes s ino" and ?t = "set_file ino (reuse_file (Some m) p (inodes s ino)) s"
  have p: "p \<noteq> 0" "page_fits p" "Suc p * PAGESIZE \<le> flen ?f"
    using Nil by (auto simp: dangling_def)
  have "Suc p * PAGESIZE \<le> flen (reuse_file (Some m) p ?f)"
    by (simp add: reuse_file_def)
  then have "read_step b ?t p = Some (page_of m)"
    using Nil(1,2) p by (simp add: read_step_file page_at_reuse_same)
  then show ?case using alloc_step_head [OF Nil, of p m] by simp
next
  case (Cons q qs)
  let ?t = "set_file ino (reuse_file (Some m) q (inodes s ino)) s"
  have "dangling (inodes ?t ino) qs p"
    using dangling_reuse [OF Cons.prems(3)] by simp
  then obtain t where "alloc_many (alloc_step (Some m) b) (Suc (length qs)) ?t = (qs @ [p], t)"
    "read_step b t p = Some (page_of m)"
    using Cons.IH [of ?t] Cons.prems(1,2) by auto
  then show ?case using alloc_step_head [OF Cons.prems, of q m] by simp
qed

section \<open>What no fault can touch\<close>

text \<open>\<open>spares ino T s s'\<close>: on the way from \<open>s\<close> to \<open>s'\<close> only the pages in \<open>T\<close> of the file
  \<open>ino\<close> have been written.  It holds of every page operation under every schedule, whole,
  short and failed transfers alike.\<close>

definition spares :: "nat \<Rightarrow> nat set \<Rightarrow> os \<Rightarrow> os \<Rightarrow> bool" where
  "spares ino T s s' \<longleftrightarrow>
     fdtab s' = fdtab s \<and> flen (inodes s ino) \<le> flen (inodes s' ino) \<and>
     (\<forall>q. q \<notin> T \<longrightarrow> Suc q * PAGESIZE \<le> flen (inodes s ino)
        \<longrightarrow> page_at (inodes s' ino) q = page_at (inodes s ino) q)"

lemma spares_refl [simp]: "spares ino T s s"
  by (simp add: spares_def)

lemma spares_trans: "spares ino T s t \<Longrightarrow> spares ino T t u \<Longrightarrow> spares ino T s u"
  by (simp add: spares_def)

lemma spares_fd: "spares ino T s t \<Longrightarrow> fd_inode t fd = fd_inode s fd"
  using fd_inode_cong [of t s] by (simp add: spares_def)

lemma spares_tick: "spares ino T s (tick s)"
  by (simp add: spares_def tick_def)

lemma spares_pread: "posix_pread fd buf n off s = (r, m, s') \<Longrightarrow> spares ino T s s'"
  by (auto simp: posix_pread_def Let_def spares_tick split: option.splits if_splits)

lemma spares_lseek: "posix_lseek fd off s = (r, s') \<Longrightarrow> spares ino T s s'"
  by (auto simp: posix_lseek_def spares_tick split: if_splits)

lemma page_at_part_write:
  assumes "k \<le> PAGESIZE" and "p \<noteq> q" and "Suc q * PAGESIZE \<le> flen f"
  shows "page_at (write_file f (p * PAGESIZE) m k) q = page_at f q"
  using assms pages_apart [of p q]
  by (auto simp: page_at_def page_of_def write_file_def fun_eq_iff)

lemma spares_pwrite:
  assumes "posix_pwrite fd m PAGESIZE off s = (w, s')" and "off = page_ptr p" and "page_fits p"
    and "p \<in> T"
  shows "spares ino T s s'"
proof -
  let ?g = "\<lambda>f. write_file f (p * PAGESIZE) m (transfer (next_outcome s) PAGESIZE)"
  have "flen f \<le> flen (?g f)" for f
    by (simp add: write_file_def)
  moreover have "page_at (?g f) q = page_at f q"
    if "q \<notin> T" "Suc q * PAGESIZE \<le> flen f" for q f
    using assms(4) that transfer_le by (intro page_at_part_write) auto
  ultimately show ?thesis
    using assms(1-3)
    by (auto simp: posix_pwrite_def Let_def spares_def tick_def unat_page_ptr split: option.splits if_splits)
qed

lemma spares_put_page:
  assumes "put_page m (Some b) (word_of_nat p) s = (st, s')" and "page_fits p"
  shows "spares ino {p} s s'"
  using assms unfolding put_page_def Let_def index_to_offset_of_nat
  by (auto split: prod.splits if_splits dest!: spares_lseek spares_pwrite [OF _ refl]
      intro: spares_trans)

text \<open>A read of the metadata page that transfers the whole page delivers it.\<close>

lemma pread_full_meta:
  assumes "fd_inode s fd = Some ino" and "PAGESIZE \<le> flen (inodes s ino)"
    and "posix_pread fd zero_mem PAGESIZE 0 s = (int PAGESIZE, m, s')"
  shows "m = meta (inodes s ino)"
  using assms read_into_page [of "inodes s ino" 0]
  by (auto simp: posix_pread_def Let_def meta_def split: if_splits)

lemma spares_pwrite_meta:
  "posix_pwrite fd m PAGESIZE 0 s = (w, s') \<Longrightarrow> 0 \<in> T \<Longrightarrow> spares ino T s s'"
  by (rule spares_pwrite [of _ _ _ _ _ _ 0]) simp_all

lemma spares_free_first:
  assumes "free_first fd metadata (page_ptr p) s = (st, s')" and "page_fits p" and "p \<in> T" "0 \<in> T"
  shows "spares ino T s s'"
  using assms unfolding free_first_def Let_def index_to_offset_0
  by (auto split: prod.splits if_splits dest!: spares_pwrite_meta spares_pwrite [OF _ refl]
      intro: spares_trans)

lemma spares_free_append:
  assumes run: "free_append fd metadata (page_ptr p) s = (st, s')"
    and "mp_tail metadata = page_ptr t" and "page_fits p" "page_fits t" and "p \<in> T" "t \<in> T" "0 \<in> T"
  shows "spares ino T s s'"
  using assms unfolding free_append_def Let_def index_to_offset_0 assms(2)
  by (auto split: prod.splits if_splits dest!: spares_pwrite_meta spares_pwrite [OF _ refl]
      intro: spares_trans)

lemma spares_free_page:
  assumes run: "free_page (Some b) (word_of_nat p) s = (st, s')" and fd: "fd_inode s (storefd b) = Some ino"
    and wf: "wf_store (inodes s ino) N fl" and p: "page_fits p"
  shows "spares ino ({0, p} \<union> set fl) s s'"
proof -
  let ?T = "{0, p} \<union> set fl" and ?f = "inodes s ino"
  obtain r md s1 where b1: "posix_pread (storefd b) zero_mem PAGESIZE 0 s = (r, md, s1)"
    by (cases "posix_pread (storefd b) zero_mem PAGESIZE 0 s") auto
  have s1: "spares ino ?T s s1" using b1 by (rule spares_pread)
  show ?thesis
  proof (cases "page_ptr p = 0 \<or> r \<noteq> int PAGESIZE")
    case True
    with run b1 s1 show ?thesis
      by (auto simp: free_page_def Let_def index_to_offset_of_nat split: if_splits)
  next
    case False
    with b1 have md: "md = meta ?f"
      using pread_full_meta [OF fd wf_store_meta_in_file [OF wf]] by simp
    show ?thesis
    proof (cases fl)
      case Nil
      with wf md have "mp_head md = - 1" "mp_tail md = - 1"
        by (simp_all add: wf_store_def head_ptr_def tail_ptr_def)
      with run False b1 have "free_first (storefd b) md (page_ptr p) s1 = (st, s')"
        by (simp add: free_page_def Let_def index_to_offset_of_nat)
      then have "spares ino ?T s1 s'" using p by (rule spares_free_first) simp_all
      with s1 show ?thesis by (rule spares_trans)
    next
      case (Cons q qs)
      then have l: "last fl \<in> set fl" by simp
      then have t: "page_fits (last fl)" by (rule wf_store_free_page [OF wf])
      have m: "mp_tail md = page_ptr (last fl)"
        using wf md Cons by (simp add: wf_store_def tail_ptr_def)
      with run False b1 t have "free_append (storefd b) md (page_ptr p) s1 = (st, s')"
        using page_ptr_not_empty [OF t] by (simp add: free_page_def Let_def index_to_offset_of_nat)
      then have "spares ino ?T s1 s'" using m p t by (rule spares_free_append) (use l in simp_all)
      with s1 show ?thesis by (rule spares_trans)
    qed
  qed
qed

lemma spares_alloc_reuse:
  assumes "alloc_reuse src fd metadata s = (st, i, s')" and "mp_head metadata = page_ptr p"
    and "page_fits p" "page_fits (p * PAGESIZE)" and "reuse_target src p \<in> T" "0 \<in> T"
  shows "spares ino T s s'"
  using assms(1,3-) unfolding alloc_reuse_def Let_def index_to_offset_0 assms(2) index_to_offset_page_ptr
  by (cases src) (auto simp: reuse_target_def split: prod.splits if_splits
      dest!: spares_pread spares_pwrite_meta spares_pwrite [OF _ refl] intro: spares_trans)

lemma spares_alloc_extend:
  assumes "alloc_extend src fd metadata s = (st, i, s')" and "mp_size metadata = word_of_nat N"
    and "page_fits N" and "N \<in> T" "0 \<in> T"
  shows "spares ino T s s'"
  using assms(1,3-) unfolding alloc_extend_def Let_def index_to_offset_0 assms(2) index_to_offset_of_nat
  by (cases src) (auto split: prod.splits if_splits
      dest!: spares_pwrite_meta spares_pwrite [OF _ refl] intro: spares_trans)

lemma spares_alloc_page:
  assumes run: "alloc_page src (Some b) s = (st, i, s')" and fd: "fd_inode s (storefd b) = Some ino"
    and wf: "wf_store (inodes s ino) N fl" and T: "0 \<in> T"
    and nil: "fl = [] \<Longrightarrow> N \<in> T" and cons: "\<And>p ps. fl = p # ps \<Longrightarrow> reuse_target src p \<in> T"
  shows "spares ino T s s'"
proof -
  let ?f = "inodes s ino"
  obtain r md s1 where b1: "posix_pread (storefd b) zero_mem PAGESIZE 0 s = (r, md, s1)"
    by (cases "posix_pread (storefd b) zero_mem PAGESIZE 0 s") auto
  have s1: "spares ino T s s1" using b1 by (rule spares_pread)
  show ?thesis
  proof (cases "r = int PAGESIZE")
    case False
    with run b1 s1 show ?thesis by (auto simp: alloc_page_def)
  next
    case True
    with b1 have md: "md = meta ?f"
      using pread_full_meta [OF fd wf_store_meta_in_file [OF wf]] by simp
    show ?thesis
    proof (cases fl)
      case Nil
      with wf md have "mp_head md = - 1" "mp_size md = word_of_nat N" "page_fits N"
        by (auto simp: wf_store_def head_ptr_def)
      with run True b1 have "alloc_extend src (storefd b) md s1 = (st, i, s')"
        by (simp add: alloc_page_def EMPTY_LIST_def)
      then have "spares ino T s1 s'"
        by (rule spares_alloc_extend) (use nil [OF Nil] T \<open>mp_size md = _\<close> \<open>page_fits N\<close> in simp_all)
      with s1 show ?thesis by (rule spares_trans)
    next
      case (Cons p ps)
      have p: "p < MAX_PAGES" "page_fits p"
        using wf_store_free_page [OF wf, of p] Cons by simp_all
      have h: "mp_head md = page_ptr p"
        using wf md Cons by (simp add: wf_store_def head_ptr_def)
      with run True b1 have "alloc_reuse src (storefd b) md s1 = (st, i, s')"
        using page_ptr_not_empty [OF p(2)] by (simp add: alloc_page_def EMPTY_LIST_def)
      then have "spares ino T s1 s'" using h p(2) page_fits_scaled [OF p(1)] cons [OF Cons] T
        by (rule spares_alloc_reuse)
      with s1 show ?thesis by (rule spares_trans)
    qed
  qed
qed

text \<open>Every operation of a client spares the live pages it is not about.\<close>

lemma run_op_spares:
  assumes fd: "fd_inode s (storefd b) = Some ino" and rel: "store_rel (inodes s ino) a"
    and small: "x = PAlloc \<Longrightarrow> src = None \<Longrightarrow> ps_size a \<le> PAGESIZE"
    and q: "ps_live a q" and x: "op_avoids q x" "op_ok ps_live x a"
  shows "\<exists>T. q \<notin> T \<and> spares ino T s (run_op (alloc_step src b) (release_step b) (write_step b) x s)"
proof -
  let ?N = "ps_size a" and ?fl = "ps_free a"
  have wf: "wf_store (inodes s ino) ?N ?fl" using rel by (rule store_relD)
  have q': "q \<noteq> 0" "q < ?N" "q \<notin> set ?fl" using q by (simp_all add: ps_live_def)
  show ?thesis
  proof (cases x)
    case PAlloc
    let ?T = "{0} \<union> {p. ?N \<le> p} \<union> set ?fl"
    have "reuse_target src p \<in> ?T" if "?fl = p # ps" for p ps
    proof -
      have "1 \<le> p" using wf_store_free_page(1) [OF wf, of p] that by simp
      then have "?N \<le> p * PAGESIZE" if "src = None" using small [OF PAlloc that] by (rule scaled_beyond)
      with that show ?thesis by (cases src) (auto simp: reuse_target_def)
    qed
    moreover obtain st i s' where "alloc_page src (Some b) s = (st, i, s')"
      by (cases "alloc_page src (Some b) s") auto
    ultimately show ?thesis
      using spares_alloc_page [OF _ fd wf, of src st i s' ?T] PAlloc q'
      by (intro exI [of _ ?T]) (simp add: alloc_step_def)
  next
    case (PFree p)
    then have "page_fits p" using x(2) store_at_fits [OF rel, of p] by simp
    moreover obtain st s' where "free_page (Some b) (word_of_nat p) s = (st, s')"
      by fastforce
    ultimately show ?thesis
      using spares_free_page [OF _ fd wf, of p st s'] PFree q' x(1)
      by (intro exI [of _ "{0, p} \<union> set ?fl"]) (auto simp: release_step_def)
  next
    case (PWrite p m)
    then have "page_fits p" using x(2) store_at_fits [OF rel, of p] by simp
    moreover obtain st s' where "put_page m (Some b) (word_of_nat p) s = (st, s')"
      by fastforce
    ultimately show ?thesis
      using spares_put_page [of m b p s st s' ino] PWrite x(1)
      by (intro exI [of _ "{p}"]) (auto simp: write_step_def)
  qed
qed

section \<open>Failed releases\<close>

text \<open>
  C18: A page is only as safe as the operations on it: whatever goes wrong with the I/O of one
  allocation, or of one release or write of a held page, in any combination of failed and short
  transfers, every other page a client holds still reads back as before, once the device works
  again.  An allocation without a source needs a store of at most 4096 pages for this (in a
  larger one the reuse of a page overwrites another even without a fault); an allocation with
  a source, a release and a write need no bound.
\<close>

theorem faults_spare_other_pages:
  assumes "store_at b (calm s) a" and "x = PAlloc \<and> src = None \<longrightarrow> ps_size a \<le> PAGESIZE"
    and "ps_live a q" and "op_ok ps_live x a" and "op_avoids q x"
  shows "read_step b (calm (run_op (alloc_step src b) (release_step b) (write_step b) x s)) q
           = Some (ps_data a q)"
proof -
  let ?t = "run_op (alloc_step src b) (release_step b) (write_step b) x s"
  from assms(1) obtain ino where fd: "fd_inode s (storefd b) = Some ino"
    and rel: "store_rel (inodes s ino) a" by (auto elim: store_atE)
  obtain T where T: "q \<notin> T" "spares ino T s ?t"
    using run_op_spares [OF fd rel _ assms(3,5,4)] assms(2) by blast
  have q: "q \<noteq> 0" "page_fits q" "Suc q * PAGESIZE \<le> flen (inodes s ino)"
    using store_at_fits [OF rel assms(3)] by simp_all
  have "Suc q * PAGESIZE \<le> flen (inodes ?t ino)" "page_at (inodes ?t ino) q = page_at (inodes s ino) q"
    using T q(3) by (auto simp: spares_def)
  then show ?thesis
    using q fd spares_fd [OF T(2)] store_relD(2) [OF rel assms(3)]
    by (subst read_step_file [of _ _ ino]) simp_all
qed

text \<open>
  When the free list is empty, a release that fails after its first write destroys the page:
  the page still belongs to its owner and is not free, but its contents are gone.
\<close>

theorem failed_first_free_erases:
  assumes "store_at b (calm s) a" and "ps_live a p" and "ps_free a = []"
    and "sched s = [IO_ok, IO_ok, IO_fail]"
  shows "\<exists>s'. free_page (Some b) (word_of_nat p) s = (STATUS_BAD_WRITE, s')
     \<and> store_at b s' (ps_put p (set_fp_offset (- 1) zero_mem) a)"
proof -
  from assms(1) obtain ino where fd: "fd_inode s (storefd b) = Some ino"
    and rel: "store_rel (inodes s ino) a" by (auto elim: store_atE)
  let ?m = "set_fp_offset (- 1) zero_mem"
  have wf: "wf_store (inodes s ino) (ps_size a) []"
    using store_relD(1) [OF rel] assms(3) by simp
  have p: "p \<noteq> 0" "page_fits p" using store_at_fits [OF rel assms(2)] by simp_all
  have "put_page ?m (Some b) (word_of_nat p) (calm s)
      = (STATUS_OK, set_file ino (write_page (inodes s ino) p ?m) (calm s))"
    using put_page_ok [of "calm s" b ino p ?m] fd p by simp
  then have "store_at b (set_file ino (write_page (inodes s ino) p ?m) (calm s)) (ps_put p ?m a)"
    using sim_put [OF assms(1,2), of ?m] by auto
  then show ?thesis
    using free_page_second_write_fails [OF fd assms(4) wf p] by (simp add: broken_file_def)
qed

text \<open>
  C15: A release that fails after its first write, when other pages are free, leaves the page on
  the free list: the call reports the failure and the page keeps its contents, but the
  allocations that follow return the free pages and then the page itself, which its owner
  still holds, and overwrite it.
\<close>

theorem failed_free_hands_out_live_page:
  assumes "store_at b (calm s) a" and "ps_live a p" and "ps_free a \<noteq> []"
    and "sched s = [IO_ok, IO_ok, IO_fail]"
  shows "\<exists>s1 s2. free_page (Some b) (word_of_nat p) s = (STATUS_BAD_WRITE, s1)
     \<and> read_step b s1 p = Some (ps_data a p)
     \<and> alloc_many (alloc_step (Some m) b) (Suc (length (ps_free a))) s1 = (ps_free a @ [p], s2)
     \<and> read_step b s2 p = Some (page_of m)"
proof -
  from assms(1) obtain ino where fd: "fd_inode s (storefd b) = Some ino"
    and rel: "store_rel (inodes s ino) a" by (auto elim: store_atE)
  let ?fl = "ps_free a" and ?f = "inodes s ino"
  let ?s1 = "set_file ino (broken_file ?fl p ?f) (calm s)"
  have wf: "wf_store ?f (ps_size a) ?fl" using rel by (rule store_relD)
  have p: "p \<noteq> 0" "page_fits p" "Suc p * PAGESIZE \<le> flen ?f" "1 \<le> p" "p < ps_size a" "p \<notin> set ?fl"
    using store_at_fits [OF rel assms(2)] assms(2) by (simp_all add: ps_live_def)
  have "last ?fl \<noteq> p" using p(6) assms(3) last_in_set by metis
  then have "page_at (broken_file ?fl p ?f) p = ps_data a p" "flen ?f \<le> flen (broken_file ?fl p ?f)"
    using p(3) assms(3) store_relD(2) [OF rel assms(2)]
    by (simp_all add: broken_file_def page_at_write_other)
  then have rd: "read_step b ?s1 p = Some (ps_data a p)"
    using fd p(1-3) by (subst read_step_file [of _ _ ino]) simp_all
  have "dangling (broken_file ?fl p ?f) ?fl p"
    using wf assms(3) p(4-6) by (rule dangling_broken_file)
  then obtain s2 where "alloc_many (alloc_step (Some m) b) (Suc (length ?fl)) ?s1 = (?fl @ [p], s2)"
    "read_step b s2 p = Some (page_of m)"
    using alloc_many_dangling [of ?s1 b ino ?fl p m] fd by auto
  with rd free_page_second_write_fails [OF fd assms(4) wf p(1,2)] show ?thesis by blast
qed

section \<open>Witnesses\<close>

text \<open>\<open>crash_os\<close>: page 1 is free and page 2 is held.\<close>

definition crash_os :: os where
  "crash_os = release_step demo_b 1 (snd (alloc_step None demo_b demo1))"

definition crash_a :: pstore where
  "crash_a = ps_release 1 (snd (ps_alloc None demo_a1))"

definition faulty :: "os \<Rightarrow> os" where
  "faulty s = s\<lparr>sched := [IO_ok, IO_ok, IO_fail]\<rparr>"

lemma crash_store: "store_at demo_b crash_os crash_a"
proof -
  let ?a = "snd (ps_alloc None demo_a1)"
  obtain s where s: "alloc_page None (Some demo_b) demo1 = (STATUS_OK, word_of_nat 2, s)"
    "store_at demo_b s ?a"
    using sim_alloc_nil [OF demo1_store, of None] by (auto simp: demo_a1_def MAX_PAGES_def)
  have "ps_live ?a 1" by (simp add: ps_alloc_def demo_a1_def ps_live_def)
  then show ?thesis
    using sim_free [OF s(2), of 1] s(1) by (auto simp: crash_os_def crash_a_def alloc_step_def release_step_def)
qed

lemma crash_pages: "ps_free crash_a = [1]" "ps_live crash_a 2" "ps_size crash_a = 3"
  by (simp_all add: crash_a_def ps_release_def ps_alloc_def demo_a1_def ps_live_def)

lemma sched_faulty [simp]: "sched (faulty s) = [IO_ok, IO_ok, IO_fail]"
  by (simp add: faulty_def)

lemma calm_faulty: "store_at b s a \<Longrightarrow> calm (faulty s) = s"
  by (simp add: calm_def faulty_def store_at_def)

theorem faults_spare_other_pages_witness:
  "read_step demo_b (calm (snd (alloc_step None demo_b (faulty crash_os)))) 2 = Some (ps_data crash_a 2)"
  using faults_spare_other_pages [of demo_b "faulty crash_os" crash_a PAlloc None 2]
    crash_store crash_pages calm_faulty [OF crash_store] by (simp add: PAGESIZE_def)

theorem failed_first_free_erases_witness:
  "\<exists>s'. free_page (Some demo_b) 1 (faulty demo1) = (STATUS_BAD_WRITE, s')
     \<and> store_at demo_b s' (ps_put 1 (set_fp_offset (- 1) zero_mem) demo_a1)"
  using failed_first_free_erases [of demo_b "faulty demo1" demo_a1 1]
    demo1_store demo1_live(1) calm_faulty [OF demo1_store] by (simp add: demo_a1_def)

theorem failed_free_hands_out_live_page_witness:
  "\<exists>s1 s2. free_page (Some demo_b) 2 (faulty crash_os) = (STATUS_BAD_WRITE, s1)
     \<and> alloc_many (alloc_step (Some (\<lambda>_. 65)) demo_b) 2 s1 = ([1, 2], s2)
     \<and> read_step demo_b s2 2 = Some (page_of (\<lambda>_. 65))"
  using failed_free_hands_out_live_page [of demo_b "faulty crash_os" crash_a 2 "\<lambda>_. 65"]
    crash_store crash_pages calm_faulty [OF crash_store] by (auto simp: numeral_2_eq_2)

end
