(* ===== verification/StoreSuccess.thy ===== *)
theory StoreSuccess
  imports StoreCrash
begin

text \<open>
  Reported success.  An operation of \<open>fileio.c\<close> that returns \<open>STATUS_OK\<close> has checked every
  call it made, so that under every schedule of faults it has done what it does without
  faults.  The lemmas \<open>*_calm\<close> show this call by call, the property for the operations.
\<close>

section \<open>Calls\<close>

lemma calm_tick: "tick (calm s) = calm s" "calm (tick s) = calm s"
  by (simp_all add: tick_def calm_def)

lemma calm_updates [simp]:
  "calm (s\<lparr>inodes := x\<rparr>) = (calm s)\<lparr>inodes := x\<rparr>" "calm (s\<lparr>fdtab := t\<rparr>) = (calm s)\<lparr>fdtab := t\<rparr>"
  "calm (s\<lparr>names := n\<rparr>) = (calm s)\<lparr>names := n\<rparr>" "calm (s\<lparr>next_inode := k\<rparr>) = (calm s)\<lparr>next_inode := k\<rparr>"
  "names (calm s) = names s" "fdtab (calm s) = fdtab s" "next_inode (calm s) = next_inode s"
  "next_outcome (calm s) = IO_ok" "calm (calm s) = calm s" "calm (set_file ino f s) = set_file ino f (calm s)"
  by (simp_all add: calm_def next_outcome_def set_file_def)

lemma transfer_all: "transfer out (min n k) = n \<Longrightarrow> min n k = n \<and> transfer out n = n"
  using transfer_le [of out "min n k"] by (auto simp: min_def split: if_splits)

lemma pread_calm:
  assumes "posix_pread fd buf n off s = (r, m, s')" and "r = int n"
  shows "posix_pread fd buf n off (calm s) = (r, m, calm s')"
  using assms
  by (auto simp: posix_pread_def Let_def calm_tick split: option.splits if_splits dest!: transfer_all)

lemma pwrite_calm:
  assumes "posix_pwrite fd buf n off s = (r, s')" and "r = int n"
  shows "posix_pwrite fd buf n off (calm s) = (r, calm s')"
  using assms
  by (auto simp: posix_pwrite_def Let_def calm_tick split: option.splits if_splits)

lemma lseek_calm:
  assumes "posix_lseek fd off s = (r, s')" and "r \<noteq> - 1"
  shows "posix_lseek fd off (calm s) = (r, calm s')"
  using assms by (auto simp: posix_lseek_def calm_tick split: if_splits)

lemma fresh_fd_calm: "fresh_fd s ino = (fd, s') \<Longrightarrow> fresh_fd (calm s) ino = (fd, calm s')"
  by (auto simp: fresh_fd_def)

lemma open_calm:
  assumes "posix_open name s = (fd, s')" and "fd \<noteq> - 1"
  shows "posix_open name (calm s) = (fd, calm s')"
  using assms fresh_fd_calm [of "tick s"]
  by (auto simp: posix_open_def calm_tick split: option.splits if_splits)

lemma open_creat_calm:
  assumes "posix_open_creat name s = (fd, s')" and "fd \<noteq> - 1"
  shows "posix_open_creat name (calm s) = (fd, calm s')"
  using assms
  by (auto simp: posix_open_creat_def calm_tick fresh_fd_def split: option.splits if_splits)

lemma close_calm:
  assumes "posix_close fd s = (r, s')" and "r = 0"
  shows "posix_close fd (calm s) = (r, calm s')"
  using assms by (auto simp: posix_close_def calm_tick split: option.splits if_splits)

lemma remove_calm:
  assumes "posix_remove name s = (r, s')" and "r = 0"
  shows "posix_remove name (calm s) = (r, calm s')"
  using assms by (auto simp: posix_remove_def calm_tick split: option.splits if_splits)

section \<open>Operations\<close>

lemma alloc_reuse_calm:
  assumes run: "alloc_reuse src fd metadata s = (STATUS_OK, i, s')"
  shows "alloc_reuse src fd metadata (calm s) = (STATUS_OK, i, calm s')"
proof -
  obtain r m s1 where 1: "posix_pread fd zero_mem SIZEOF_FREEPAGE (mp_head metadata) s = (r, m, s1)"
    by (cases "posix_pread fd zero_mem SIZEOF_FREEPAGE (mp_head metadata) s") auto
  let ?data = "case src of None \<Rightarrow> zero_mem | Some page \<Rightarrow> page"
  let ?off = "case src of None \<Rightarrow> index_to_offset (mp_head metadata) | Some _ \<Rightarrow> mp_head metadata"
  obtain w s2 where 2: "posix_pwrite fd ?data PAGESIZE ?off s1 = (w, s2)" by fastforce
  obtain mw s3 where 3: "posix_pwrite fd (unlink_head metadata (fp_offset m)) PAGESIZE (index_to_offset 0) s2 = (mw, s3)"
    by fastforce
  from run 1 2 3 have ok: "r = int SIZEOF_FREEPAGE" "w = int PAGESIZE" "mw = int PAGESIZE"
    "i = offset_to_index (mp_head metadata)" "s' = s3"
    by (cases src; simp add: alloc_reuse_def Let_def split: if_splits)+
  show ?thesis
    using pread_calm [OF 1 ok(1)] pwrite_calm [OF 2 ok(2)] pwrite_calm [OF 3 ok(3)] ok
    by (cases src) (simp_all add: alloc_reuse_def Let_def)
qed

lemma alloc_extend_calm:
  assumes run: "alloc_extend src fd metadata s = (STATUS_OK, i, s')"
  shows "alloc_extend src fd metadata (calm s) = (STATUS_OK, i, calm s')"
proof -
  let ?off = "index_to_offset (mp_size metadata)"
  obtain bw s1 where 1: "posix_pwrite fd zero_mem PAGESIZE ?off s = (bw, s1)" by fastforce
  obtain dw s2 where 2: "(case src of Some page \<Rightarrow> posix_pwrite fd page PAGESIZE ?off s1
      | None \<Rightarrow> (int PAGESIZE, s1)) = (dw, s2)" by fastforce
  let ?m = "set_mp_size (mp_size metadata + 1) metadata"
  obtain mw s3 where 3: "posix_pwrite fd ?m PAGESIZE (index_to_offset 0) s2 = (mw, s3)" by fastforce
  from run have ok: "bw = int PAGESIZE" "dw = int PAGESIZE" "mw = int PAGESIZE"
    "i = mp_size metadata" "s' = s3"
    by (simp_all only: alloc_extend_def Let_def 1 2 3 prod.case) (simp_all split: if_splits)
  have w: "(case src of Some page \<Rightarrow> posix_pwrite fd page PAGESIZE ?off (calm s1)
      | None \<Rightarrow> (int PAGESIZE, calm s1)) = (dw, calm s2)"
    using 2 ok(2) pwrite_calm by (auto split: option.splits)
  show ?thesis
    using ok by (simp only: alloc_extend_def Let_def pwrite_calm [OF 1 ok(1)] w pwrite_calm [OF 3 ok(3)] prod.case)
      simp
qed

lemma alloc_page_calm:
  assumes run: "alloc_page src store s = (STATUS_OK, i, s')"
  shows "alloc_page src store (calm s) = (STATUS_OK, i, calm s')"
proof -
  from run obtain b where b: "store = Some b" by (cases store) (simp_all add: alloc_page_def)
  obtain r m s1 where 1: "posix_pread (storefd b) zero_mem PAGESIZE (index_to_offset 0) s = (r, m, s1)"
    by (cases "posix_pread (storefd b) zero_mem PAGESIZE (index_to_offset 0) s") auto
  from run 1 b have r: "r = int PAGESIZE" by (simp add: alloc_page_def split: if_splits)
  show ?thesis
    using run 1 b pread_calm [OF 1 r] r
    by (auto simp: alloc_page_def intro: alloc_reuse_calm alloc_extend_calm split: if_splits)
qed

lemma free_first_calm:
  assumes run: "free_first fd metadata loc s = (STATUS_OK, s')"
  shows "free_first fd metadata loc (calm s) = (STATUS_OK, calm s')"
proof -
  obtain fw s1 where 1: "posix_pwrite fd (set_fp_offset (- 1) zero_mem) PAGESIZE loc s = (fw, s1)" by fastforce
  obtain mw s2 where 2: "posix_pwrite fd (set_mp_tail loc (set_mp_head loc metadata)) PAGESIZE (index_to_offset 0) s1
      = (mw, s2)" by fastforce
  from run have ok: "fw = int PAGESIZE" "mw = int PAGESIZE" "s' = s2"
    by (simp_all only: free_first_def Let_def 1 2 prod.case) (simp_all split: if_splits)
  show ?thesis
    using ok by (simp only: free_first_def Let_def pwrite_calm [OF 1 ok(1)] pwrite_calm [OF 2 ok(2)] prod.case) simp
qed

lemma free_append_calm:
  assumes run: "free_append fd metadata loc s = (STATUS_OK, s')"
  shows "free_append fd metadata loc (calm s) = (STATUS_OK, calm s')"
proof -
  obtain ow s1 where 1: "posix_pwrite fd (set_fp_offset loc zero_mem) PAGESIZE (mp_tail metadata) s = (ow, s1)"
    by fastforce
  obtain fw s2 where 2: "posix_pwrite fd (set_fp_offset (- 1) zero_mem) PAGESIZE loc s1 = (fw, s2)" by fastforce
  obtain mw s3 where 3: "posix_pwrite fd (set_mp_tail loc metadata) PAGESIZE (index_to_offset 0) s2 = (mw, s3)"
    by fastforce
  from run have ok: "ow = int PAGESIZE" "fw = int PAGESIZE" "mw = int PAGESIZE" "s' = s3"
    by (simp_all only: free_append_def Let_def 1 2 3 prod.case) (simp_all split: if_splits)
  show ?thesis
    using ok by (simp only: free_append_def Let_def pwrite_calm [OF 1 ok(1)] pwrite_calm [OF 2 ok(2)]
        pwrite_calm [OF 3 ok(3)] prod.case) simp
qed

lemma free_page_calm:
  assumes run: "free_page store index s = (STATUS_OK, s')"
  shows "free_page store index (calm s) = (STATUS_OK, calm s')"
proof -
  from run obtain b where b: "store = Some b" "index_to_offset index \<noteq> 0"
    by (cases store) (simp_all add: free_page_def Let_def split: if_splits)
  obtain r m s1 where 1: "posix_pread (storefd b) zero_mem PAGESIZE (index_to_offset 0) s = (r, m, s1)"
    by (cases "posix_pread (storefd b) zero_mem PAGESIZE (index_to_offset 0) s") auto
  from run 1 b have r: "r = int PAGESIZE" by (simp add: free_page_def Let_def split: if_splits)
  show ?thesis
    using run 1 b pread_calm [OF 1 r] r
    by (auto simp: free_page_def Let_def intro: free_first_calm free_append_calm split: if_splits)
qed

lemma get_page_calm:
  assumes run: "get_page dest store index s = (STATUS_OK, d, s')"
  shows "get_page dest store index (calm s) = (STATUS_OK, d, calm s')"
proof -
  from run obtain b where b: "store = Some b" "index_to_offset index \<noteq> 0"
    by (cases store) (simp_all add: get_page_def Let_def split: if_splits)
  obtain l s1 where 1: "posix_lseek (storefd b) (index_to_offset index) s = (l, s1)" by fastforce
  obtain r m s2 where 2: "posix_pread (storefd b) dest PAGESIZE (index_to_offset index) s1 = (r, m, s2)"
    by (cases "posix_pread (storefd b) dest PAGESIZE (index_to_offset index) s1") auto
  from run 1 2 b have ok: "l \<noteq> - 1" "r = int PAGESIZE" "m = d" "s2 = s'"
    by (simp_all add: get_page_def Let_def split: if_splits)
  show ?thesis
    using b ok lseek_calm [OF 1 ok(1)] pread_calm [OF 2 ok(2)] by (simp add: get_page_def Let_def)
qed

lemma put_page_calm:
  assumes run: "put_page m store index s = (STATUS_OK, s')"
  shows "put_page m store index (calm s) = (STATUS_OK, calm s')"
proof -
  from run obtain b where b: "store = Some b" "index_to_offset index \<noteq> 0"
    by (cases store) (simp_all add: put_page_def Let_def split: if_splits)
  obtain l s1 where 1: "posix_lseek (storefd b) (index_to_offset index) s = (l, s1)" by fastforce
  obtain w s2 where 2: "posix_pwrite (storefd b) m PAGESIZE (index_to_offset index) s1 = (w, s2)" by fastforce
  from run 1 2 b have ok: "l \<noteq> - 1" "w = int PAGESIZE" "s2 = s'"
    by (simp_all add: put_page_def Let_def split: if_splits)
  show ?thesis
    using b ok lseek_calm [OF 1 ok(1)] pwrite_calm [OF 2 ok(2)] by (simp add: put_page_def Let_def)
qed

lemma open_backing_calm:
  assumes run: "open_backing name store s = Inr (STATUS_OK, b, s')"
  shows "open_backing name store (calm s) = Inr (STATUS_OK, b, calm s')"
proof -
  from run obtain b0 where b0: "store = Some b0" by (cases store) (simp_all add: open_backing_def)
  obtain fd s1 where 1: "posix_open (store_filename name) s = (fd, s1)" by fastforce
  from run 1 b0 have ok: "fd \<noteq> - 1" "b = b0\<lparr>storefd := fd\<rparr>" "s' = s1"
    by (auto simp: open_backing_def Let_def split: if_splits prod.splits)
  show ?thesis using b0 ok open_calm [OF 1 ok(1)] by (simp add: open_backing_def Let_def)
qed

lemma create_backing_calm:
  assumes run: "create_new_backing name store s = Inr (STATUS_OK, b, s')"
  shows "create_new_backing name store (calm s) = Inr (STATUS_OK, b, calm s')"
proof -
  from run obtain b0 where b0: "store = Some b0" by (cases store) (simp_all add: create_new_backing_def)
  obtain fd s1 where 1: "posix_open_creat (store_filename name) s = (fd, s1)" by fastforce
  let ?m = "set_mp_tail (- 1) (set_mp_head (- 1) (set_mp_size 1 zero_mem))"
  obtain w s2 where 2: "posix_pwrite fd ?m PAGESIZE (index_to_offset 0) s1 = (w, s2)" by fastforce
  from run 1 2 b0 have ok: "fd \<noteq> - 1" "w = int PAGESIZE" "b = b0\<lparr>storefd := fd\<rparr>" "s' = s2"
    by (auto simp: create_new_backing_def Let_def split: if_splits prod.splits)
  show ?thesis
    using b0 ok open_creat_calm [OF 1 ok(1)] pwrite_calm [OF 2 ok(2)]
    by (simp add: create_new_backing_def Let_def)
qed

lemma close_backing_calm:
  "close_backing store s = (STATUS_OK, s') \<Longrightarrow> close_backing store (calm s) = (STATUS_OK, calm s')"
  by (auto simp: close_backing_def close_calm split: option.splits prod.splits if_splits)

lemma remove_backing_calm:
  "remove_backing name s = (STATUS_OK, s') \<Longrightarrow> remove_backing name (calm s) = (STATUS_OK, calm s')"
  by (cases "posix_remove (store_filename name) s")
    (auto simp: remove_backing_def remove_calm split: if_splits)

section \<open>Property\<close>

text \<open>
  C10: Success can be trusted: under every schedule of failed and short transfers, an operation of
  the store that returns \<open>STATUS_OK\<close> has had the same result and left the same files,
  directory and descriptors as it has without any fault.
\<close>

theorem success_is_fault_free:
  "(alloc_page src store s = (STATUS_OK, i, s') \<longrightarrow> alloc_page src store (calm s) = (STATUS_OK, i, calm s'))
   \<and> (free_page store index s = (STATUS_OK, s') \<longrightarrow> free_page store index (calm s) = (STATUS_OK, calm s'))
   \<and> (get_page d store index s = (STATUS_OK, d', s') \<longrightarrow>
        get_page d store index (calm s) = (STATUS_OK, d', calm s'))
   \<and> (put_page d store index s = (STATUS_OK, s') \<longrightarrow> put_page d store index (calm s) = (STATUS_OK, calm s'))
   \<and> (create_new_backing name store s = Inr (STATUS_OK, b, s') \<longrightarrow>
        create_new_backing name store (calm s) = Inr (STATUS_OK, b, calm s'))
   \<and> (open_backing name store s = Inr (STATUS_OK, b, s') \<longrightarrow>
        open_backing name store (calm s) = Inr (STATUS_OK, b, calm s'))
   \<and> (close_backing store s = (STATUS_OK, s') \<longrightarrow> close_backing store (calm s) = (STATUS_OK, calm s'))
   \<and> (remove_backing name s = (STATUS_OK, s') \<longrightarrow> remove_backing name (calm s) = (STATUS_OK, calm s'))"
  by (intro conjI impI) (rule alloc_page_calm free_page_calm get_page_calm put_page_calm
      create_backing_calm open_backing_calm close_backing_calm remove_backing_calm; assumption)+

text \<open>A write under a schedule of a transfer that is long enough, before a failure.\<close>

theorem success_is_fault_free_witness:
  "\<exists>s'. put_page (\<lambda>_. 7) (Some demo_b) 1 (demo1\<lparr>sched := [IO_ok, IO_short 4096, IO_fail]\<rparr>) = (STATUS_OK, s')
     \<and> put_page (\<lambda>_. 7) (Some demo_b) 1 demo1 = (STATUS_OK, calm s')"
proof -
  let ?s = "demo1\<lparr>sched := [IO_ok, IO_short 4096, IO_fail]\<rparr>"
  obtain ino where fd: "fd_inode demo1 (storefd demo_b) = Some ino" and q: "sched demo1 = []"
    using demo1_store by (rule store_atE)
  have p: "page_fits 1" "page_ptr 1 \<noteq> 0" "index_to_offset 1 = page_ptr 1"
    using page_ptr_inj [of 1 0] index_to_offset_of_nat [of 1] by (simp_all add: page_fits_MAX MAX_PAGES_def)
  have c: "calm ?s = demo1" using q by (simp add: calm_def)
  have "\<exists>s'. put_page (\<lambda>_. 7) (Some demo_b) 1 ?s = (STATUS_OK, s')"
    using fd p by (simp add: put_page_def posix_lseek_def posix_pwrite_def next_outcome_def tick_def
        sint_page_ptr Let_def PAGESIZE_def)
  then show ?thesis
    using success_is_fault_free [of None "Some demo_b" ?s 0 _ 1 "\<lambda>_. 7" zero_mem "[]" demo_b] c by auto
qed

end
