(* ===== verification/StoreRetry.thy ===== *)
theory StoreRetry
  imports StoreSuccess "HOL-Library.Sublist"
begin

text \<open>
  A client that repeats a failed page operation until it succeeds.  Calls fail as a whole here
  (\<open>all_or_nothing\<close>), any number of them, in any order.  Allocation without a source, release
  and transfer are then safe to repeat: what a failed attempt leaves behind is repaired by
  the one that succeeds.  The interfaces of the page layer, proved for the fault-free store
  by \<open>fio\<close> and \<open>fioq\<close>, are proved again for the repeating client (\<open>rio\<close>), so that every
  lemma about sessions holds under faults.
\<close>

section \<open>Repeating an operation\<close>

primrec retry :: "nat \<Rightarrow> (os \<Rightarrow> status \<times> 'r \<times> os) \<Rightarrow> os \<Rightarrow> ('r \<times> os) option" where
  "retry 0 op s = None"
| "retry (Suc n) op s =
     (case op s of (st, r, s') \<Rightarrow> if st = STATUS_OK then Some (r, s') else retry n op s')"

text \<open>An operation whose failures keep an invariant and use up the schedule is repeated at
  most once per entry of the schedule.\<close>

lemma retry_ends:
  assumes "I s" and "length (sched s) < fuel"
    and step: "\<And>s st r s'. I s \<Longrightarrow> op s = (st, r, s') \<Longrightarrow> st \<noteq> STATUS_OK
      \<Longrightarrow> I s' \<and> length (sched s') < length (sched s)"
  shows "\<exists>t r s'. I t \<and> op t = (STATUS_OK, r, s') \<and> retry fuel op s = Some (r, s')"
  using assms(1,2)
proof (induction fuel arbitrary: s)
  case 0
  then show ?case by simp
next
  case (Suc n)
  obtain st r s' where op: "op s = (st, r, s')" by (cases "op s") auto
  show ?case
  proof (cases "st = STATUS_OK")
    case True
    with Suc.prems op show ?thesis by auto
  next
    case False
    with step [OF Suc.prems(1) op] Suc.prems(2) have "I s'" "length (sched s') < n" by simp_all
    from Suc.IH [OF this] False op show ?thesis by simp
  qed
qed

section \<open>The schedule\<close>

lemma sched_io:
  "posix_pread fd buf n off s = (r, m, s1) \<Longrightarrow> sched s1 = tl (sched s)"
  "posix_pwrite fd buf n off s = (w, s1) \<Longrightarrow> sched s1 = tl (sched s)"
  "posix_lseek fd off s = (l, s1) \<Longrightarrow> sched s1 = tl (sched s)"
  by (auto simp: posix_pread_def posix_pwrite_def posix_lseek_def Let_def tick_def
      split: option.splits if_splits)

lemma suffix_tl_tl: "suffix xs (tl ys) \<Longrightarrow> suffix (tl xs) (tl ys)"
  by (cases xs) (auto simp: suffix_def)

lemma later_alloc_reuse:
  "alloc_reuse src fd md s = (st, i, s') \<Longrightarrow> suffix (sched s') (tl (sched s))"
  unfolding alloc_reuse_def Let_def
  by (cases src) (auto split: prod.splits if_splits dest!: sched_io intro!: suffix_tl_tl)

lemma later_alloc_extend:
  "alloc_extend src fd md s = (st, i, s') \<Longrightarrow> suffix (sched s') (tl (sched s))"
  unfolding alloc_extend_def Let_def
  by (cases src) (auto split: prod.splits if_splits dest!: sched_io intro!: suffix_tl_tl)

lemma suffix_of_tl: "suffix xs (tl ys) \<Longrightarrow> suffix xs ys"
  by (cases ys) (auto simp: suffix_Cons)

lemma later_alloc_page:
  "alloc_page src (Some b) s = (st, i, s') \<Longrightarrow> suffix (sched s') (tl (sched s))"
  unfolding alloc_page_def
  by (auto split: prod.splits if_splits dest!: sched_io later_alloc_reuse later_alloc_extend
      intro: suffix_of_tl)

lemma later_free_page:
  "free_page (Some b) index s = (st, s') \<Longrightarrow> index_to_offset index \<noteq> 0 \<Longrightarrow> suffix (sched s') (tl (sched s))"
  unfolding free_page_def free_first_def free_append_def Let_def
  by (auto split: prod.splits if_splits dest!: sched_io intro!: suffix_tl_tl)

lemma later_put_page:
  "put_page m (Some b) index s = (st, s') \<Longrightarrow> index_to_offset index \<noteq> 0 \<Longrightarrow> suffix (sched s') (tl (sched s))"
  unfolding put_page_def Let_def
  by (auto split: prod.splits if_splits dest!: sched_io intro!: suffix_tl_tl)

lemma later_get_page:
  "get_page d (Some b) index s = (st, m, s') \<Longrightarrow> index_to_offset index \<noteq> 0 \<Longrightarrow> suffix (sched s') (tl (sched s))"
  unfolding get_page_def Let_def
  by (auto split: prod.splits if_splits dest!: sched_io intro!: suffix_tl_tl)

lemma later_all_or_nothing: "suffix (sched s') (tl (sched s)) \<Longrightarrow> all_or_nothing s \<Longrightarrow> all_or_nothing s'"
  using set_mono_suffix [of "sched s'" "tl (sched s)"] list.set_sel(2) [of "sched s"]
  by (cases "sched s") (auto simp: all_or_nothing_def)

lemma later_shorter: "suffix (sched s') (tl (sched s)) \<Longrightarrow> sched s \<noteq> [] \<Longrightarrow> length (sched s') < length (sched s)"
  using suffix_length_le [of "sched s'" "tl (sched s)"] by (cases "sched s") simp_all

section \<open>Failed allocations\<close>

lemma pread_inodes: "posix_pread fd buf n off s = (r, m, s') \<Longrightarrow> inodes s' = inodes s"
  by (auto simp: posix_pread_def Let_def tick_def split: option.splits if_splits)

lemma pread_keeps_all_or_nothing:
  assumes "posix_pread fd buf n off s = (r, m, s')" and "all_or_nothing s"
  shows "all_or_nothing s' \<and> inodes s' = inodes s \<and> (\<forall>fd. fd_inode s' fd = fd_inode s fd)"
  using assms later_all_or_nothing [of s' s] sched_io(1) [OF assms(1)] pread_inodes [OF assms(1)]
    keeps_pread [OF assms(1)] fd_inode_cong [of s' s] by (auto simp: keeps_def)

text \<open>Without a source the reuse branch writes beyond the store before it writes the metadata.\<close>

lemma alloc_reuse_blank_failure:
  assumes s: "all_or_nothing s" "fd_inode s fd = Some ino" "store_rel (inodes s ino) a"
    and md: "mp_head md = page_ptr p" and q: "ps_size a \<le> p * PAGESIZE" "page_fits (p * PAGESIZE)"
    and run: "alloc_reuse None fd md s = (st, i, s')" and bad: "st \<noteq> STATUS_OK"
  shows "store_rel (inodes s' ino) a"
proof -
  obtain r m s1 where 1: "posix_pread fd zero_mem SIZEOF_FREEPAGE (page_ptr p) s = (r, m, s1)"
    by (cases "posix_pread fd zero_mem SIZEOF_FREEPAGE (page_ptr p) s") auto
  have s1: "all_or_nothing s1" "fd_inode s1 fd = Some ino" "store_rel (inodes s1 ino) a"
    using pread_keeps_all_or_nothing [OF 1 s(1)] s by simp_all
  obtain w s2 where 2: "posix_pwrite fd zero_mem PAGESIZE (page_ptr (p * PAGESIZE)) s1 = (w, s2)" by fastforce
  have s2: "all_or_nothing s2" "fd_inode s2 fd = Some ino" "store_rel (inodes s2 ino) a"
    using pwrite_beyond [OF s1 q 2] by simp_all
  let ?m = "unlink_head md (fp_offset m)"
  obtain mw s3 where 3: "posix_pwrite fd ?m PAGESIZE (index_to_offset 0) s2 = (mw, s3)" by fastforce
  have s3: "mw = int PAGESIZE \<or> inodes s3 = inodes s2"
    using pwrite_page_all_or_nothing [OF s2(1,2) page_fits_0, of ?m mw s3] 3 by auto
  have "alloc_reuse None fd md s =
      (if r \<noteq> int SIZEOF_FREEPAGE then (STATUS_BAD_READ, ERR_SET, s1)
       else if w \<noteq> int PAGESIZE then (STATUS_BAD_WRITE, ERR_SET, s2)
       else if mw \<noteq> int PAGESIZE then (STATUS_BAD_WRITE, ERR_SET, s3)
       else (STATUS_OK, offset_to_index (page_ptr p), s3))"
    by (simp only: alloc_reuse_def Let_def md index_to_offset_page_ptr 1 2 3 prod.case option.case)
  then show ?thesis
    using run bad s1(3) s2(3) s3 by (auto split: if_splits)
qed

lemma alloc_blank_failure:
  assumes s: "all_or_nothing s" "fd_inode s (storefd b) = Some ino" "store_rel (inodes s ino) a"
    and small: "ps_size a \<le> PAGESIZE"
    and run: "alloc_page None (Some b) s = (st, i, s')" and bad: "st \<noteq> STATUS_OK"
  shows "store_rel (inodes s' ino) a"
proof (cases "ps_free a")
  case Nil
  show ?thesis using s Nil run bad by (rule alloc_page_extend_failure)
next
  case (Cons p ps)
  have wf: "wf_store (inodes s ino) (ps_size a) (p # ps)" using store_relD(1) [OF s(3)] Cons by simp
  have p: "1 \<le> p" "p < MAX_PAGES" "page_fits p"
    using wf_store_free_page [OF wf, of p] by simp_all
  obtain r m s1 where 1: "posix_pread (storefd b) zero_mem PAGESIZE 0 s = (r, m, s1)"
    by (cases "posix_pread (storefd b) zero_mem PAGESIZE 0 s") auto
  note s1 = pread_all_or_nothing [OF s(1,2) wf_store_meta_in_file [OF wf] 1]
  show ?thesis
  proof (cases "r = int PAGESIZE")
    case False
    with run 1 s1 s(3) show ?thesis by (auto simp: alloc_page_def)
  next
    case True
    then have h: "mp_head m = page_ptr p" using s1 wf by (simp add: wf_store_def head_ptr_def)
    with run 1 True have r: "alloc_reuse None (storefd b) m s1 = (st, i, s')"
      using page_ptr_not_empty [OF p(3)] by (simp add: alloc_page_def EMPTY_LIST_def)
    have "all_or_nothing s1" "fd_inode s1 (storefd b) = Some ino" "store_rel (inodes s1 ino) a"
      using s1 s(3) by simp_all
    then show ?thesis
      using h scaled_beyond [OF p(1) small] page_fits_scaled [OF p(2)] r bad by (rule alloc_reuse_blank_failure)
  qed
qed

section \<open>Failed releases\<close>

text \<open>
  What failed attempts to release \<open>p\<close> leave: a file that differs from a good one in the page
  itself and in the last free page only.
\<close>

definition halfway :: "regfile \<Rightarrow> pstore \<Rightarrow> nat \<Rightarrow> bool" where
  "halfway f a p \<longleftrightarrow> ps_live a p \<and>
     (\<exists>g. store_rel g a \<and> meta f = meta g \<and> flen g \<le> flen f \<and>
        (\<forall>q. q \<noteq> 0 \<and> q < ps_size a \<and> q \<noteq> p \<and> (ps_free a = [] \<or> q \<noteq> last (ps_free a))
           \<longrightarrow> page_at f q = page_at g q))"

lemma halfway_start: "store_rel f a \<Longrightarrow> ps_live a p \<Longrightarrow> halfway f a p"
  by (auto simp: halfway_def)

lemma halfway_facts:
  assumes "halfway f a p"
  shows "mp_head (meta f) = head_ptr (ps_free a)" "mp_tail (meta f) = tail_ptr (ps_free a)"
    "PAGESIZE \<le> flen f" "p \<noteq> 0" "page_fits p"
    "ps_free a \<noteq> [] \<Longrightarrow> page_fits (last (ps_free a)) \<and> last (ps_free a) \<noteq> 0 \<and> last (ps_free a) \<noteq> p"
proof -
  from assms obtain g where g: "store_rel g a" "meta f = meta g" "flen g \<le> flen f" and p: "ps_live a p"
    by (auto simp: halfway_def)
  have wf: "wf_store g (ps_size a) (ps_free a)" using g(1) by (rule store_relD)
  show "mp_head (meta f) = head_ptr (ps_free a)" "mp_tail (meta f) = tail_ptr (ps_free a)"
    using wf g(2) by (simp_all add: wf_store_def)
  show "PAGESIZE \<le> flen f" using wf_store_meta_in_file [OF wf] g(3) by simp
  show "p \<noteq> 0" "page_fits p" using store_at_fits [OF g(1) p] by simp_all
  assume "ps_free a \<noteq> []"
  then have "last (ps_free a) \<in> set (ps_free a)" by simp
  with p wf_store_free_page [OF wf this]
  show "page_fits (last (ps_free a)) \<and> last (ps_free a) \<noteq> 0 \<and> last (ps_free a) \<noteq> p"
    by (auto simp: ps_live_def)
qed

lemma halfway_write:
  assumes h: "halfway f a p" and q: "q = p \<or> ps_free a \<noteq> [] \<and> q = last (ps_free a)"
  shows "halfway (write_page f q m) a p"
proof -
  from h obtain g where g: "store_rel g a" "meta f = meta g" "flen g \<le> flen f" and p: "ps_live a p"
    and same: "\<And>r. r \<noteq> 0 \<Longrightarrow> r < ps_size a \<Longrightarrow> r \<noteq> p \<Longrightarrow> ps_free a = [] \<or> r \<noteq> last (ps_free a)
      \<Longrightarrow> page_at f r = page_at g r" by (auto simp: halfway_def)
  have wf: "wf_store g (ps_size a) (ps_free a)" using g(1) by (rule store_relD)
  have "q \<noteq> 0" using q halfway_facts(4,6) [OF h] by auto
  then have "meta (write_page f q m) = meta g"
    using halfway_facts(3) [OF h] g(2) by (simp add: meta_write_other)
  moreover have "page_at (write_page f q m) r = page_at g r"
    if "r \<noteq> 0" "r < ps_size a" "r \<noteq> p" "ps_free a = [] \<or> r \<noteq> last (ps_free a)" for r
    using that q same [OF that] wf_store_page_in_file [OF wf that(2)] g(3)
    by (subst page_at_write_other) auto
  ultimately show ?thesis
    using g p by (auto simp: halfway_def le_max_iff_disj intro!: exI [of _ g])
qed

lemma store_rel_cong:
  assumes rel: "store_rel g a" and len: "flen g \<le> flen f"
    and m: "mp_size (meta f) = mp_size (meta g)" "mp_head (meta f) = mp_head (meta g)"
      "mp_tail (meta f) = mp_tail (meta g)"
    and pages: "\<And>q. q \<noteq> 0 \<Longrightarrow> q < ps_size a \<Longrightarrow> page_at f q = page_at g q"
  shows "store_rel f a"
proof (rule store_relI)
  have wf: "wf_store g (ps_size a) (ps_free a)" using rel by (rule store_relD)
  have "chain f (ps_free a) = chain g (ps_free a)"
  proof (rule chain_cong)
    fix q assume "q \<in> set (ps_free a)"
    then show "link f q = link g q"
      using wf_store_free_page(1,2) [OF wf, of q] by (intro link_page_at pages) simp_all
  qed
  with wf m len show "wf_store f (ps_size a) (ps_free a)" by (simp add: wf_store_def)
  fix q assume "ps_live a q"
  then show "page_at f q = ps_data a q"
    using pages [of q] store_relD(2) [OF rel, of q] by (simp add: ps_live_def)
qed

text \<open>The attempt that succeeds completes the release.\<close>

lemma halfway_release:
  assumes h: "halfway f a p"
  shows "store_rel (release_file (ps_free a) p f) (ps_release p a)"
proof -
  let ?fl = "ps_free a"
  from h obtain g where g: "store_rel g a" "meta f = meta g" "flen g \<le> flen f" and p: "ps_live a p"
    and same: "\<And>r. r \<noteq> 0 \<Longrightarrow> r < ps_size a \<Longrightarrow> r \<noteq> p \<Longrightarrow> ?fl = [] \<or> r \<noteq> last ?fl
      \<Longrightarrow> page_at f r = page_at g r" by (auto simp: halfway_def)
  have wf: "wf_store g (ps_size a) ?fl" using g(1) by (rule store_relD)
  note hf = halfway_facts [OF h]
  show ?thesis
  proof (rule store_rel_cong [OF store_rel_release [OF g(1) p]])
    show "flen (release_file ?fl p g) \<le> flen (release_file ?fl p f)"
      using g(3) by (auto simp: release_file_def first_file_def append_file_def)
    have "?fl = [] \<or> last ?fl \<noteq> 0" using hf(6) by (cases "?fl = []") simp_all
    note mf = meta_release_file [OF hf(4) this hf(3)]
      and mg = meta_release_file [OF hf(4) this wf_store_meta_in_file [OF wf]]
    show "mp_size (meta (release_file ?fl p f)) = mp_size (meta (release_file ?fl p g))"
      "mp_head (meta (release_file ?fl p f)) = mp_head (meta (release_file ?fl p g))"
      "mp_tail (meta (release_file ?fl p f)) = mp_tail (meta (release_file ?fl p g))"
      by (simp_all only: mf mg g(2))
    fix q assume q: "q \<noteq> 0" "q < ps_size (ps_release p a)"
    then have len: "Suc q * PAGESIZE \<le> flen g" "Suc q * PAGESIZE \<le> flen f"
      using wf_store_page_in_file [OF wf, of q] g(3) by (simp_all add: ps_release_def)
    consider "q = p" | "?fl \<noteq> []" "q = last ?fl" | "q \<noteq> p" "?fl = [] \<or> q \<noteq> last ?fl" by auto
    then show "page_at (release_file ?fl p f) q = page_at (release_file ?fl p g) q"
    proof cases
      case 3
      with q len same [of q] show ?thesis by (simp add: page_at_release_other ps_release_def)
    qed (use q hf(4,6) in \<open>auto simp: release_file_def first_file_def append_file_def
        page_at_write_other page_at_write_same le_max_iff_disj\<close>)
  qed
qed

lemma halfway_pwrite:
  assumes s: "all_or_nothing s" "fd_inode s fd = Some ino" "halfway (inodes s ino) a p"
    and q: "q = p \<or> ps_free a \<noteq> [] \<and> q = last (ps_free a)"
    and run: "posix_pwrite fd m PAGESIZE (page_ptr q) s = (w, s')"
  shows "all_or_nothing s' \<and> fd_inode s' fd = Some ino \<and> halfway (inodes s' ino) a p"
proof -
  have "page_fits q" using q halfway_facts(5,6) [OF s(3)] by auto
  from pwrite_page_all_or_nothing [OF s(1,2) this run] show ?thesis
    using halfway_write [OF s(3) q, of m] s(3) by auto
qed

lemma halfway_meta_write:
  assumes "all_or_nothing s" "fd_inode s fd = Some ino" "halfway (inodes s ino) a p"
    and "posix_pwrite fd m PAGESIZE (index_to_offset 0) s = (w, s')" and "w \<noteq> int PAGESIZE"
  shows "halfway (inodes s' ino) a p"
  using pwrite_page_all_or_nothing [OF assms(1,2) page_fits_0, of m w s'] assms(3-5) by auto

lemma free_first_failure:
  assumes s: "all_or_nothing s" "fd_inode s fd = Some ino" "halfway (inodes s ino) a p"
    and run: "free_first fd md (page_ptr p) s = (st, s')" and bad: "st \<noteq> STATUS_OK"
  shows "halfway (inodes s' ino) a p"
proof -
  obtain fw s1 where 1: "posix_pwrite fd (set_fp_offset (- 1) zero_mem) PAGESIZE (page_ptr p) s = (fw, s1)"
    by fastforce
  have s1: "all_or_nothing s1" "fd_inode s1 fd = Some ino" "halfway (inodes s1 ino) a p"
    using halfway_pwrite [OF s _ 1] by simp_all
  obtain mw s2 where 2: "posix_pwrite fd (set_mp_tail (page_ptr p) (set_mp_head (page_ptr p) md)) PAGESIZE
      (index_to_offset 0) s1 = (mw, s2)" by fastforce
  have "free_first fd md (page_ptr p) s =
      (if fw \<noteq> int PAGESIZE then (STATUS_BAD_WRITE, s1)
       else if mw \<noteq> int PAGESIZE then (STATUS_BAD_WRITE, s2) else (STATUS_OK, s2))"
    by (simp only: free_first_def Let_def 1 2 prod.case)
  then show ?thesis
    using run bad s1(3) halfway_meta_write [OF s1 2] by (auto split: if_splits)
qed

lemma free_append_failure:
  assumes s: "all_or_nothing s" "fd_inode s fd = Some ino" "halfway (inodes s ino) a p"
    and fl: "ps_free a \<noteq> []" "mp_tail md = page_ptr (last (ps_free a))"
    and run: "free_append fd md (page_ptr p) s = (st, s')" and bad: "st \<noteq> STATUS_OK"
  shows "halfway (inodes s' ino) a p"
proof -
  obtain ow s1 where 1: "posix_pwrite fd (set_fp_offset (page_ptr p) zero_mem) PAGESIZE
      (page_ptr (last (ps_free a))) s = (ow, s1)" by fastforce
  have s1: "all_or_nothing s1" "fd_inode s1 fd = Some ino" "halfway (inodes s1 ino) a p"
    using halfway_pwrite [OF s _ 1] fl(1) by simp_all
  obtain fw s2 where 2: "posix_pwrite fd (set_fp_offset (- 1) zero_mem) PAGESIZE (page_ptr p) s1 = (fw, s2)"
    by fastforce
  have s2: "all_or_nothing s2" "fd_inode s2 fd = Some ino" "halfway (inodes s2 ino) a p"
    using halfway_pwrite [OF s1 _ 2] by simp_all
  obtain mw s3 where 3: "posix_pwrite fd (set_mp_tail (page_ptr p) md) PAGESIZE (index_to_offset 0) s2 = (mw, s3)"
    by fastforce
  have "free_append fd md (page_ptr p) s =
      (if ow \<noteq> int PAGESIZE then (STATUS_BAD_WRITE, s1)
       else if fw \<noteq> int PAGESIZE then (STATUS_BAD_WRITE, s2)
       else if mw \<noteq> int PAGESIZE then (STATUS_BAD_WRITE, s3) else (STATUS_OK, s3))"
    by (simp only: free_append_def Let_def fl(2) 1 2 3 prod.case)
  then show ?thesis
    using run bad s1(3) s2(3) halfway_meta_write [OF s2 3] by (auto split: if_splits)
qed

lemma free_page_failure:
  assumes s: "all_or_nothing s" "fd_inode s (storefd b) = Some ino" "halfway (inodes s ino) a p"
    and run: "free_page (Some b) (word_of_nat p) s = (st, s')" and bad: "st \<noteq> STATUS_OK"
  shows "halfway (inodes s' ino) a p"
proof -
  note hf = halfway_facts [OF s(3)]
  obtain r md s1 where 1: "posix_pread (storefd b) zero_mem PAGESIZE 0 s = (r, md, s1)"
    by (cases "posix_pread (storefd b) zero_mem PAGESIZE 0 s") auto
  note r1 = pread_all_or_nothing [OF s(1,2) hf(3) 1]
  then have s1: "all_or_nothing s1" "fd_inode s1 (storefd b) = Some ino" "halfway (inodes s1 ino) a p"
    using s(3) by simp_all
  have nz: "page_ptr p \<noteq> 0" using hf(4,5) page_ptr_inj [of p 0] by simp
  show ?thesis
  proof (cases "r = int PAGESIZE")
    case False
    with run 1 s1(3) nz show ?thesis by (auto simp: free_page_def Let_def index_to_offset_of_nat)
  next
    case True
    with r1 have md: "md = meta (inodes s ino)" by simp
    show ?thesis
    proof (cases "ps_free a")
      case Nil
      with hf(1,2) md have "mp_head md = - 1" "mp_tail md = - 1" by (simp_all add: head_ptr_def tail_ptr_def)
      with run 1 True nz have "free_first (storefd b) md (page_ptr p) s1 = (st, s')"
        by (simp add: free_page_def Let_def index_to_offset_of_nat)
      with s1 show ?thesis using bad by (rule free_first_failure)
    next
      case (Cons q qs)
      with hf(2) md have t: "mp_tail md = page_ptr (last (ps_free a))" by (simp add: tail_ptr_def)
      moreover have "page_ptr (last (ps_free a)) \<noteq> - 1" using hf(6) Cons page_ptr_not_empty by simp
      ultimately have "free_append (storefd b) md (page_ptr p) s1 = (st, s')"
        using run 1 True nz by (simp add: free_page_def Let_def index_to_offset_of_nat)
      moreover have "ps_free a \<noteq> []" using Cons by simp
      ultimately show ?thesis using free_append_failure [OF s1 _ t _ bad] by simp
    qed
  qed
qed

end
