(* ===== verification/RetryClient.thy ===== *)
theory RetryClient
  imports StoreRetry
begin

text \<open>
  The page layer as the repeating client sees it: its operations, their agreement with the
  fault-free store, and the interfaces of \<open>StoreSafety\<close> and \<open>StoreQueue\<close> once more.
\<close>

section \<open>The operations\<close>

text \<open>One attempt more than there are entries in the schedule, whatever they are, is enough.\<close>

definition attempts :: "os \<Rightarrow> nat" where
  "attempts s = Suc (length (sched s))"

definition free_op :: "backing \<Rightarrow> nat \<Rightarrow> os \<Rightarrow> status \<times> unit \<times> os" where
  "free_op b p s = (case free_page (Some b) (word_of_nat p) s of (st, s') \<Rightarrow> (st, (), s'))"

definition put_op :: "backing \<Rightarrow> mem \<Rightarrow> nat \<Rightarrow> os \<Rightarrow> status \<times> unit \<times> os" where
  "put_op b m p s = (case put_page m (Some b) (word_of_nat p) s of (st, s') \<Rightarrow> (st, (), s'))"

lemma unit_op_eq:
  "free_op b p s = (st, u, s') \<longleftrightarrow> free_page (Some b) (word_of_nat p) s = (st, s')"
  "put_op b m p s = (st, u, s') \<longleftrightarrow> put_page m (Some b) (word_of_nat p) s = (st, s')"
  by (simp_all add: free_op_def put_op_def split: prod.split)

definition retry_alloc :: "backing \<Rightarrow> os \<Rightarrow> nat \<times> os" where
  "retry_alloc b s =
     (case retry (attempts s) (alloc_page None (Some b)) s of
        Some (index, t) \<Rightarrow> (unat index, t) | None \<Rightarrow> (0, s))"

definition retry_free :: "backing \<Rightarrow> nat \<Rightarrow> os \<Rightarrow> os" where
  "retry_free b p s = (case retry (attempts s) (free_op b p) s of Some (_, t) \<Rightarrow> t | None \<Rightarrow> s)"

definition retry_write :: "backing \<Rightarrow> mem \<Rightarrow> nat \<Rightarrow> os \<Rightarrow> os" where
  "retry_write b m p s = (case retry (attempts s) (put_op b m p) s of Some (_, t) \<Rightarrow> t | None \<Rightarrow> s)"

definition retry_read :: "backing \<Rightarrow> os \<Rightarrow> nat \<Rightarrow> mem option" where
  "retry_read b s p =
     (case retry (attempts s) (get_page zero_mem (Some b) (word_of_nat p)) s of
        Some (m, _) \<Rightarrow> Some (page_of m) | None \<Rightarrow> None)"

definition retry_ready :: "backing \<Rightarrow> nat \<Rightarrow> os \<Rightarrow> bool" where
  "retry_ready b n s \<longleftrightarrow> all_or_nothing s \<and> ready b n (calm s)"

definition retry_live :: "backing \<Rightarrow> os \<Rightarrow> nat \<Rightarrow> bool" where
  "retry_live b s p = page_live b (calm s) p"

definition retry_queue :: "backing \<Rightarrow> os \<Rightarrow> nat list" where
  "retry_queue b s = free_queue b (calm s)"

lemmas retry_view_defs = retry_ready_def retry_live_def retry_queue_def

section \<open>Every repetition ends\<close>

text \<open>
  An allocation without a source takes the abstract page.  A new page is blank; a reused page
  still begins with its link to the next free page, and the rest of it is left open.
\<close>

definition blank_or_link :: "pstore \<Rightarrow> mem \<Rightarrow> bool" where
  "blank_or_link a d = (case ps_free a of [] \<Rightarrow> d = src_page None | p # ps \<Rightarrow> load64 d 0 = head_ptr ps)"

lemma alloc_blank_refines:
  assumes "store_at b s a" and "ps_size a < PAGESIZE"
  shows "\<exists>s' d. alloc_page None (Some b) s = (STATUS_OK, word_of_nat (fst (ps_alloc None a)), s')
    \<and> store_at b s' ((snd (ps_alloc None a))\<lparr>ps_data := (ps_data a)(fst (ps_alloc None a) := d)\<rparr>)
    \<and> blank_or_link a d"
proof (cases "ps_free a")
  case Nil
  have "ps_size a < MAX_PAGES" using assms(2) by (simp add: MAX_PAGES_def PAGESIZE_def)
  from sim_alloc_nil [OF assms(1) this Nil, of None] Nil show ?thesis
    by (auto simp: ps_alloc_def blank_or_link_def intro!: exI [of _ "src_page None"])
next
  case (Cons p ps)
  from assms(1) obtain ino where "store_rel (inodes s ino) a" by (rule store_atE)
  then have "wf_store (inodes s ino) (ps_size a) (ps_free a)" by (rule store_relD)
  with Cons have "1 \<le> p" using wf_store_free_page(1) [of "inodes s ino" "ps_size a" "ps_free a" p] by simp
  then have "ps_size a \<le> p * PAGESIZE" using assms(2) by (intro scaled_beyond) simp_all
  with sim_alloc_cons [OF assms(1) Cons, of None] Cons show ?thesis
    by (auto simp: ps_alloc_def blank_or_link_def)
qed

definition repeatable :: "backing \<Rightarrow> nat \<Rightarrow> (regfile \<Rightarrow> bool) \<Rightarrow> os \<Rightarrow> bool" where
  "repeatable b ino I s \<longleftrightarrow> all_or_nothing s \<and> fd_inode s (storefd b) = Some ino \<and> I (inodes s ino)"

text \<open>The rule for one operation: failures keep the file's invariant, and a schedule without
  entries means success.\<close>

lemma repeat_ends:
  assumes "repeatable b ino I s"
    and later: "\<And>s st r s'. op s = (st, r, s') \<Longrightarrow> suffix (sched s') (tl (sched s))"
    and keeps: "\<And>s st r s'. op s = (st, r, s') \<Longrightarrow> keeps (storefd b) s s'"
    and fails: "\<And>s st r s'. repeatable b ino I s \<Longrightarrow> op s = (st, r, s') \<Longrightarrow> st \<noteq> STATUS_OK \<Longrightarrow> I (inodes s' ino)"
    and succeeds: "\<And>s. repeatable b ino I s \<Longrightarrow> sched s = [] \<Longrightarrow> fst (op s) = STATUS_OK"
  shows "\<exists>t r s'. repeatable b ino I t \<and> op t = (STATUS_OK, r, s') \<and> retry (attempts s) op s = Some (r, s')
    \<and> all_or_nothing s' \<and> fd_inode s' (storefd b) = Some ino"
proof -
  have kept: "all_or_nothing s' \<and> fd_inode s' (storefd b) = Some ino"
    if "repeatable b ino I s" "op s = (st, r, s')" for s st r s'
    using that later_all_or_nothing [OF later [OF that(2)]] keeps [OF that(2)] fd_inode_cong [of s' s]
    by (simp add: repeatable_def keeps_def)
  have dec: "repeatable b ino I s' \<and> length (sched s') < length (sched s)"
    if "repeatable b ino I s" "op s = (st, r, s')" "st \<noteq> STATUS_OK" for s st r s'
  proof -
    have "sched s \<noteq> []" using succeeds [OF that(1)] that(2,3) by auto
    then show ?thesis
      using kept [OF that(1,2)] fails [OF that] later_shorter [OF later [OF that(2)]]
      by (simp add: repeatable_def)
  qed
  have "length (sched s) < attempts s" by (simp add: attempts_def)
  have "\<exists>t r s'. repeatable b ino I t \<and> op t = (STATUS_OK, r, s') \<and> retry (attempts s) op s = Some (r, s')"
    by (rule retry_ends [where I = "repeatable b ino I"]) (fact assms(1), fact, erule (2) dec)
  then obtain t r s' where t: "repeatable b ino I t" "op t = (STATUS_OK, r, s')" "retry (attempts s) op s = Some (r, s')"
    by (elim exE conjE)
  with kept [OF t(1,2)] show ?thesis
    by (intro exI [of _ t] exI [of _ r] exI [of _ s']) simp
qed

section \<open>Agreement with the fault-free store\<close>

text \<open>Two states of the same abstract store are the same to a client.\<close>

lemma same_view:
  assumes "store_at b u a" and "store_at b v a"
  shows "ready b n u = ready b n v" "page_live b u q = page_live b v q" "free_queue b u = free_queue b v"
    "page_live b v q \<Longrightarrow> read_step b u q = read_step b v q"
  using assms read_step_ok [OF assms(1)] read_step_ok [OF assms(2)]
  by (simp_all add: ready_store_at page_live_store_at free_queue_store_at)

lemma calm_store_at:
  "all_or_nothing s \<Longrightarrow> fd_inode s (storefd b) = Some ino \<Longrightarrow> store_rel (inodes s ino) a \<Longrightarrow> store_at b (calm s) a"
  by (rule store_atI) simp_all

lemma retry_alloc_sim:
  assumes a: "store_at b (calm s) a" "all_or_nothing s" and small: "ps_size a < PAGESIZE"
  obtains u where "store_at b u a" "fst (retry_alloc b s) = fst (alloc_step None b u)"
    "calm (snd (retry_alloc b s)) = snd (alloc_step None b u)" "all_or_nothing (snd (retry_alloc b s))"
    "retry (attempts s) (alloc_page None (Some b)) s \<noteq> None"
proof -
  from a(1) obtain ino where fd: "fd_inode s (storefd b) = Some ino" and rel: "store_rel (inodes s ino) a"
    by (auto elim: store_atE)
  let ?I = "\<lambda>f. store_rel f a"
  have "\<exists>t i s'. repeatable b ino ?I t \<and> alloc_page None (Some b) t = (STATUS_OK, i, s')
      \<and> retry (attempts s) (alloc_page None (Some b)) s = Some (i, s')
      \<and> all_or_nothing s' \<and> fd_inode s' (storefd b) = Some ino"
  proof (rule repeat_ends)
    show "repeatable b ino ?I s" using a(2) fd rel by (simp add: repeatable_def)
    fix t st i t' assume t: "repeatable b ino ?I t" "alloc_page None (Some b) t = (st, i, t')" "st \<noteq> STATUS_OK"
    then show "?I (inodes t' ino)"
      using small alloc_blank_failure [of t b ino a st i t'] by (simp add: repeatable_def)
  next
    fix t assume "repeatable b ino ?I t" "sched t = []"
    then have "store_at b t a" by (auto simp: repeatable_def intro: store_atI)
    from alloc_blank_refines [OF this small] show "fst (alloc_page None (Some b) t) = STATUS_OK" by auto
  qed (erule later_alloc_page keeps_alloc_page)+
  then obtain t i s' where t: "repeatable b ino ?I t" "alloc_page None (Some b) t = (STATUS_OK, i, s')"
    and e: "retry (attempts s) (alloc_page None (Some b)) s = Some (i, s')" and s': "all_or_nothing s'"
    by auto
  have "store_at b (calm t) a" using t(1) by (auto simp: repeatable_def intro: calm_store_at)
  then show ?thesis
    using alloc_page_calm [OF t(2)] e s'
    by (intro that [of "calm t"]) (simp_all add: alloc_step_def retry_alloc_def)
qed

lemma retry_alloc_refines:
  assumes "store_at b (calm s) a" and "all_or_nothing s" and "ps_size a < PAGESIZE"
  shows "\<exists>s' d. retry (attempts s) (alloc_page None (Some b)) s = Some (word_of_nat (fst (ps_alloc None a)), s')
    \<and> store_at b (calm s') ((snd (ps_alloc None a))\<lparr>ps_data := (ps_data a)(fst (ps_alloc None a) := d)\<rparr>)
    \<and> blank_or_link a d"
proof -
  obtain u where u: "store_at b u a" "fst (retry_alloc b s) = fst (alloc_step None b u)"
    "calm (snd (retry_alloc b s)) = snd (alloc_step None b u)"
    "retry (attempts s) (alloc_page None (Some b)) s \<noteq> None"
    using assms by (rule retry_alloc_sim)
  from u(4) obtain i s' where e: "retry (attempts s) (alloc_page None (Some b)) s = Some (i, s')" by auto
  from alloc_blank_refines [OF u(1) assms(3)] obtain t d
    where t: "alloc_page None (Some b) u = (STATUS_OK, word_of_nat (fst (ps_alloc None a)), t)"
      "store_at b t ((snd (ps_alloc None a))\<lparr>ps_data := (ps_data a)(fst (ps_alloc None a) := d)\<rparr>)"
      "blank_or_link a d" by blast
  have "i = word_of_nat (fst (ps_alloc None a))" "calm s' = t"
    using u(2,3) e t(1) by (simp_all add: retry_alloc_def alloc_step_def word_unat_eq_iff)
  with e t(2,3) show ?thesis by auto
qed

lemma retry_free_sim:
  assumes a: "store_at b (calm s) a" "all_or_nothing s" and live: "ps_live a p"
  shows "store_at b (calm (retry_free b p s)) (ps_release p a)"
    and "all_or_nothing (retry_free b p s)" and "retry (attempts s) (free_op b p) s \<noteq> None"
proof -
  from a(1) obtain ino where fd: "fd_inode s (storefd b) = Some ino" and rel: "store_rel (inodes s ino) a"
    by (auto elim: store_atE)
  have pf: "p \<noteq> 0" "page_fits p" using store_at_fits [OF rel live] by simp_all
  then have nz: "index_to_offset (word_of_nat p) \<noteq> 0"
    using page_ptr_inj [of p 0] by (simp add: index_to_offset_of_nat)
  let ?I = "\<lambda>f. halfway f a p"
  have succ: "free_page (Some b) (word_of_nat p) t
      = (STATUS_OK, set_file ino (release_file (ps_free a) p (inodes t ino)) t)"
    if "halfway (inodes t ino) a p" "fd_inode t (storefd b) = Some ino" "sched t = []" for t
    using halfway_facts [OF that(1)] that(2,3) by (intro free_page_file) simp_all
  have "\<exists>t u s'. repeatable b ino ?I t \<and> free_op b p t = (STATUS_OK, u, s')
      \<and> retry (attempts s) (free_op b p) s = Some (u, s')
      \<and> all_or_nothing s' \<and> fd_inode s' (storefd b) = Some ino"
  proof (rule repeat_ends)
    show "repeatable b ino ?I s" using a(2) fd halfway_start [OF rel live] by (simp add: repeatable_def)
    fix t st u t' assume "free_op b p t = (st, u, t')"
    then have o: "free_page (Some b) (word_of_nat p) t = (st, t')" by (simp add: unit_op_eq)
    then show "suffix (sched t') (tl (sched t))" "keeps (storefd b) t t'"
      using later_free_page [OF o nz] keeps_free_page [OF o] by simp_all
    assume "repeatable b ino ?I t" "st \<noteq> STATUS_OK"
    then show "?I (inodes t' ino)" using free_page_failure [OF _ _ _ o] by (simp add: repeatable_def)
  next
    fix t assume "repeatable b ino ?I t" "sched t = []"
    then show "fst (free_op b p t) = STATUS_OK" using succ [of t] by (simp add: repeatable_def free_op_def)
  qed
  then obtain t s' where t: "repeatable b ino ?I t" "free_page (Some b) (word_of_nat p) t = (STATUS_OK, s')"
    and e: "retry (attempts s) (free_op b p) s = Some ((), s')"
    and s': "all_or_nothing s'" "fd_inode s' (storefd b) = Some ino"
    by (auto simp: unit_op_eq)
  have "calm s' = set_file ino (release_file (ps_free a) p (inodes t ino)) (calm t)"
    using free_page_calm [OF t(2)] succ [of "calm t"] t(1) by (simp add: repeatable_def)
  then have "inodes s' ino = release_file (ps_free a) p (inodes t ino)"
    by (simp flip: calm_simps(2) [of s'])
  then have "store_rel (inodes s' ino) (ps_release p a)"
    using halfway_release t(1) by (simp add: repeatable_def)
  with s' e show "store_at b (calm (retry_free b p s)) (ps_release p a)" "all_or_nothing (retry_free b p s)"
    "retry (attempts s) (free_op b p) s \<noteq> None"
    by (simp_all add: calm_store_at retry_free_def)
qed

lemma put_page_failure:
  assumes s: "all_or_nothing s" "fd_inode s (storefd b) = Some ino" and p: "page_fits p"
    and run: "put_page m (Some b) (word_of_nat p) s = (st, s')" and bad: "st \<noteq> STATUS_OK"
  shows "inodes s' = inodes s"
proof -
  obtain l s1 where 1: "posix_lseek (storefd b) (page_ptr p) s = (l, s1)" by fastforce
  have s1: "inodes s1 = inodes s" "all_or_nothing s1" "fd_inode s1 (storefd b) = Some ino"
    using 1 s all_or_nothing_tick [OF s(1)] fd_inode_cong [of "tick s" s]
    by (auto simp: posix_lseek_def tick_def split: if_splits)
  obtain w s2 where 2: "posix_pwrite (storefd b) m PAGESIZE (page_ptr p) s1 = (w, s2)" by fastforce
  show ?thesis
    using run bad 1 2 s1 pwrite_page_all_or_nothing [OF s1(2,3) p 2]
    by (auto simp: put_page_def Let_def index_to_offset_of_nat split: if_splits)
qed

lemma retry_write_sim:
  assumes a: "store_at b (calm s) a" "all_or_nothing s" and live: "ps_live a p"
  shows "store_at b (calm (retry_write b m p s)) (ps_put p m a)"
    and "all_or_nothing (retry_write b m p s)" and "retry (attempts s) (put_op b m p) s \<noteq> None"
proof -
  let ?I = "\<lambda>f. store_rel f a"
  from a(1) obtain ino where fd: "fd_inode s (storefd b) = Some ino" and rel: "store_rel (inodes s ino) a"
    by (auto elim: store_atE)
  have pf: "p \<noteq> 0" "page_fits p" using store_at_fits [OF rel live] by simp_all
  then have nz: "index_to_offset (word_of_nat p) \<noteq> 0"
    using page_ptr_inj [of p 0] by (simp add: index_to_offset_of_nat)
  have "\<exists>t u s'. repeatable b ino ?I t \<and> put_op b m p t = (STATUS_OK, u, s')
      \<and> retry (attempts s) (put_op b m p) s = Some (u, s')
      \<and> all_or_nothing s' \<and> fd_inode s' (storefd b) = Some ino"
  proof (rule repeat_ends)
    show "repeatable b ino ?I s" using a(2) fd rel by (simp add: repeatable_def)
    fix t st u t' assume "put_op b m p t = (st, u, t')"
    then have o: "put_page m (Some b) (word_of_nat p) t = (st, t')" by (simp add: unit_op_eq)
    then show "suffix (sched t') (tl (sched t))" "keeps (storefd b) t t'"
      using later_put_page [OF o nz] keeps_put_page [OF o] by simp_all
    assume "repeatable b ino ?I t" "st \<noteq> STATUS_OK"
    then show "?I (inodes t' ino)" using put_page_failure [OF _ _ pf(2) o] by (simp add: repeatable_def)
  next
    fix t assume "repeatable b ino ?I t" "sched t = []"
    then have "store_at b t a" by (auto simp: repeatable_def intro: store_atI)
    from sim_put [OF this live, of m] show "fst (put_op b m p t) = STATUS_OK" by (auto simp: put_op_def)
  qed
  then obtain t s' where t: "repeatable b ino ?I t" "put_page m (Some b) (word_of_nat p) t = (STATUS_OK, s')"
    and e: "retry (attempts s) (put_op b m p) s = Some ((), s')" and s': "all_or_nothing s'"
    by (auto simp: unit_op_eq)
  have "store_at b (calm t) a" using t(1) by (auto simp: repeatable_def intro: calm_store_at)
  from sim_put [OF this live, of m] put_page_calm [OF t(2)] have "store_at b (calm s') (ps_put p m a)" by auto
  with s' e show "store_at b (calm (retry_write b m p s)) (ps_put p m a)" "all_or_nothing (retry_write b m p s)"
    "retry (attempts s) (put_op b m p) s \<noteq> None"
    by (simp_all add: retry_write_def)
qed

lemma keeps_get_page: "get_page d (Some b) i s = (st, m, s') \<Longrightarrow> keeps (storefd b) s s'"
  unfolding get_page_def Let_def
  by (auto split: prod.splits if_splits dest!: keeps_io intro: keeps_trans)

lemma retry_read_sim:
  assumes a: "store_at b (calm s) a" "all_or_nothing s" and live: "ps_live a p"
  shows "retry_read b s p = Some (ps_data a p)"
proof -
  let ?I = "\<lambda>f. store_rel f a" and ?op = "get_page zero_mem (Some b) (word_of_nat p)"
  from a(1) obtain ino where fd: "fd_inode s (storefd b) = Some ino" and rel: "store_rel (inodes s ino) a"
    by (auto elim: store_atE)
  have "p \<noteq> 0" "page_fits p" using store_at_fits [OF rel live] by simp_all
  then have nz: "index_to_offset (word_of_nat p) \<noteq> 0"
    using page_ptr_inj [of p 0] by (simp add: index_to_offset_of_nat)
  have "\<exists>t m s'. repeatable b ino ?I t \<and> ?op t = (STATUS_OK, m, s') \<and> retry (attempts s) ?op s = Some (m, s')
      \<and> all_or_nothing s' \<and> fd_inode s' (storefd b) = Some ino"
  proof (rule repeat_ends)
    show "repeatable b ino ?I s" using a(2) fd rel by (simp add: repeatable_def)
    fix t st m t' assume o: "?op t = (st, m, t')"
    show "suffix (sched t') (tl (sched t))" "keeps (storefd b) t t'"
      using later_get_page [OF o nz] keeps_get_page [OF o] by simp_all
    assume "repeatable b ino ?I t"
    then show "?I (inodes t' ino)" using get_page_inodes [OF o] by (simp add: repeatable_def)
  next
    fix t assume "repeatable b ino ?I t" "sched t = []"
    then have "store_at b t a" by (auto simp: repeatable_def intro: store_atI)
    from sim_get [OF this live, of zero_mem] show "fst (?op t) = STATUS_OK" by auto
  qed
  then obtain t m s' where t: "repeatable b ino ?I t" "?op t = (STATUS_OK, m, s')"
    and e: "retry_read b s p = Some (page_of m)"
    by (auto simp: retry_read_def)
  have "store_at b (calm t) a" using t(1) by (auto simp: repeatable_def intro: calm_store_at)
  from sim_get [OF this live, of zero_mem] get_page_calm [OF t(2)] e show ?thesis by auto
qed

section \<open>The interfaces under faults\<close>

lemma retry_readyD:
  assumes "retry_ready b n s"
  shows "store_at b (calm s) (decode_at b (calm s))" "all_or_nothing s" "ps_size (decode_at b (calm s)) + n \<le> PAGESIZE"
  using assms by (simp_all add: retry_ready_def ready_def)

lemma retry_liveD: "retry_live b s p \<Longrightarrow> ps_live (decode_at b (calm s)) p"
  by (simp add: retry_live_def page_live_def)

lemma retry_read_ready:
  assumes "retry_ready b n s" and "retry_live b s p"
  shows "retry_read b s p = read_step b (calm s) p"
  using retry_read_sim [OF retry_readyD(1,2) [OF assms(1)] retry_liveD [OF assms(2)]]
    read_step_ok [OF retry_readyD(1) [OF assms(1)] retry_liveD [OF assms(2)]] by simp

lemma retry_free_same:
  assumes r: "retry_ready b n s" and p: "retry_live b s p"
  obtains a' where "store_at b (calm (retry_free b p s)) a'" "store_at b (release_step b p (calm s)) a'"
    "all_or_nothing (retry_free b p s)"
  using retry_free_sim [OF retry_readyD(1,2) [OF r] retry_liveD [OF p]]
    sim_free [OF retry_readyD(1) [OF r] retry_liveD [OF p]] by (auto simp: release_step_def)

lemma retry_write_same:
  assumes r: "retry_ready b n s" and p: "retry_live b s p"
  obtains a' where "store_at b (calm (retry_write b m p s)) a'" "store_at b (write_step b m p (calm s)) a'"
    "all_or_nothing (retry_write b m p s)"
  using retry_write_sim [OF retry_readyD(1,2) [OF r] retry_liveD [OF p], of m]
    sim_put [OF retry_readyD(1) [OF r] retry_liveD [OF p], of m] by (auto simp: write_step_def)

text \<open>What holds of the fault-free store holds of the repeating client, operation by operation.\<close>

lemma retry_alloc_laws:
  assumes r: "retry_ready b (Suc n) s"
  shows "\<not> retry_live b s (fst (retry_alloc b s))"
    and "retry_live b (snd (retry_alloc b s)) q \<longleftrightarrow> q = fst (retry_alloc b s) \<or> retry_live b s q"
    and "retry_ready b n (snd (retry_alloc b s))"
    and "retry_live b s q \<Longrightarrow> retry_read b (snd (retry_alloc b s)) q = retry_read b s q"
    and "retry_queue b s = p # ps \<Longrightarrow> fst (retry_alloc b s) = p \<and> retry_queue b (snd (retry_alloc b s)) = ps"
proof -
  obtain u where u: "store_at b u (decode_at b (calm s))" "fst (retry_alloc b s) = fst (alloc_step None b u)"
    "calm (snd (retry_alloc b s)) = snd (alloc_step None b u)" "all_or_nothing (snd (retry_alloc b s))"
    by (rule retry_alloc_sim [OF retry_readyD(1,2) [OF r]]) (use retry_readyD(3) [OF r] in simp_all)
  note s = retry_readyD(1) [OF r]
  note v = same_view [OF u(1) s]
  have ru: "ready b (Suc n) u" using r v(1) by (simp add: retry_ready_def)
  show "\<not> retry_live b s (fst (retry_alloc b s))"
    using fio.alloc_fresh [OF ru, of None] u(2) v(2) by (simp add: retry_live_def)
  show *: "retry_live b (snd (retry_alloc b s)) q \<longleftrightarrow> q = fst (retry_alloc b s) \<or> retry_live b s q"
    using fio.alloc_live [OF ru, of None q] u(2,3) v(2) by (simp add: retry_live_def)
  show ready: "retry_ready b n (snd (retry_alloc b s))"
    using fio.alloc_room [OF ru, of None] u(3,4) by (simp add: retry_ready_def)
  show "retry_queue b s = p # ps \<Longrightarrow> fst (retry_alloc b s) = p \<and> retry_queue b (snd (retry_alloc b s)) = ps"
    using alloc_step_queue [OF ru, of p ps None] u(2,3) v(3) by (simp add: retry_queue_def)
  assume q: "retry_live b s q"
  have "read_step b (snd (alloc_step None b u)) q = read_step b u q"
    using fio.rd_alloc [OF ru, of q None] q v(2) by (simp add: retry_live_def)
  then show "retry_read b (snd (retry_alloc b s)) q = retry_read b s q"
    using retry_read_ready [OF ready, of q] retry_read_ready [OF r q] q * v(4) u(3)
    by (simp add: retry_live_def)
qed

lemma retry_free_laws:
  assumes r: "retry_ready b n s" and p: "retry_live b s p"
  shows "retry_live b (retry_free b p s) q \<longleftrightarrow> retry_live b s q \<and> q \<noteq> p"
    and "retry_ready b n (retry_free b p s)"
    and "retry_live b s q \<Longrightarrow> q \<noteq> p \<Longrightarrow> retry_read b (retry_free b p s) q = retry_read b s q"
    and "retry_queue b (retry_free b p s) = retry_queue b s @ [p]"
proof -
  obtain a' where a: "store_at b (calm (retry_free b p s)) a'" "store_at b (release_step b p (calm s)) a'"
    "all_or_nothing (retry_free b p s)" using r p by (rule retry_free_same)
  note v = same_view [OF a(1,2)]
  have c: "ready b n (calm s)" "page_live b (calm s) p" using r p by (simp_all add: retry_view_defs)
  show *: "retry_live b (retry_free b p s) q \<longleftrightarrow> retry_live b s q \<and> q \<noteq> p"
    using fio.release_live [OF c, of q] v(2) by (simp add: retry_live_def)
  show ready: "retry_ready b n (retry_free b p s)"
    using fio.release_room [OF c] v(1) a(3) by (simp add: retry_ready_def)
  show "retry_queue b (retry_free b p s) = retry_queue b s @ [p]"
    using fioq.release_queue [OF c] v(3) by (simp add: retry_queue_def)
  assume q: "retry_live b s q" "q \<noteq> p"
  then show "retry_read b (retry_free b p s) q = retry_read b s q"
    using retry_read_ready [OF ready, of q] retry_read_ready [OF r q(1)] * v(2,4) fio.rd_release [OF c, of q]
    by (simp add: retry_live_def)
qed

lemma retry_write_laws:
  assumes r: "retry_ready b n s" and p: "retry_live b s p"
  shows "retry_live b (retry_write b m p s) q \<longleftrightarrow> retry_live b s q"
    and "retry_ready b n (retry_write b m p s)"
    and "retry_read b (retry_write b m p s) p = Some (page_of m)"
    and "retry_live b s q \<Longrightarrow> q \<noteq> p \<Longrightarrow> retry_read b (retry_write b m p s) q = retry_read b s q"
    and "retry_queue b (retry_write b m p s) = retry_queue b s"
proof -
  obtain a' where a: "store_at b (calm (retry_write b m p s)) a'" "store_at b (write_step b m p (calm s)) a'"
    "all_or_nothing (retry_write b m p s)" using r p by (rule retry_write_same)
  note v = same_view [OF a(1,2)]
  have c: "ready b n (calm s)" "page_live b (calm s) p" using r p by (simp_all add: retry_view_defs)
  have live: "retry_live b (retry_write b m p s) q \<longleftrightarrow> retry_live b s q" for q
    using fio.wr_live [OF c, of m q] v(2) by (simp add: retry_live_def)
  then show "retry_live b (retry_write b m p s) q \<longleftrightarrow> retry_live b s q" .
  show ready: "retry_ready b n (retry_write b m p s)"
    using fio.wr_room [OF c, of m] v(1) a(3) by (simp add: retry_ready_def)
  show "retry_queue b (retry_write b m p s) = retry_queue b s"
    using fioq.wr_queue [OF c, of m] v(3) by (simp add: retry_queue_def)
  show "retry_read b (retry_write b m p s) p = Some (page_of m)"
    using retry_read_ready [OF ready, of p] p live v(2,4) fio.rd_wr_same [OF c, of m] by (simp add: retry_live_def)
  assume q: "retry_live b s q" "q \<noteq> p"
  then show "retry_read b (retry_write b m p s) q = retry_read b s q"
    using retry_read_ready [OF ready, of q] retry_read_ready [OF r q(1)] live v(2,4) fio.rd_wr_other [OF c, of q m]
    by (simp add: retry_live_def)
qed

interpretation rio: queued_allocator
  "retry_alloc b" "retry_free b" "retry_live b" "retry_ready b" "retry_read b" "retry_write b" "retry_queue b"
  for b :: backing
  by unfold_locales
    (rule retry_alloc_laws retry_free_laws retry_write_laws; assumption
      | simp add: retry_ready_def ready_def)+

end
