(* ===== verification/RetryProperties.thy ===== *)
theory RetryProperties
  imports RetryClient
begin

text \<open>
  What a client that repeats failed operations may rely on, when calls fail as a whole: every
  operation ends and refines the abstract store, and sessions behave as without faults.
\<close>

section \<open>One operation\<close>

text \<open>
  C1: Repeating is enough against calls that fail as a whole (no short transfers), in a store of
  fewer than 4096 pages.  A client that repeats an allocation without a source, a release, a
  write or a read of a held page until it succeeds gets there within one attempt more than
  there are entries left in the schedule, successes and faults together.  A release or a write
  then leaves the store of the abstract operation: the released page is the last in the queue
  of free pages, the page written holds the source; a read delivers the contents of the page.
  An allocation has taken the page of the abstract allocator, the oldest free page or a new
  one, all other held pages keep their contents, and as to the page itself: a new one is blank,
  a reused one still begins with its link to the next free page.  (The bound is needed for the
  reuse without a source alone, which beyond it overwrites another page.)
\<close>

theorem repeated_operations_refine:
  assumes "store_at b (calm s) a" and "all_or_nothing s" and "ps_size a < PAGESIZE"
    and "ps_live a p"
  shows "(\<exists>i s' d. retry (attempts s) (alloc_page None (Some b)) s = Some (word_of_nat i, s') \<and> i = fst (ps_alloc None a)
       \<and> store_at b (calm s') ((snd (ps_alloc None a))\<lparr>ps_data := (ps_data a)(i := d)\<rparr>)
       \<and> (ps_free a = [] \<longrightarrow> d = src_page None) \<and> (\<forall>q qs. ps_free a = q # qs \<longrightarrow> load64 d 0 = head_ptr qs))
    \<and> (\<exists>s'. retry (attempts s) (free_op b p) s = Some ((), s') \<and> store_at b (calm s') (ps_release p a))
    \<and> (\<exists>s'. retry (attempts s) (put_op b m p) s = Some ((), s') \<and> store_at b (calm s') (ps_put p m a))
    \<and> (\<exists>d s'. retry (attempts s) (get_page zero_mem (Some b) (word_of_nat p)) s = Some (d, s')
       \<and> page_of d = ps_data a p)"
proof (intro conjI)
  show "\<exists>s'. retry (attempts s) (free_op b p) s = Some ((), s') \<and> store_at b (calm s') (ps_release p a)"
    using retry_free_sim [OF assms(1,2,4)] by (auto simp: retry_free_def)
  show "\<exists>s'. retry (attempts s) (put_op b m p) s = Some ((), s') \<and> store_at b (calm s') (ps_put p m a)"
    using retry_write_sim [OF assms(1,2,4), of m] by (auto simp: retry_write_def)
  show "\<exists>d s'. retry (attempts s) (get_page zero_mem (Some b) (word_of_nat p)) s = Some (d, s')
       \<and> page_of d = ps_data a p"
    using retry_read_sim [OF assms(1,2,4)] by (auto simp: retry_read_def split: option.splits)
  show "\<exists>i s' d. retry (attempts s) (alloc_page None (Some b)) s = Some (word_of_nat i, s') \<and> i = fst (ps_alloc None a)
       \<and> store_at b (calm s') ((snd (ps_alloc None a))\<lparr>ps_data := (ps_data a)(i := d)\<rparr>)
       \<and> (ps_free a = [] \<longrightarrow> d = src_page None) \<and> (\<forall>q qs. ps_free a = q # qs \<longrightarrow> load64 d 0 = head_ptr qs)"
  proof -
    obtain s' d where "retry (attempts s) (alloc_page None (Some b)) s = Some (word_of_nat (fst (ps_alloc None a)), s')"
      "store_at b (calm s') ((snd (ps_alloc None a))\<lparr>ps_data := (ps_data a)(fst (ps_alloc None a) := d)\<rparr>)"
      "blank_or_link a d"
      using retry_alloc_refines [OF assms(1-3)] by blast
    then show ?thesis
      by (intro exI [of _ "fst (ps_alloc None a)"] exI [of _ s'] exI [of _ d]) (simp add: blank_or_link_def split: list.splits)
  qed
qed

text \<open>\<open>stormy\<close>: page 1 is held and five of the next calls fail.\<close>

definition stormy :: os where
  "stormy = demo1\<lparr>sched := [IO_ok, IO_fail, IO_ok, IO_ok, IO_fail, IO_fail, IO_ok, IO_fail, IO_fail]\<rparr>"

lemma stormy_store: "calm stormy = demo1" "all_or_nothing stormy"
  using demo1_store by (auto simp: stormy_def calm_def all_or_nothing_def store_at_def)

lemma stormy_client: "retry_ready demo_b 4 stormy" "retry_live demo_b stormy 1"
  using stormy_store demo1_live by (simp_all add: retry_view_defs)

theorem repeated_operations_refine_witness:
  "(\<exists>s'. retry (attempts stormy) (free_op demo_b 1) stormy = Some ((), s')
      \<and> store_at demo_b (calm s') (ps_release 1 demo_a1))
   \<and> (\<exists>s'. retry (attempts stormy) (put_op demo_b (\<lambda>_. 7) 1) stormy = Some ((), s')
      \<and> store_at demo_b (calm s') (ps_put 1 (\<lambda>_. 7) demo_a1))"
  using repeated_operations_refine [of demo_b stormy demo_a1 1 "\<lambda>_. 7"] stormy_store demo1_store demo1_live(1)
  by (simp add: demo_a1_def PAGESIZE_def)

section \<open>Sessions\<close>

text \<open>
  C11: Pages are safe under faults that make calls fail as a whole, for a client that repeats what
  fails, allocates without a source, and frees and writes only pages it holds.  Through any
  such session of a store whose pages and the session's operations together number at most
  4096, under any schedule of such faults, a page that the session neither frees nor writes
  stays allocated and reads back the same bytes.  (All these conditions matter: a repeated
  allocation with a source can destroy the free list, one without a source in a store of more
  than 4096 pages can overwrite another page; \<open>StoreProperties\<close> shows both.)
\<close>

theorem faulty_session_keeps_page:
  assumes "retry_ready b (length xs) s" and "retry_live b s q"
    and "session_ok (retry_alloc b) (retry_free b) (retry_write b) (retry_live b) xs s"
    and "list_all (op_avoids q) xs"
  shows "retry_live b (run_session (retry_alloc b) (retry_free b) (retry_write b) xs s) q
    \<and> retry_read b (run_session (retry_alloc b) (retry_free b) (retry_write b) xs s) q = retry_read b s q"
  using assms(1,3,4,2) by (rule rio.session_keeps)

theorem faulty_session_keeps_page_witness:
  "retry_read demo_b (run_session (retry_alloc demo_b) (retry_free demo_b) (retry_write demo_b) [PAlloc, PAlloc] stormy) 1
     = retry_read demo_b stormy 1"
proof -
  have "retry_ready demo_b (length [PAlloc, PAlloc]) stormy"
    using stormy_client(1) by (simp add: retry_ready_def ready_def)
  then show ?thesis
    using faulty_session_keeps_page [of demo_b "[PAlloc, PAlloc]" stormy 1] stormy_client(2) by simp
qed

text \<open>
  C16: No page is lost to faults that make calls fail as a whole, under the conditions of the
  preceding property: a client that repeats what fails, allocates without a source and frees
  and writes only pages it holds, in a store whose pages and the session's operations, the
  release included, together number at most 4096.  When such a client frees a page and then
  allocates more often than there were free pages before, the allocations return exactly the
  pages that were free, oldest first, and then the freed page, under any schedule of such
  faults.
\<close>

theorem faulty_session_returns_freed:
  assumes "retry_ready b (Suc (length xs)) s" and "retry_live b s p"
    and "session_ok (retry_alloc b) (retry_free b) (retry_write b) (retry_live b) xs (retry_free b p s)"
    and "length (retry_queue b s) < allocs xs"
  shows "take (Suc (length (retry_queue b s)))
      (session_pages (retry_alloc b) (retry_free b) (retry_write b) xs (retry_free b p s)) = retry_queue b s @ [p]"
  using assms by (rule rio.released_returns)

theorem faulty_session_returns_freed_witness:
  "take 1 (session_pages (retry_alloc demo_b) (retry_free demo_b) (retry_write demo_b) [PAlloc, PAlloc]
      (retry_free demo_b 1 stormy)) = [1]"
proof -
  have "retry_ready demo_b (Suc (length [PAlloc, PAlloc])) stormy"
    using stormy_client(1) by (simp add: retry_ready_def ready_def)
  moreover have "retry_queue demo_b stormy = []"
    using stormy_store(1) free_queue_store_at [OF demo1_store] by (simp add: retry_queue_def demo_a1_def)
  ultimately show ?thesis
    using faulty_session_returns_freed [of demo_b "[PAlloc, PAlloc]" stormy 1] stormy_client(2) by simp
qed

end
