(* ===== verification/NodeList.thy ===== *)
theory NodeList
  imports Prelude "HOL-Library.Monad_Syntax"
begin

text \<open>
  The interface of an intrusive list that grows one node at a time: \<open>rep h xs\<close> relates the
  heap to the list of nodes, \<open>avail h n\<close> says that the node \<open>n\<close> is allocated and may be
  linked in, \<open>ins\<close> links it in, and \<open>place\<close> is its effect on the abstract list.  The
  clients build a whole list from a batch of nodes.
\<close>

primrec insert_all :: "('a \<Rightarrow> 'h \<Rightarrow> 'h option) \<Rightarrow> 'a list \<Rightarrow> 'h \<Rightarrow> 'h option" where
  "insert_all ins [] h = Some h"
| "insert_all ins (n # ns) h = do { h \<leftarrow> ins n h; insert_all ins ns h }"

locale node_list =
  fixes rep :: "'h \<Rightarrow> 'a list \<Rightarrow> bool"
    and avail :: "'h \<Rightarrow> 'a \<Rightarrow> bool"
    and ins :: "'a \<Rightarrow> 'h \<Rightarrow> 'h option"
    and place :: "'a \<Rightarrow> 'a list \<Rightarrow> 'a list"
  assumes ins_rep: "rep h xs \<Longrightarrow> avail h n \<Longrightarrow> n \<notin> set xs \<Longrightarrow>
      \<exists>h'. ins n h = Some h' \<and> rep h' (place n xs) \<and> (\<forall>m. avail h m \<longrightarrow> avail h' m)"
    and set_place: "set (place n xs) = insert n (set xs)"
begin

lemma insert_all_rep:
  "rep h xs \<Longrightarrow> (\<forall>n \<in> set ns. avail h n) \<Longrightarrow> distinct ns \<Longrightarrow> set ns \<inter> set xs = {} \<Longrightarrow>
   \<exists>h'. insert_all ins ns h = Some h' \<and> rep h' (fold place ns xs)"
proof (induction ns arbitrary: h xs)
  case Nil
  then show ?case by simp
next
  case (Cons n ns)
  obtain g where g: "ins n h = Some g" "rep g (place n xs)" "\<forall>m. avail h m \<longrightarrow> avail g m"
    using ins_rep [of h xs n] Cons.prems by auto
  have "\<exists>h'. insert_all ins ns g = Some h' \<and> rep h' (fold place ns (place n xs))"
    using g Cons.prems by (intro Cons.IH) (auto simp: set_place)
  with g(1) show ?case by simp
qed

end

lemma fold_Cons_rev: "fold (#) ns xs = rev ns @ xs"
  by (induction ns arbitrary: xs) simp_all

lemma fold_snoc: "fold (\<lambda>n xs. xs @ [n]) ns xs = xs @ ns"
  by (induction ns arbitrary: xs) simp_all

end
