(* ===== verification/ListHead.thy ===== *)
theory ListHead
  imports NodeList
begin

text \<open>
  Model of the circular doubly linked lists of \<open>src/lib/datastructures/linkedlist.h\<close>
  (\<open>struct list_head\<close>).  The heap has one map per field, from the address of a node to the
  address the field holds; an address no node occupies is not in the maps, and reading or
  writing it is undefined behaviour (\<^const>\<open>None\<close>).  Each assignment of the C code is one
  update, in the order of the code.  The leading underscores of \<open>__list_add\<close>, \<open>__list_del\<close>
  and \<open>__list_splice\<close> are written \<open>raw_\<close>.

  \<open>dlist h head xs\<close> is the abstraction: the list headed at \<open>head\<close> has exactly the nodes
  \<open>xs\<close>, in that order, correctly linked both ways.
\<close>

section \<open>The heap\<close>

record list_heap =
  nxt :: "i64 \<Rightarrow> i64 option"
  prv :: "i64 \<Rightarrow> i64 option"

definition set_nxt :: "i64 \<Rightarrow> i64 \<Rightarrow> list_heap \<Rightarrow> list_heap option" where
  "set_nxt p v h = (case nxt h p of None \<Rightarrow> None | Some _ \<Rightarrow> Some (h\<lparr>nxt := (nxt h)(p \<mapsto> v)\<rparr>))"

definition set_prv :: "i64 \<Rightarrow> i64 \<Rightarrow> list_heap \<Rightarrow> list_heap option" where
  "set_prv p v h = (case prv h p of None \<Rightarrow> None | Some _ \<Rightarrow> Some (h\<lparr>prv := (prv h)(p \<mapsto> v)\<rparr>))"

definition LIST_POISON1 :: i64 where
  "LIST_POISON1 = 0x00100100"

definition LIST_POISON2 :: i64 where
  "LIST_POISON2 = 0x00200200"

section \<open>The operations\<close>

definition LIST_HEAD_INIT :: "i64 \<Rightarrow> i64 \<times> i64" where
  "LIST_HEAD_INIT name = (name, name)"

definition LIST_HEAD :: "i64 \<Rightarrow> list_heap \<Rightarrow> list_heap" where
  "LIST_HEAD name h =
     (case LIST_HEAD_INIT name of (n, p) \<Rightarrow> h\<lparr>nxt := (nxt h)(name \<mapsto> n), prv := (prv h)(name \<mapsto> p)\<rparr>)"

definition INIT_LIST_HEAD :: "i64 \<Rightarrow> list_heap \<Rightarrow> list_heap option" where
  "INIT_LIST_HEAD p h = do { h \<leftarrow> set_nxt p p h; set_prv p p h }"

definition raw_list_add :: "i64 \<Rightarrow> i64 \<Rightarrow> i64 \<Rightarrow> list_heap \<Rightarrow> list_heap option" where
  "raw_list_add new prev next h = do {
     h \<leftarrow> set_prv next new h;
     h \<leftarrow> set_nxt new next h;
     h \<leftarrow> set_prv new prev h;
     set_nxt prev new h
   }"

definition list_add :: "i64 \<Rightarrow> i64 \<Rightarrow> list_heap \<Rightarrow> list_heap option" where
  "list_add new head h = do {
     n \<leftarrow> nxt h head;
     raw_list_add new head n h
   }"

definition list_add_tail :: "i64 \<Rightarrow> i64 \<Rightarrow> list_heap \<Rightarrow> list_heap option" where
  "list_add_tail new head h = do {
     p \<leftarrow> prv h head;
     raw_list_add new p head h
   }"

definition raw_list_del :: "i64 \<Rightarrow> i64 \<Rightarrow> list_heap \<Rightarrow> list_heap option" where
  "raw_list_del prev next h = do {
     h \<leftarrow> set_prv next prev h;
     set_nxt prev next h
   }"

definition list_del :: "i64 \<Rightarrow> list_heap \<Rightarrow> list_heap option" where
  "list_del entry h = do {
     p \<leftarrow> prv h entry;
     n \<leftarrow> nxt h entry;
     h \<leftarrow> raw_list_del p n h;
     h \<leftarrow> set_nxt entry LIST_POISON1 h;
     set_prv entry LIST_POISON2 h
   }"

definition list_del_init :: "i64 \<Rightarrow> list_heap \<Rightarrow> list_heap option" where
  "list_del_init entry h = do {
     p \<leftarrow> prv h entry;
     n \<leftarrow> nxt h entry;
     h \<leftarrow> raw_list_del p n h;
     INIT_LIST_HEAD entry h
   }"

definition list_move :: "i64 \<Rightarrow> i64 \<Rightarrow> list_heap \<Rightarrow> list_heap option" where
  "list_move list head h = do {
     p \<leftarrow> prv h list;
     n \<leftarrow> nxt h list;
     h \<leftarrow> raw_list_del p n h;
     list_add list head h
   }"

definition list_move_tail :: "i64 \<Rightarrow> i64 \<Rightarrow> list_heap \<Rightarrow> list_heap option" where
  "list_move_tail list head h = do {
     p \<leftarrow> prv h list;
     n \<leftarrow> nxt h list;
     h \<leftarrow> raw_list_del p n h;
     list_add_tail list head h
   }"

definition list_empty :: "i64 \<Rightarrow> list_heap \<Rightarrow> bool option" where
  "list_empty head h = do { n \<leftarrow> nxt h head; Some (n = head) }"

definition raw_list_splice :: "i64 \<Rightarrow> i64 \<Rightarrow> list_heap \<Rightarrow> list_heap option" where
  "raw_list_splice list head h = do {
     first \<leftarrow> nxt h list;
     last \<leftarrow> prv h list;
     at \<leftarrow> nxt h head;
     h \<leftarrow> set_prv first head h;
     h \<leftarrow> set_nxt head first h;
     h \<leftarrow> set_nxt last at h;
     set_prv at last h
   }"

definition list_splice :: "i64 \<Rightarrow> i64 \<Rightarrow> list_heap \<Rightarrow> list_heap option" where
  "list_splice list head h = do {
     e \<leftarrow> list_empty list h;
     if \<not> e then raw_list_splice list head h else Some h
   }"

definition list_splice_init :: "i64 \<Rightarrow> i64 \<Rightarrow> list_heap \<Rightarrow> list_heap option" where
  "list_splice_init list head h = do {
     e \<leftarrow> list_empty list h;
     if \<not> e then do {
       h \<leftarrow> raw_list_splice list head h;
       INIT_LIST_HEAD list h
     } else Some h
   }"

section \<open>Links\<close>

fun links :: "list_heap \<Rightarrow> i64 list \<Rightarrow> bool" where
  "links h [] = True"
| "links h [a] = True"
| "links h (a # b # xs) = (nxt h a = Some b \<and> prv h b = Some a \<and> links h (b # xs))"

definition dlist :: "list_heap \<Rightarrow> i64 \<Rightarrow> i64 list \<Rightarrow> bool" where
  "dlist h head xs \<longleftrightarrow> links h (head # xs @ [head]) \<and> distinct (head # xs)"

lemma dlist_LIST_HEAD: "dlist (LIST_HEAD name h) name []"
  by (simp add: dlist_def LIST_HEAD_def LIST_HEAD_INIT_def)

definition node_at :: "list_heap \<Rightarrow> i64 \<Rightarrow> bool" where
  "node_at h p \<longleftrightarrow> nxt h p \<noteq> None \<and> prv h p \<noteq> None"

text \<open>Linking \<open>a\<close> to \<open>b\<close>: the pair of writes every operation is made of.\<close>

definition join :: "i64 \<Rightarrow> i64 \<Rightarrow> list_heap \<Rightarrow> list_heap" where
  "join a b h = h\<lparr>nxt := (nxt h)(a \<mapsto> b), prv := (prv h)(b \<mapsto> a)\<rparr>"

lemma join_simps [simp]:
  "nxt (join a b h) = (nxt h)(a \<mapsto> b)" "prv (join a b h) = (prv h)(b \<mapsto> a)"
  by (simp_all add: join_def)

lemma links_append:
  "links h (xs @ y # ys) \<longleftrightarrow> links h (xs @ [y]) \<and> links h (y # ys)"
  by (induction h xs rule: links.induct) (auto split: list.splits)

lemma links_cong:
  "(\<And>a. a \<in> set (butlast xs) \<Longrightarrow> nxt g a = nxt h a) \<Longrightarrow> (\<And>b. b \<in> set (tl xs) \<Longrightarrow> prv g b = prv h b)
   \<Longrightarrow> links g xs = links h xs"
  by (induction h xs rule: links.induct) auto

text \<open>Two correctly linked stretches stay so when the end of one is joined to the start of
  the other, provided neither end is written to elsewhere in them.\<close>

lemma links_join:
  assumes "links h (us @ [a])" and "links h (b # vs)"
    and "a \<notin> set us" and "a \<notin> set (butlast (b # vs))"
    and "b \<notin> set (tl (us @ [a]))" and "b \<notin> set vs"
  shows "links (join a b h) (us @ a # b # vs)"
proof -
  have "links (join a b h) (us @ [a]) = links h (us @ [a])"
    using assms(3,5) by (intro links_cong) auto
  moreover have "links (join a b h) (b # vs) = links h (b # vs)"
    using assms(4,6) by (intro links_cong) auto
  ultimately show ?thesis
    using assms(1,2) by (simp add: links_append [of _ us a "b # vs"])
qed

lemma links_node_at:
  "links h (a # xs @ [b]) \<Longrightarrow> (\<forall>x \<in> set xs. node_at h x) \<and> nxt h a \<noteq> None \<and> prv h b \<noteq> None"
  by (induction xs arbitrary: a) (auto simp: node_at_def)

lemma dlist_node_at: "dlist h head xs \<Longrightarrow> x \<in> set (head # xs) \<Longrightarrow> node_at h x"
  using links_node_at [of h head xs head] by (auto simp: dlist_def node_at_def)

lemma dlist_next: "dlist h head xs \<Longrightarrow> nxt h head = Some (hd (xs @ [head]))"
  by (cases xs) (simp_all add: dlist_def)

lemma dlist_prev: "dlist h head xs \<Longrightarrow> prv h head = Some (last (head # xs))"
proof (cases xs rule: rev_cases)
  case (snoc ys y)
  then show "dlist h head xs \<Longrightarrow> ?thesis"
    using links_append [of h "head # ys" y "[head]"] by (simp add: dlist_def)
qed (simp add: dlist_def)

section \<open>Inserting, deleting and splicing\<close>

lemma last_hd_split:
  "butlast (p # xs) @ [last (p # xs)] = p # xs" "hd (ys @ [p]) # tl (ys @ [p]) = ys @ [p]"
  by (simp_all add: append_butlast_last_id)

lemma dlist_pieces:
  assumes "dlist h head (xs @ ys)"
  shows "links h (head # xs)" and "links h (ys @ [head])"
proof -
  have l: "links h ((head # xs) @ (ys @ [head]))" using assms by (simp add: dlist_def)
  show "links h (head # xs)"
    using l links_append [of h "butlast (head # xs)" "last (head # xs)" "ys @ [head]"]
      last_hd_split(1) [of head xs]
    by (metis append.assoc append_Cons append_Nil)
  show "links h (ys @ [head])"
    using l links_append [of h "head # xs" "hd (ys @ [head])" "tl (ys @ [head])"]
    by (simp add: last_hd_split(2))
qed

lemma dlist_glue:
  assumes "links h (head # xs)" and "links h (ys @ [head])" and "distinct (head # xs @ ys)"
  shows "dlist (join (last (head # xs)) (hd (ys @ [head])) h) head (xs @ ys)"
proof -
  let ?a = "last (head # xs)" and ?us = "butlast (head # xs)"
  let ?b = "hd (ys @ [head])" and ?vs = "tl (ys @ [head])"
  have us: "?us @ [?a] = head # xs" and vs: "?b # ?vs = ys @ [head]"
    by (rule last_hd_split)+
  have bl: "butlast (?b # ?vs) = ys" by (simp add: vs)
  have tl: "tl (?us @ [?a]) = xs" by (simp add: us)
  have "distinct (?us @ [?a])" using assms(3) by (simp add: us del: butlast.simps last.simps)
  then have "?a \<notin> set ?us" by simp
  moreover have "?a \<notin> set ys"
    using assms(3) last_in_set [of "head # xs"] by auto
  moreover have "?b \<notin> set xs" "?b \<notin> set ?vs"
    using assms(3) by (cases ys; auto)+
  ultimately have "links (join ?a ?b h) (?us @ ?a # ?b # ?vs)"
    using assms(1,2) bl tl us vs by (intro links_join) simp_all
  moreover have "?us @ ?a # ?b # ?vs = head # (xs @ ys) @ [head]"
    using us vs by (metis append.assoc append_Cons append_Nil)
  ultimately have "links (join ?a ?b h) (head # (xs @ ys) @ [head])" by (simp only:)
  then show ?thesis using assms(3) by (simp only: dlist_def append.assoc)
qed

lemma dlist_insert:
  assumes "dlist h head (xs @ ys)" and "n \<notin> set (head # xs @ ys)"
  shows "dlist (join (last (head # xs)) n (join n (hd (ys @ [head])) h)) head (xs @ n # ys)"
proof -
  let ?b = "hd (ys @ [head])" and ?vs = "tl (ys @ [head])"
  let ?g = "join n ?b h"
  have d: "distinct (head # xs @ ys)" using assms(1) by (simp add: dlist_def)
  have b: "?b \<notin> set xs" "?b \<notin> set ?vs" using d by (cases ys; auto)+
  have vs: "?b # ?vs = ys @ [head]" by (rule last_hd_split)
  have "links h (?b # ?vs)" using dlist_pieces(2) [OF assms(1)] by (simp add: vs)
  then have "links ?g ([] @ n # ?b # ?vs)"
    using assms(2) b(2) vs by (intro links_join) (auto simp: vs)
  then have 2: "links ?g ((n # ys) @ [head])" by (simp add: vs)
  have "links ?g (head # xs) = links h (head # xs)"
  proof (intro links_cong)
    fix a assume "a \<in> set (butlast (head # xs))"
    then have "a \<noteq> n" using in_set_butlastD [of a "head # xs"] assms(2) by auto
    then show "nxt ?g a = nxt h a" by simp
  next
    fix a assume "a \<in> set (tl (head # xs))"
    then show "prv ?g a = prv h a" using b(1) by auto
  qed
  then have 1: "links ?g (head # xs)" using dlist_pieces(1) [OF assms(1)] by simp
  have "dlist (join (last (head # xs)) (hd ((n # ys) @ [head])) ?g) head (xs @ n # ys)"
    using d assms(2) by (intro dlist_glue 1 2) auto
  then show ?thesis by simp
qed

lemma dlist_delete:
  assumes "dlist h head (xs @ x # ys)"
  shows "dlist (join (last (head # xs)) (hd (ys @ [head])) h) head (xs @ ys)"
proof (rule dlist_glue)
  show "links h (head # xs)" by (rule dlist_pieces) (rule assms)
  have "links h ((x # ys) @ [head])" by (rule dlist_pieces) (rule assms)
  then show "links h (ys @ [head])" by (cases ys) simp_all
  show "distinct (head # xs @ ys)" using assms by (simp add: dlist_def)
qed

lemma dlist_neighbours:
  assumes "dlist h head (xs @ x # ys)"
  shows "nxt h x = Some (hd (ys @ [head]))" and "prv h x = Some (last (head # xs))"
proof -
  have "links h ((x # ys) @ [head])" by (rule dlist_pieces) (rule assms)
  then show "nxt h x = Some (hd (ys @ [head]))" by (cases ys) simp_all
  have "links h (head # xs @ [x])"
    using dlist_pieces(1) [of h head "xs @ [x]" ys] assms by simp
  then have "links h (butlast (head # xs) @ last (head # xs) # [x])"
    by (metis append.assoc append_Cons append_Nil last_hd_split(1))
  then show "prv h x = Some (last (head # xs))"
    using links_append [of h "butlast (head # xs)" "last (head # xs)" "[x]"] by simp
qed

lemma dlist_splice:
  assumes "dlist h list xs" and "xs \<noteq> []" and "dlist h head ys"
    and "set (list # xs) \<inter> set (head # ys) = {}"
  shows "dlist (join (last xs) (hd (ys @ [head])) (join head (hd xs) h)) head (xs @ ys)"
proof -
  obtain x zs where xs: "xs = x # zs" using assms(2) by (cases xs) auto
  let ?g = "join head x h"
  have d: "distinct (head # xs @ ys)" using assms by (auto simp: dlist_def)
  have "links h (list # xs)" using dlist_pieces(1) [of h list xs "[]"] assms(1) by simp
  then have "links h (x # zs)" using xs by simp
  then have "links ?g ([] @ head # x # zs)"
    using d xs by (intro links_join) (auto dest: in_set_butlastD)
  then have 1: "links ?g (head # xs)" by (simp add: xs)
  have "links ?g (ys @ [head]) = links h (ys @ [head])"
    using d assms(4) xs by (intro links_cong) (auto dest!: list.set_sel(2) [rotated])
  then have 2: "links ?g (ys @ [head])"
    using dlist_pieces(2) [of h head "[]" ys] assms(3) by simp
  show ?thesis using dlist_glue [OF 1 2 d] xs by simp
qed

section \<open>Frames\<close>

definition same_except :: "i64 set \<Rightarrow> list_heap \<Rightarrow> list_heap \<Rightarrow> bool" where
  "same_except A h h' \<longleftrightarrow> (\<forall>p. p \<notin> A \<longrightarrow> nxt h' p = nxt h p \<and> prv h' p = prv h p)"

lemma same_except_join [simp]: "a \<in> A \<Longrightarrow> b \<in> A \<Longrightarrow> same_except A h (join a b g) = same_except A h g"
  by (auto simp: same_except_def)

lemma same_except_refl [simp]: "same_except A h h"
  by (simp add: same_except_def)

lemma same_except_trans: "same_except A f g \<Longrightarrow> same_except A g h \<Longrightarrow> same_except A f h"
  by (simp add: same_except_def)

lemma dlist_frame:
  assumes "same_except A h h'" and "A \<inter> set (head # xs) = {}"
  shows "dlist h' head xs = dlist h head xs"
proof -
  have "links h' (head # xs @ [head]) = links h (head # xs @ [head])"
    using assms by (intro links_cong) (auto simp: same_except_def butlast_append)
  then show ?thesis by (simp add: dlist_def)
qed

end
