(* ===== verification/ListOps.thy ===== *)
theory ListOps
  imports ListHead
begin

text \<open>
  The list operations of \<open>linkedlist.h\<close> against the abstraction \<open>dlist\<close>: insertion,
  deletion, moving and splicing, each with the set of nodes it may write; the iteration
  macros; and the interface \<open>node_list\<close> of a list that grows by single insertions, which
  the stack (\<open>list_add\<close>) and the queue (\<open>list_add_tail\<close>) implement.
\<close>

section \<open>Evaluating the operations\<close>

lemma set_nxt_ok [simp]: "nxt h p \<noteq> None \<Longrightarrow> set_nxt p v h = Some (h\<lparr>nxt := (nxt h)(p \<mapsto> v)\<rparr>)"
  by (auto simp: set_nxt_def)

lemma set_prv_ok [simp]: "prv h p \<noteq> None \<Longrightarrow> set_prv p v h = Some (h\<lparr>prv := (prv h)(p \<mapsto> v)\<rparr>)"
  by (auto simp: set_prv_def)

lemma node_at_join: "node_at h x \<Longrightarrow> node_at (join a b h) x"
  by (auto simp: node_at_def)

lemma raw_list_add_ok:
  assumes "node_at h new" and "nxt h prev \<noteq> None" and "prv h next \<noteq> None"
  shows "raw_list_add new prev next h = Some (join prev new (join new next h))"
  using assms by (simp add: raw_list_add_def node_at_def join_def)

lemma raw_list_del_ok:
  assumes "nxt h prev \<noteq> None" and "prv h next \<noteq> None"
  shows "raw_list_del prev next h = Some (join prev next h)"
  using assms by (simp add: raw_list_del_def join_def)

lemma dlist_hd_node: "dlist h head (xs @ ys) \<Longrightarrow> hd (ys @ [head]) \<in> set (head # ys) \<and> node_at h (hd (ys @ [head]))"
  using dlist_node_at [of h head "xs @ ys" "hd (ys @ [head])"] by (cases ys) auto

lemma dlist_last_node: "dlist h head (xs @ ys) \<Longrightarrow> last (head # xs) \<in> set (head # xs) \<and> node_at h (last (head # xs))"
  using dlist_node_at [of h head "xs @ ys" "last (head # xs)"] last_in_set [of "head # xs"] by auto

lemma list_add_ok:
  assumes l: "dlist h head xs" and n: "node_at h new" "new \<notin> set (head # xs)"
  shows "\<exists>h'. list_add new head h = Some h' \<and> dlist h' head (new # xs)
     \<and> same_except (set (new # head # xs)) h h'"
proof -
  let ?b = "hd (xs @ [head])"
  have b: "?b \<in> set (head # xs)" "node_at h ?b"
    using dlist_hd_node [of h head "[]" xs] l by auto
  have "list_add new head h = Some (join head new (join new ?b h))"
    using l n b dlist_node_at [OF l, of head]
    by (simp add: list_add_def dlist_next [OF l] raw_list_add_ok node_at_def)
  moreover have "dlist (join head new (join new ?b h)) head (new # xs)"
    using dlist_insert [of h head "[]" xs new] l n by simp
  ultimately show ?thesis using b(1) by auto
qed

lemma list_add_tail_ok:
  assumes l: "dlist h head xs" and n: "node_at h new" "new \<notin> set (head # xs)"
  shows "\<exists>h'. list_add_tail new head h = Some h' \<and> dlist h' head (xs @ [new])
     \<and> same_except (set (new # head # xs)) h h'"
proof -
  let ?a = "last (head # xs)"
  have a: "?a \<in> set (head # xs)" "node_at h ?a"
    using dlist_last_node [of h head xs "[]"] l by simp_all
  have "list_add_tail new head h = Some (join ?a new (join new head h))"
    using l n a dlist_node_at [OF l, of head]
    by (simp add: list_add_tail_def dlist_prev [OF l] raw_list_add_ok node_at_def del: last.simps)
  moreover have "dlist (join ?a new (join new head h)) head (xs @ [new])"
    using dlist_insert [of h head xs "[]" new] l n by simp
  ultimately show ?thesis using a(1) by (auto simp del: last.simps)
qed

text \<open>Unlinking an entry, the common part of \<open>list_del\<close>, \<open>list_del_init\<close> and the moves.\<close>

lemma unlink_ok:
  assumes l: "dlist h head (xs @ x # ys)"
  obtains p n h' where "prv h x = Some p" "nxt h x = Some n" "raw_list_del p n h = Some h'"
    "dlist h' head (xs @ ys)" "node_at h' x" "same_except (set (head # xs @ ys)) h h'"
proof -
  let ?a = "last (head # xs)" and ?b = "hd (ys @ [head])"
  let ?g = "join ?a ?b h"
  have ab: "?a \<in> set (head # xs)" "?b \<in> set (head # ys)" "node_at h ?a" "node_at h ?b"
    using dlist_last_node [OF l] dlist_hd_node [of h head "xs @ [x]" ys] l by simp_all
  show ?thesis
  proof (rule that)
    show "prv h x = Some ?a" "nxt h x = Some ?b" by (rule dlist_neighbours [OF l])+
    show "raw_list_del ?a ?b h = Some ?g"
      using ab by (intro raw_list_del_ok) (simp_all add: node_at_def)
    show "dlist ?g head (xs @ ys)" by (rule dlist_delete) (rule l)
    show "node_at ?g x" using dlist_node_at [OF l, of x] by (intro node_at_join) simp
    have "?a \<in> set (head # xs @ ys)" "?b \<in> set (head # xs @ ys)" using ab by auto
    then show "same_except (set (head # xs @ ys)) h ?g"
      by (simp only: same_except_join same_except_refl)
  qed
qed

lemma same_except_set: "same_except A h g \<Longrightarrow> x \<in> A \<Longrightarrow>
    same_except A h (g\<lparr>nxt := (nxt g)(x \<mapsto> v), prv := (prv g)(x \<mapsto> w)\<rparr>)"
  by (auto simp: same_except_def)

lemma same_except_mono: "same_except A h g \<Longrightarrow> A \<subseteq> B \<Longrightarrow> same_except B h g"
  by (auto simp: same_except_def)

lemma dlist_write_outside:
  "dlist g head xs \<Longrightarrow> x \<notin> set (head # xs) \<Longrightarrow>
   dlist (g\<lparr>nxt := (nxt g)(x \<mapsto> v), prv := (prv g)(x \<mapsto> w)\<rparr>) head xs"
  using dlist_frame [of "{x}" g "g\<lparr>nxt := (nxt g)(x \<mapsto> v), prv := (prv g)(x \<mapsto> w)\<rparr>" head xs]
  by (auto simp: same_except_def)

lemma list_del_ok:
  assumes l: "dlist h head (xs @ x # ys)"
  shows "\<exists>h'. list_del x h = Some h' \<and> dlist h' head (xs @ ys)
     \<and> nxt h' x = Some LIST_POISON1 \<and> prv h' x = Some LIST_POISON2
     \<and> same_except (set (head # xs @ x # ys)) h h'"
proof -
  obtain p n g where g: "prv h x = Some p" "nxt h x = Some n" "raw_list_del p n h = Some g"
    "dlist g head (xs @ ys)" "node_at g x" "same_except (set (head # xs @ ys)) h g"
    using l by (rule unlink_ok)
  let ?h = "g\<lparr>nxt := (nxt g)(x \<mapsto> LIST_POISON1), prv := (prv g)(x \<mapsto> LIST_POISON2)\<rparr>"
  have "list_del x h = Some ?h"
    using g by (simp add: list_del_def node_at_def)
  moreover have "dlist ?h head (xs @ ys)"
    using g(4) l by (intro dlist_write_outside) (auto simp: dlist_def)
  moreover have "same_except (set (head # xs @ x # ys)) h ?h"
    by (intro same_except_set same_except_mono [OF g(6)]) auto
  ultimately show ?thesis by (intro exI [of _ ?h]) simp
qed

lemma list_del_init_ok:
  assumes l: "dlist h head (xs @ x # ys)"
  shows "\<exists>h'. list_del_init x h = Some h' \<and> dlist h' head (xs @ ys) \<and> dlist h' x []
     \<and> same_except (set (head # xs @ x # ys)) h h'"
proof -
  obtain p n g where g: "prv h x = Some p" "nxt h x = Some n" "raw_list_del p n h = Some g"
    "dlist g head (xs @ ys)" "node_at g x" "same_except (set (head # xs @ ys)) h g"
    using l by (rule unlink_ok)
  let ?h = "g\<lparr>nxt := (nxt g)(x \<mapsto> x), prv := (prv g)(x \<mapsto> x)\<rparr>"
  have "list_del_init x h = Some ?h"
    using g by (simp add: list_del_init_def INIT_LIST_HEAD_def node_at_def)
  moreover have "dlist ?h head (xs @ ys)"
    using g(4) l by (intro dlist_write_outside) (auto simp: dlist_def)
  moreover have "dlist ?h x []" by (simp add: dlist_def)
  moreover have "same_except (set (head # xs @ x # ys)) h ?h"
    by (intro same_except_set same_except_mono [OF g(6)]) auto
  ultimately show ?thesis by (intro exI [of _ ?h]) simp
qed

text \<open>Moving an entry to another position: the lists may be two lists or the same one.\<close>

lemma list_move_ok:
  assumes l: "dlist h src (xs @ x # ys)" and d: "dlist h dst zs"
    and disj: "set (src # xs @ x # ys) \<inter> set (dst # zs) = {}"
  shows "\<exists>h'. list_move x dst h = Some h' \<and> dlist h' src (xs @ ys) \<and> dlist h' dst (x # zs)
       \<and> same_except (set (x # dst # zs) \<union> set (src # xs @ ys)) h h'"
    and "\<exists>h'. list_move_tail x dst h = Some h' \<and> dlist h' src (xs @ ys) \<and> dlist h' dst (zs @ [x])
       \<and> same_except (set (x # dst # zs) \<union> set (src # xs @ ys)) h h'"
proof -
  let ?A = "set (x # dst # zs) \<union> set (src # xs @ ys)"
  obtain p n g where g: "prv h x = Some p" "nxt h x = Some n" "raw_list_del p n h = Some g"
    "dlist g src (xs @ ys)" "node_at g x" "same_except (set (src # xs @ ys)) h g"
    using l by (rule unlink_ok)
  have dg: "dlist g dst zs" using dlist_frame [OF g(6), of dst zs] d disj by auto
  have x: "x \<notin> set (dst # zs)" "x \<notin> set (src # xs @ ys)"
    using disj l by (auto simp: dlist_def)
  have fr: "set (x # dst # zs) \<inter> set (src # xs @ ys) = {}" using disj x(2) by auto
  obtain h1 where h1: "list_add x dst g = Some h1" "dlist h1 dst (x # zs)"
    "same_except (set (x # dst # zs)) g h1"
    using list_add_ok [OF dg g(5) x(1)] by blast
  have f1: "same_except ?A h h1"
    by (rule same_except_trans [OF same_except_mono [OF g(6)] same_except_mono [OF h1(3)]]) auto
  show "\<exists>h'. list_move x dst h = Some h' \<and> dlist h' src (xs @ ys) \<and> dlist h' dst (x # zs) \<and> same_except ?A h h'"
    using g(1-4) h1(1,2) f1 dlist_frame [OF h1(3) fr] by (simp add: list_move_def)
  obtain h2 where h2: "list_add_tail x dst g = Some h2" "dlist h2 dst (zs @ [x])"
    "same_except (set (x # dst # zs)) g h2"
    using list_add_tail_ok [OF dg g(5) x(1)] by blast
  have f2: "same_except ?A h h2"
    by (rule same_except_trans [OF same_except_mono [OF g(6)] same_except_mono [OF h2(3)]]) auto
  show "\<exists>h'. list_move_tail x dst h = Some h' \<and> dlist h' src (xs @ ys) \<and> dlist h' dst (zs @ [x]) \<and> same_except ?A h h'"
    using g(1-4) h2(1,2) f2 dlist_frame [OF h2(3) fr] by (simp add: list_move_tail_def)
qed

lemma list_move_same_ok:
  assumes l: "dlist h head (xs @ x # ys)"
  shows "\<exists>h'. list_move x head h = Some h' \<and> dlist h' head (x # xs @ ys) \<and> same_except (set (x # head # xs @ ys)) h h'"
    and "\<exists>h'. list_move_tail x head h = Some h' \<and> dlist h' head (xs @ ys @ [x]) \<and> same_except (set (x # head # xs @ ys)) h h'"
proof -
  obtain p n g where g: "prv h x = Some p" "nxt h x = Some n" "raw_list_del p n h = Some g"
    "dlist g head (xs @ ys)" "node_at g x" "same_except (set (head # xs @ ys)) h g"
    using l by (rule unlink_ok)
  have x: "x \<notin> set (head # xs @ ys)" using l by (auto simp: dlist_def)
  have f: "same_except (set (x # head # xs @ ys)) h k" if "same_except (set (x # head # xs @ ys)) g k" for k
    by (rule same_except_trans [OF same_except_mono [OF g(6)] that]) auto
  show "\<exists>h'. list_move x head h = Some h' \<and> dlist h' head (x # xs @ ys) \<and> same_except (set (x # head # xs @ ys)) h h'"
    using g(1-3) list_add_ok [OF g(4,5) x] f by (auto simp: list_move_def)
  show "\<exists>h'. list_move_tail x head h = Some h' \<and> dlist h' head (xs @ ys @ [x]) \<and> same_except (set (x # head # xs @ ys)) h h'"
    using g(1-3) list_add_tail_ok [OF g(4,5) x] f by (auto simp: list_move_tail_def)
qed

lemma list_empty_iff: "dlist h head xs \<Longrightarrow> list_empty head h = Some (xs = [])"
  by (cases xs) (auto simp: list_empty_def dlist_def)

lemma raw_list_splice_ok:
  assumes a: "dlist h list xs" "xs \<noteq> []" and b: "dlist h head ys"
    and disj: "set (list # xs) \<inter> set (head # ys) = {}"
  shows "\<exists>h'. raw_list_splice list head h = Some h' \<and> dlist h' head (xs @ ys) \<and> node_at h' list
     \<and> same_except (set (head # xs @ ys)) h h'"
proof -
  let ?at = "hd (ys @ [head])"
  let ?g = "join (last xs) ?at (join head (hd xs) h)"
  have at: "?at \<in> set (head # ys)" "node_at h ?at"
    using dlist_hd_node [of h head "[]" ys] b by auto
  have n: "node_at h (hd xs)" "node_at h (last xs)" "node_at h head" "node_at h list"
    using a dlist_node_at [OF a(1)] dlist_node_at [OF b] by auto
  have p: "nxt h list = Some (hd xs)" "prv h list = Some (last xs)"
    using dlist_next [OF a(1)] dlist_prev [OF a(1)] a(2) by simp_all
  have "raw_list_splice list head h = Some ?g"
    using n at p dlist_next [OF b]
    by (simp add: raw_list_splice_def node_at_def join_def)
  moreover have "dlist ?g head (xs @ ys)" using a b disj by (rule dlist_splice)
  moreover have "node_at ?g list" using n(4) by (intro node_at_join)
  moreover have "same_except (set (head # xs @ ys)) h ?g"
  proof -
    have "last xs \<in> set (head # xs @ ys)" "hd xs \<in> set (head # xs @ ys)"
      "?at \<in> set (head # xs @ ys)" "head \<in> set (head # xs @ ys)"
      using a(2) at(1) by auto
    then show ?thesis by (simp only: same_except_join same_except_refl)
  qed
  ultimately show ?thesis by blast
qed

lemma list_splice_ok:
  assumes a: "dlist h list xs" and b: "dlist h head ys"
    and disj: "set (list # xs) \<inter> set (head # ys) = {}"
  shows "\<exists>h'. list_splice list head h = Some h' \<and> dlist h' head (xs @ ys)
     \<and> same_except (set (head # xs @ ys)) h h'"
proof (cases "xs = []")
  case True
  then show ?thesis using a b by (simp add: list_splice_def list_empty_iff)
next
  case False
  then show ?thesis
    using a raw_list_splice_ok [OF a False b disj] by (auto simp: list_splice_def list_empty_iff)
qed

lemma list_splice_init_ok:
  assumes a: "dlist h list xs" and b: "dlist h head ys"
    and disj: "set (list # xs) \<inter> set (head # ys) = {}"
  shows "\<exists>h'. list_splice_init list head h = Some h' \<and> dlist h' head (xs @ ys) \<and> dlist h' list []
     \<and> same_except (set (list # head # xs @ ys)) h h'"
proof (cases "xs = []")
  case True
  then show ?thesis using a b by (simp add: list_splice_init_def list_empty_iff)
next
  case False
  obtain g where g: "raw_list_splice list head h = Some g" "dlist g head (xs @ ys)" "node_at g list"
    "same_except (set (head # xs @ ys)) h g"
    using raw_list_splice_ok [OF a False b disj] by blast
  let ?h = "g\<lparr>nxt := (nxt g)(list \<mapsto> list), prv := (prv g)(list \<mapsto> list)\<rparr>"
  have "list_splice_init list head h = Some ?h"
    using a False g by (simp add: list_splice_init_def list_empty_iff INIT_LIST_HEAD_def node_at_def)
  moreover have "dlist ?h head (xs @ ys)"
    using g(2) disj a by (intro dlist_write_outside) (auto simp: dlist_def)
  moreover have "dlist ?h list []" by (simp add: dlist_def)
  moreover have "same_except (set (list # head # xs @ ys)) h ?h"
    by (intro same_except_set same_except_mono [OF g(4)]) auto
  ultimately show ?thesis by blast
qed

section \<open>Iteration\<close>

text \<open>
  The macros take a loop body; here it is a function of the position and of the heap paired
  with the client's own state.  The fuel bounds the number of tests of the loop condition:
  running out of it is \<^const>\<open>OutOfFuel\<close>, a null or dangling position \<^const>\<open>WildPointer\<close>.
\<close>

fun each_loop ::
  "nat \<Rightarrow> (i64 \<Rightarrow> list_heap \<times> 's \<Rightarrow> (list_heap \<times> 's) option) \<Rightarrow> i64 \<Rightarrow> i64
   \<Rightarrow> list_heap \<times> 's \<Rightarrow> (list_heap \<times> 's) res"
where
  "each_loop 0 body pos head st = Inl OutOfFuel"
| "each_loop (Suc k) body pos head st =
     (if pos = head then Inr st
      else case body pos st of
        None \<Rightarrow> Inl WildPointer
      | Some st' \<Rightarrow>
          (case nxt (fst st') pos of
             None \<Rightarrow> Inl WildPointer | Some pos' \<Rightarrow> each_loop k body pos' head st'))"

definition list_for_each ::
  "nat \<Rightarrow> (i64 \<Rightarrow> list_heap \<times> 's \<Rightarrow> (list_heap \<times> 's) option) \<Rightarrow> i64
   \<Rightarrow> list_heap \<times> 's \<Rightarrow> (list_heap \<times> 's) res"
where
  "list_for_each fuel body head st =
     (case nxt (fst st) head of
        None \<Rightarrow> Inl WildPointer | Some pos \<Rightarrow> each_loop fuel body pos head st)"

text \<open>\<open>__list_for_each\<close>, documented as the variant without prefetching, is the same loop.\<close>

definition raw_list_for_each ::
  "nat \<Rightarrow> (i64 \<Rightarrow> list_heap \<times> 's \<Rightarrow> (list_heap \<times> 's) option) \<Rightarrow> i64
   \<Rightarrow> list_heap \<times> 's \<Rightarrow> (list_heap \<times> 's) res"
where
  "raw_list_for_each fuel body head st =
     (case nxt (fst st) head of
        None \<Rightarrow> Inl WildPointer | Some pos \<Rightarrow> each_loop fuel body pos head st)"

lemma raw_list_for_each_eq: "raw_list_for_each = list_for_each"
  by (simp add: fun_eq_iff raw_list_for_each_def list_for_each_def)

text \<open>\<open>prefetch(pos->prev)\<close> reads \<open>pos->prev\<close> before the test; the hint itself has no effect.\<close>

fun each_prev_loop ::
  "nat \<Rightarrow> (i64 \<Rightarrow> list_heap \<times> 's \<Rightarrow> (list_heap \<times> 's) option) \<Rightarrow> i64 \<Rightarrow> i64
   \<Rightarrow> list_heap \<times> 's \<Rightarrow> (list_heap \<times> 's) res"
where
  "each_prev_loop 0 body pos head st = Inl OutOfFuel"
| "each_prev_loop (Suc k) body pos head st =
     (if prv (fst st) pos = None then Inl WildPointer
      else if pos = head then Inr st
      else case body pos st of
        None \<Rightarrow> Inl WildPointer
      | Some st' \<Rightarrow>
          (case prv (fst st') pos of
             None \<Rightarrow> Inl WildPointer | Some pos' \<Rightarrow> each_prev_loop k body pos' head st'))"

definition list_for_each_prev ::
  "nat \<Rightarrow> (i64 \<Rightarrow> list_heap \<times> 's \<Rightarrow> (list_heap \<times> 's) option) \<Rightarrow> i64
   \<Rightarrow> list_heap \<times> 's \<Rightarrow> (list_heap \<times> 's) res"
where
  "list_for_each_prev fuel body head st =
     (case prv (fst st) head of
        None \<Rightarrow> Inl WildPointer | Some pos \<Rightarrow> each_prev_loop fuel body pos head st)"

text \<open>The safe variant reads the successor before the body runs.\<close>

fun each_safe_loop ::
  "nat \<Rightarrow> (i64 \<Rightarrow> list_heap \<times> 's \<Rightarrow> (list_heap \<times> 's) option) \<Rightarrow> i64 \<Rightarrow> i64 \<Rightarrow> i64
   \<Rightarrow> list_heap \<times> 's \<Rightarrow> (list_heap \<times> 's) res"
where
  "each_safe_loop 0 body pos n head st = Inl OutOfFuel"
| "each_safe_loop (Suc k) body pos n head st =
     (if pos = head then Inr st
      else case body pos st of
        None \<Rightarrow> Inl WildPointer
      | Some st' \<Rightarrow>
          (case nxt (fst st') n of
             None \<Rightarrow> Inl WildPointer | Some n' \<Rightarrow> each_safe_loop k body n n' head st'))"

definition list_for_each_safe ::
  "nat \<Rightarrow> (i64 \<Rightarrow> list_heap \<times> 's \<Rightarrow> (list_heap \<times> 's) option) \<Rightarrow> i64
   \<Rightarrow> list_heap \<times> 's \<Rightarrow> (list_heap \<times> 's) res"
where
  "list_for_each_safe fuel body head st =
     (case nxt (fst st) head of
        None \<Rightarrow> Inl WildPointer
      | Some pos \<Rightarrow>
          (case nxt (fst st) pos of
             None \<Rightarrow> Inl WildPointer | Some n \<Rightarrow> each_safe_loop fuel body pos n head st))"

text \<open>\<open>container_of\<close> steps back from a member to the struct that holds it.\<close>

definition container_of :: "i64 \<Rightarrow> i64 \<Rightarrow> i64" where
  "container_of ptr off = ptr - off"

definition list_entry :: "i64 \<Rightarrow> i64 \<Rightarrow> i64" where
  "list_entry ptr off = container_of ptr off"

fun each_entry_loop ::
  "nat \<Rightarrow> (i64 \<Rightarrow> list_heap \<times> 's \<Rightarrow> (list_heap \<times> 's) option) \<Rightarrow> i64 \<Rightarrow> i64 \<Rightarrow> i64
   \<Rightarrow> list_heap \<times> 's \<Rightarrow> (list_heap \<times> 's) res"
where
  "each_entry_loop 0 body pos off head st = Inl OutOfFuel"
| "each_entry_loop (Suc k) body pos off head st =
     (if pos + off = head then Inr st
      else case body pos st of
        None \<Rightarrow> Inl WildPointer
      | Some st' \<Rightarrow>
          (case nxt (fst st') (pos + off) of
             None \<Rightarrow> Inl WildPointer
           | Some n \<Rightarrow> each_entry_loop k body (list_entry n off) off head st'))"

definition list_for_each_entry ::
  "nat \<Rightarrow> (i64 \<Rightarrow> list_heap \<times> 's \<Rightarrow> (list_heap \<times> 's) option) \<Rightarrow> i64 \<Rightarrow> i64
   \<Rightarrow> list_heap \<times> 's \<Rightarrow> (list_heap \<times> 's) res"
where
  "list_for_each_entry fuel body off head st =
     (case nxt (fst st) head of
        None \<Rightarrow> Inl WildPointer
      | Some n \<Rightarrow> each_entry_loop fuel body (list_entry n off) off head st)"

text \<open>A body that only reads: it leaves the heap alone and updates the client's state.\<close>

definition reading :: "(i64 \<Rightarrow> 's \<Rightarrow> 's) \<Rightarrow> i64 \<Rightarrow> 'h \<times> 's \<Rightarrow> ('h \<times> 's) option" where
  "reading f p st = Some (fst st, f p (snd st))"

lemma each_loop_reads:
  "dlist h head (xs @ ys) \<Longrightarrow> length ys < fuel \<Longrightarrow>
   each_loop fuel (reading f) (hd (ys @ [head])) head (h, s) = Inr (h, fold f ys s)"
proof (induction ys arbitrary: xs fuel s)
  case Nil
  then show ?case by (cases fuel) simp_all
next
  case (Cons y ys)
  obtain k where k: "fuel = Suc k" "length ys < k" using Cons.prems(2) by (cases fuel) auto
  have y: "y \<noteq> head" using Cons.prems(1) by (auto simp: dlist_def)
  have "nxt h y = Some (hd (ys @ [head]))" by (rule dlist_neighbours) (rule Cons.prems(1))
  with y k Cons.IH [of "xs @ [y]" k "f y s"] Cons.prems(1) show ?case
    by (simp add: reading_def)
qed

lemma each_entry_loop_reads:
  "dlist h head (xs @ ys) \<Longrightarrow> length ys < fuel \<Longrightarrow>
   each_entry_loop fuel (reading f) (list_entry (hd (ys @ [head])) off) off head (h, s)
     = Inr (h, fold f (map (\<lambda>p. list_entry p off) ys) s)"
proof (induction ys arbitrary: xs fuel s)
  case Nil
  then show ?case by (cases fuel) (simp_all add: list_entry_def container_of_def)
next
  case (Cons y ys)
  obtain k where k: "fuel = Suc k" "length ys < k" using Cons.prems(2) by (cases fuel) auto
  have y: "y \<noteq> head" using Cons.prems(1) by (auto simp: dlist_def)
  have "nxt h y = Some (hd (ys @ [head]))" by (rule dlist_neighbours) (rule Cons.prems(1))
  with y k Cons.IH [of "xs @ [y]" k "f (list_entry y off) s"] Cons.prems(1) show ?case
    by (simp add: reading_def list_entry_def container_of_def)
qed

lemma each_prev_loop_reads:
  "dlist h head (xs @ ys) \<Longrightarrow> length xs < fuel \<Longrightarrow>
   each_prev_loop fuel (reading f) (last (head # xs)) head (h, s) = Inr (h, fold f (rev xs) s)"
proof (induction xs arbitrary: ys fuel s rule: rev_induct)
  case Nil
  have "prv h head \<noteq> None" using dlist_node_at [OF Nil.prems(1), of head] by (simp add: node_at_def)
  with Nil show ?case by (cases fuel) simp_all
next
  case (snoc x xs)
  obtain k where k: "fuel = Suc k" "length xs < k" using snoc.prems(2) by (cases fuel) auto
  have l: "dlist h head (xs @ x # ys)" using snoc.prems(1) by simp
  have x: "x \<noteq> head" using l by (auto simp: dlist_def)
  have "prv h x = Some (last (head # xs))" by (rule dlist_neighbours) (rule l)
  with x k snoc.IH [OF l, of k "f x s"] show ?case
    by (simp add: reading_def del: last.simps) (simp add: last_append)
qed

text \<open>A body that deletes every entry it visits and records it.\<close>

definition deleting :: "i64 \<Rightarrow> list_heap \<times> i64 list \<Rightarrow> (list_heap \<times> i64 list) option" where
  "deleting p st = (case list_del p (fst st) of None \<Rightarrow> None | Some h \<Rightarrow> Some (h, snd st @ [p]))"

lemma each_safe_loop_deletes:
  "dlist h head xs \<Longrightarrow> length xs < fuel \<Longrightarrow> nxt h (hd (xs @ [head])) = Some n \<Longrightarrow>
   \<exists>h'. each_safe_loop fuel deleting (hd (xs @ [head])) n head (h, acc) = Inr (h', acc @ xs)
     \<and> dlist h' head []"
proof (induction xs arbitrary: h fuel n acc)
  case Nil
  then show ?case by (cases fuel) simp_all
next
  case (Cons x xs)
  obtain k where k: "fuel = Suc k" "length xs < k" using Cons.prems(2) by (cases fuel) auto
  have l: "dlist h head ([] @ x # xs)" using Cons.prems(1) by simp
  have x: "x \<noteq> head" using l by (auto simp: dlist_def)
  have n: "n = hd (xs @ [head])"
    using dlist_neighbours(1) [OF l] Cons.prems(3) by simp
  obtain g where g: "list_del x h = Some g" "dlist g head xs"
    using list_del_ok [OF l] by auto
  have "node_at g (hd (xs @ [head]))"
    using dlist_hd_node [of g head "[]" xs] g(2) by simp
  then obtain n' where n': "nxt g (hd (xs @ [head])) = Some n'" by (auto simp: node_at_def)
  show ?case
    using Cons.IH [OF g(2) k(2) n', of "acc @ [x]"] k(1) x g(1) n n'
    by (simp add: deleting_def)
qed

section \<open>Stacks and queues\<close>

text \<open>A node is available to the list headed at \<open>head\<close> when it is allocated and not the head.\<close>

definition free_node :: "i64 \<Rightarrow> list_heap \<Rightarrow> i64 \<Rightarrow> bool" where
  "free_node head h n \<longleftrightarrow> node_at h n \<and> n \<noteq> head"

lemma same_except_node_at:
  assumes "same_except A h h'" and "\<And>x. x \<in> A \<Longrightarrow> node_at h' x" and "node_at h m"
  shows "node_at h' m"
  using assms by (cases "m \<in> A") (auto simp: same_except_def node_at_def)

interpretation lstack: node_list "\<lambda>h. dlist h head" "free_node head" "\<lambda>n. list_add n head" "(#)"
  for head :: i64
proof unfold_locales
  fix h xs n assume l: "dlist h head xs" and n: "free_node head h n" "n \<notin> set xs"
  obtain h' where h': "list_add n head h = Some h'" "dlist h' head (n # xs)"
    "same_except (set (n # head # xs)) h h'"
    using list_add_ok [OF l, of n] n by (auto simp: free_node_def)
  have "node_at h' m" if "node_at h m" for m
    using h'(3) _ that by (rule same_except_node_at) (use dlist_node_at [OF h'(2)] in auto)
  with h' show "\<exists>h'. list_add n head h = Some h' \<and> dlist h' head (n # xs)
      \<and> (\<forall>m. free_node head h m \<longrightarrow> free_node head h' m)"
    by (auto simp: free_node_def)
qed simp

interpretation lqueue: node_list "\<lambda>h. dlist h head" "free_node head" "\<lambda>n. list_add_tail n head"
  "\<lambda>n xs. xs @ [n]"
  for head :: i64
proof unfold_locales
  fix h xs n assume l: "dlist h head xs" and n: "free_node head h n" "n \<notin> set xs"
  obtain h' where h': "list_add_tail n head h = Some h'" "dlist h' head (xs @ [n])"
    "same_except (set (n # head # xs)) h h'"
    using list_add_tail_ok [OF l, of n] n by (auto simp: free_node_def)
  have "node_at h' m" if "node_at h m" for m
    using h'(3) _ that by (rule same_except_node_at) (use dlist_node_at [OF h'(2)] in auto)
  with h' show "\<exists>h'. list_add_tail n head h = Some h' \<and> dlist h' head (xs @ [n])
      \<and> (\<forall>m. free_node head h m \<longrightarrow> free_node head h' m)"
    by (auto simp: free_node_def)
qed simp

end
