(* ===== verification/ListEntries.thy ===== *)
theory ListEntries
  imports ListOps
begin

text \<open>
  The iteration macros of \<open>linkedlist.h\<close> over the structs that embed the nodes
  (\<open>list_for_each_entry_reverse\<close>, \<open>_continue\<close>, \<open>_safe\<close>, \<open>_safe_continue\<close>,
  \<open>_safe_reverse\<close>).  \<open>off\<close> is the offset of the member in the struct, positions are
  addresses of structs.  Each loop is related to a loop over the nodes, so that the facts
  about those carry over.
\<close>

fun entry_reverse_loop ::
  "nat \<Rightarrow> (i64 \<Rightarrow> list_heap \<times> 's \<Rightarrow> (list_heap \<times> 's) option) \<Rightarrow> i64 \<Rightarrow> i64 \<Rightarrow> i64
   \<Rightarrow> list_heap \<times> 's \<Rightarrow> (list_heap \<times> 's) res"
where
  "entry_reverse_loop 0 body pos off head st = Inl OutOfFuel"
| "entry_reverse_loop (Suc k) body pos off head st =
     (if pos + off = head then Inr st
      else case body pos st of
        None \<Rightarrow> Inl WildPointer
      | Some st' \<Rightarrow>
          (case prv (fst st') (pos + off) of
             None \<Rightarrow> Inl WildPointer
           | Some n \<Rightarrow> entry_reverse_loop k body (list_entry n off) off head st'))"

definition list_for_each_entry_reverse ::
  "nat \<Rightarrow> (i64 \<Rightarrow> list_heap \<times> 's \<Rightarrow> (list_heap \<times> 's) option) \<Rightarrow> i64 \<Rightarrow> i64
   \<Rightarrow> list_heap \<times> 's \<Rightarrow> (list_heap \<times> 's) res"
where
  "list_for_each_entry_reverse fuel body off head st =
     (case prv (fst st) head of
        None \<Rightarrow> Inl WildPointer
      | Some n \<Rightarrow> entry_reverse_loop fuel body (list_entry n off) off head st)"

text \<open>A null \<open>pos\<close> starts the continuing loops at the head.\<close>

definition list_prepare_entry :: "i64 \<Rightarrow> i64 \<Rightarrow> i64 \<Rightarrow> i64" where
  "list_prepare_entry pos head off = (if pos \<noteq> 0 then pos else list_entry head off)"

definition list_for_each_entry_continue ::
  "nat \<Rightarrow> (i64 \<Rightarrow> list_heap \<times> 's \<Rightarrow> (list_heap \<times> 's) option) \<Rightarrow> i64 \<Rightarrow> i64 \<Rightarrow> i64
   \<Rightarrow> list_heap \<times> 's \<Rightarrow> (list_heap \<times> 's) res"
where
  "list_for_each_entry_continue fuel body pos off head st =
     (case nxt (fst st) (pos + off) of
        None \<Rightarrow> Inl WildPointer
      | Some n \<Rightarrow> each_entry_loop fuel body (list_entry n off) off head st)"

text \<open>The safe loops keep the next entry in \<open>n\<close> and read its successor after the body;
  \<open>nx\<close> is \<^const>\<open>nxt\<close> or, backwards, \<^const>\<open>prv\<close>.\<close>

fun entry_safe_loop ::
  "(list_heap \<Rightarrow> i64 \<Rightarrow> i64 option) \<Rightarrow> nat
   \<Rightarrow> (i64 \<Rightarrow> list_heap \<times> 's \<Rightarrow> (list_heap \<times> 's) option) \<Rightarrow> i64 \<Rightarrow> i64 \<Rightarrow> i64 \<Rightarrow> i64
   \<Rightarrow> list_heap \<times> 's \<Rightarrow> (list_heap \<times> 's) res"
where
  "entry_safe_loop nx 0 body pos n off head st = Inl OutOfFuel"
| "entry_safe_loop nx (Suc k) body pos n off head st =
     (if pos + off = head then Inr st
      else case body pos st of
        None \<Rightarrow> Inl WildPointer
      | Some st' \<Rightarrow>
          (case nx (fst st') (n + off) of
             None \<Rightarrow> Inl WildPointer
           | Some n' \<Rightarrow> entry_safe_loop nx k body n (list_entry n' off) off head st'))"

definition safe_from ::
  "(list_heap \<Rightarrow> i64 \<Rightarrow> i64 option) \<Rightarrow> nat
   \<Rightarrow> (i64 \<Rightarrow> list_heap \<times> 's \<Rightarrow> (list_heap \<times> 's) option) \<Rightarrow> i64 \<Rightarrow> i64 \<Rightarrow> i64
   \<Rightarrow> list_heap \<times> 's \<Rightarrow> (list_heap \<times> 's) res"
where
  "safe_from nx fuel body start off head st =
     (case nx (fst st) start of
        None \<Rightarrow> Inl WildPointer
      | Some p \<Rightarrow>
          (case nx (fst st) (list_entry p off + off) of
             None \<Rightarrow> Inl WildPointer
           | Some n \<Rightarrow> entry_safe_loop nx fuel body (list_entry p off) (list_entry n off) off head st))"

definition list_for_each_entry_safe ::
  "nat \<Rightarrow> (i64 \<Rightarrow> list_heap \<times> 's \<Rightarrow> (list_heap \<times> 's) option) \<Rightarrow> i64 \<Rightarrow> i64
   \<Rightarrow> list_heap \<times> 's \<Rightarrow> (list_heap \<times> 's) res"
where
  "list_for_each_entry_safe fuel body off head st = safe_from nxt fuel body head off head st"

definition list_for_each_entry_safe_continue ::
  "nat \<Rightarrow> (i64 \<Rightarrow> list_heap \<times> 's \<Rightarrow> (list_heap \<times> 's) option) \<Rightarrow> i64 \<Rightarrow> i64 \<Rightarrow> i64
   \<Rightarrow> list_heap \<times> 's \<Rightarrow> (list_heap \<times> 's) res"
where
  "list_for_each_entry_safe_continue fuel body pos off head st =
     safe_from nxt fuel body (pos + off) off head st"

definition list_for_each_entry_safe_reverse ::
  "nat \<Rightarrow> (i64 \<Rightarrow> list_heap \<times> 's \<Rightarrow> (list_heap \<times> 's) option) \<Rightarrow> i64 \<Rightarrow> i64
   \<Rightarrow> list_heap \<times> 's \<Rightarrow> (list_heap \<times> 's) res"
where
  "list_for_each_entry_safe_reverse fuel body off head st = safe_from prv fuel body head off head st"

lemma list_entry_cancel [simp]:
  "list_entry p off + off = p" "list_entry (p + off) off = p" "list_entry p off = list_entry q off \<longleftrightarrow> p = q"
  by (simp_all add: list_entry_def container_of_def)

lemma entry_safe_loop_nodes:
  "entry_safe_loop nxt k body (list_entry p off) (list_entry n off) off head st
     = each_safe_loop k (\<lambda>q. body (list_entry q off)) p n head st"
  by (induction k arbitrary: p n st) (simp_all split: option.split)

lemma safe_continue_nodes:
  "list_for_each_entry_safe_continue fuel body (list_entry p off) off head st =
     (case nxt (fst st) p of
        None \<Rightarrow> Inl WildPointer
      | Some q \<Rightarrow>
          (case nxt (fst st) q of
             None \<Rightarrow> Inl WildPointer
           | Some n \<Rightarrow> each_safe_loop fuel (\<lambda>q. body (list_entry q off)) q n head st))"
  by (simp add: list_for_each_entry_safe_continue_def safe_from_def entry_safe_loop_nodes
      split: option.split)

lemma entry_reverse_loop_reads:
  "dlist h head (xs @ ys) \<Longrightarrow> length xs < fuel \<Longrightarrow>
   entry_reverse_loop fuel (reading f) (list_entry (last (head # xs)) off) off head (h, s)
     = Inr (h, fold f (map (\<lambda>p. list_entry p off) (rev xs)) s)"
proof (induction xs arbitrary: ys fuel s rule: rev_induct)
  case Nil
  then show ?case by (cases fuel) simp_all
next
  case (snoc x xs)
  obtain k where k: "fuel = Suc k" "length xs < k" using snoc.prems(2) by (cases fuel) auto
  have l: "dlist h head (xs @ x # ys)" using snoc.prems(1) by simp
  have x: "x \<noteq> head" using l by (auto simp: dlist_def)
  have "prv h x = Some (last (head # xs))" by (rule dlist_neighbours) (rule l)
  with x k snoc.IH [OF l, of k "f (list_entry x off) s"] show ?case
    by (simp add: reading_def del: last.simps) (simp add: last_append)
qed

text \<open>Deleting the entry's node through its member.\<close>

definition deleting_entry ::
  "i64 \<Rightarrow> i64 \<Rightarrow> list_heap \<times> i64 list \<Rightarrow> (list_heap \<times> i64 list) option"
where
  "deleting_entry off e st =
     (case list_del (e + off) (fst st) of None \<Rightarrow> None | Some h \<Rightarrow> Some (h, snd st @ [e]))"

lemma each_safe_loop_deletes_entries:
  "dlist h head (us @ xs) \<Longrightarrow> length xs < fuel \<Longrightarrow> nxt h (hd (xs @ [head])) = Some n \<Longrightarrow>
   \<exists>h'. each_safe_loop fuel (\<lambda>q. deleting_entry off (list_entry q off)) (hd (xs @ [head])) n head (h, acc)
       = Inr (h', acc @ map (\<lambda>p. list_entry p off) xs)
     \<and> dlist h' head us"
proof (induction xs arbitrary: h fuel n acc)
  case Nil
  then show ?case by (cases fuel) simp_all
next
  case (Cons x xs)
  obtain k where k: "fuel = Suc k" "length xs < k" using Cons.prems(2) by (cases fuel) auto
  have l: "dlist h head (us @ x # xs)" using Cons.prems(1) by simp
  have x: "x \<noteq> head" using l by (auto simp: dlist_def)
  have n: "n = hd (xs @ [head])"
    using dlist_neighbours(1) [OF l] Cons.prems(3) by simp
  obtain g where g: "list_del x h = Some g" "dlist g head (us @ xs)"
    using list_del_ok [OF l] by auto
  have "node_at g (hd (xs @ [head]))"
    using dlist_hd_node [of g head us xs] g(2) by simp
  then obtain n' where n': "nxt g (hd (xs @ [head])) = Some n'" by (auto simp: node_at_def)
  show ?case
    using Cons.IH [OF g(2) k(2) n', of "acc @ [list_entry x off]"] k(1) x g(1) n n'
    by (simp add: deleting_entry_def)
qed

lemma safe_removal_loops:
  assumes l: "dlist h head xs" and f: "length xs < fuel"
  shows "\<exists>h'. list_for_each_safe fuel deleting head (h, []) = Inr (h', xs) \<and> dlist h' head []"
    and "\<exists>h'. list_for_each_entry_safe fuel (deleting_entry off) off head (h, [])
            = Inr (h', map (\<lambda>p. list_entry p off) xs) \<and> dlist h' head []"
proof -
  have l0: "dlist h head ([] @ xs)" using l by simp
  obtain n where n: "nxt h (hd (xs @ [head])) = Some n"
    using dlist_hd_node [OF l0] by (auto simp: node_at_def)
  show "\<exists>h'. list_for_each_safe fuel deleting head (h, []) = Inr (h', xs) \<and> dlist h' head []"
    using each_safe_loop_deletes [OF l f n, of "[]"] n
    by (simp add: list_for_each_safe_def dlist_next [OF l])
  show "\<exists>h'. list_for_each_entry_safe fuel (deleting_entry off) off head (h, [])
            = Inr (h', map (\<lambda>p. list_entry p off) xs) \<and> dlist h' head []"
    using each_safe_loop_deletes_entries [OF l0 f n, of off "[]"] n
    by (simp add: list_for_each_entry_safe_def safe_from_def dlist_next [OF l] entry_safe_loop_nodes)
qed

lemma safe_continue_removal:
  assumes l: "dlist h head (us @ y # ys)" and f: "length ys < fuel"
  shows "\<exists>h'. list_for_each_entry_safe_continue fuel (deleting_entry off) (list_entry y off) off head (h, [])
            = Inr (h', map (\<lambda>p. list_entry p off) ys) \<and> dlist h' head (us @ [y])"
proof -
  have l': "dlist h head ((us @ [y]) @ ys)" using l by simp
  obtain n where n: "nxt h (hd (ys @ [head])) = Some n"
    using dlist_hd_node [OF l'] by (auto simp: node_at_def)
  show ?thesis
    using each_safe_loop_deletes_entries [OF l' f n, of off "[]"] n
    by (simp add: safe_continue_nodes dlist_neighbours(1) [OF l])
qed

text \<open>After \<open>list_del\<close> the entry's \<open>next\<close> is the poison; a plain loop goes there.\<close>

lemma plain_removal_faults:
  assumes l: "dlist h head (x # xs)" and p: "prv h LIST_POISON1 = None"
  shows "list_for_each (Suc (Suc k)) deleting head (h, []) = Inl WildPointer"
proof -
  have l0: "dlist h head ([] @ x # xs)" using l by simp
  obtain g where g: "list_del x h = Some g" "nxt g x = Some LIST_POISON1"
    "same_except (set (head # x # xs)) h g"
    using list_del_ok [OF l0] by auto
  have np: "LIST_POISON1 \<notin> set (head # x # xs)"
    using dlist_node_at [OF l, of LIST_POISON1] p by (auto simp: node_at_def)
  have "prv g LIST_POISON1 = None" using g(3) np p by (simp add: same_except_def)
  moreover have "x \<noteq> head" using l by (auto simp: dlist_def)
  ultimately show ?thesis
    using g np dlist_next [OF l]
    by (auto simp: list_for_each_def deleting_def list_del_def)
qed

end
