(* ===== verification/HList.thy ===== *)
theory HList
  imports ListOps
begin

text \<open>
  Model of the singly headed lists of \<open>linkedlist.h\<close> (\<open>struct hlist_head\<close> and
  \<open>struct hlist_node\<close>).  A node stores in \<open>pprev\<close> the address of the pointer that points to
  it: the \<open>first\<close> field of the head or the \<open>next\<close> field of its predecessor.  Both fields are
  the first of their struct, so \<open>&h->first\<close> is the address of the head and \<open>&n->next\<close> the
  address of the node; \<open>cell\<close> holds the \<open>struct hlist_node *\<close> objects at these addresses
  and \<open>ppr\<close> the \<open>pprev\<close> fields.  The null pointer is 0.

  \<open>hlist h head xs\<close>: the list headed at \<open>head\<close> has exactly the nodes \<open>xs\<close>.
\<close>

section \<open>The heap and the operations\<close>

record hlist_heap =
  cell :: "i64 \<Rightarrow> i64 option"
  ppr :: "i64 \<Rightarrow> i64 option"

definition set_cell :: "i64 \<Rightarrow> i64 \<Rightarrow> hlist_heap \<Rightarrow> hlist_heap option" where
  "set_cell p v h = (case cell h p of None \<Rightarrow> None | Some _ \<Rightarrow> Some (h\<lparr>cell := (cell h)(p \<mapsto> v)\<rparr>))"

definition set_ppr :: "i64 \<Rightarrow> i64 \<Rightarrow> hlist_heap \<Rightarrow> hlist_heap option" where
  "set_ppr p v h = (case ppr h p of None \<Rightarrow> None | Some _ \<Rightarrow> Some (h\<lparr>ppr := (ppr h)(p \<mapsto> v)\<rparr>))"

definition HLIST_HEAD_INIT :: i64 where
  "HLIST_HEAD_INIT = 0"

definition HLIST_HEAD :: "i64 \<Rightarrow> hlist_heap \<Rightarrow> hlist_heap" where
  "HLIST_HEAD name h = h\<lparr>cell := (cell h)(name \<mapsto> HLIST_HEAD_INIT)\<rparr>"

definition INIT_HLIST_HEAD :: "i64 \<Rightarrow> hlist_heap \<Rightarrow> hlist_heap option" where
  "INIT_HLIST_HEAD p h = set_cell p 0 h"

definition INIT_HLIST_NODE :: "i64 \<Rightarrow> hlist_heap \<Rightarrow> hlist_heap option" where
  "INIT_HLIST_NODE p h = do { h \<leftarrow> set_cell p 0 h; set_ppr p 0 h }"

definition hlist_unhashed :: "i64 \<Rightarrow> hlist_heap \<Rightarrow> bool option" where
  "hlist_unhashed n h = do { p \<leftarrow> ppr h n; Some (p = 0) }"

definition hlist_empty :: "i64 \<Rightarrow> hlist_heap \<Rightarrow> bool option" where
  "hlist_empty head h = do { f \<leftarrow> cell h head; Some (f = 0) }"

definition raw_hlist_del :: "i64 \<Rightarrow> hlist_heap \<Rightarrow> hlist_heap option" where
  "raw_hlist_del n h = do {
     next \<leftarrow> cell h n;
     pprev \<leftarrow> ppr h n;
     h \<leftarrow> set_cell pprev next h;
     if next \<noteq> 0 then set_ppr next pprev h else Some h
   }"

definition hlist_del :: "i64 \<Rightarrow> hlist_heap \<Rightarrow> hlist_heap option" where
  "hlist_del n h = do {
     h \<leftarrow> raw_hlist_del n h;
     h \<leftarrow> set_cell n LIST_POISON1 h;
     set_ppr n LIST_POISON2 h
   }"

definition hlist_del_init :: "i64 \<Rightarrow> hlist_heap \<Rightarrow> hlist_heap option" where
  "hlist_del_init n h = do {
     pprev \<leftarrow> ppr h n;
     if pprev \<noteq> 0 then do {
       h \<leftarrow> raw_hlist_del n h;
       INIT_HLIST_NODE n h
     } else Some h
   }"

definition hlist_add_head :: "i64 \<Rightarrow> i64 \<Rightarrow> hlist_heap \<Rightarrow> hlist_heap option" where
  "hlist_add_head n head h = do {
     first \<leftarrow> cell h head;
     h \<leftarrow> set_cell n first h;
     h \<leftarrow> (if first \<noteq> 0 then set_ppr first n h else Some h);
     h \<leftarrow> set_cell head n h;
     set_ppr n head h
   }"

definition hlist_add_before :: "i64 \<Rightarrow> i64 \<Rightarrow> hlist_heap \<Rightarrow> hlist_heap option" where
  "hlist_add_before n next h = do {
     pprev \<leftarrow> ppr h next;
     h \<leftarrow> set_ppr n pprev h;
     h \<leftarrow> set_cell n next h;
     h \<leftarrow> set_ppr next n h;
     pn \<leftarrow> ppr h n;
     set_cell pn n h
   }"

definition hlist_add_after :: "i64 \<Rightarrow> i64 \<Rightarrow> hlist_heap \<Rightarrow> hlist_heap option" where
  "hlist_add_after n next h = do {
     nn \<leftarrow> cell h n;
     h \<leftarrow> set_cell next nn h;
     h \<leftarrow> set_cell n next h;
     h \<leftarrow> set_ppr next n h;
     m \<leftarrow> cell h next;
     if m \<noteq> 0 then set_ppr m next h else Some h
   }"

section \<open>Links\<close>

fun hlinks :: "hlist_heap \<Rightarrow> i64 list \<Rightarrow> bool" where
  "hlinks h [] = True"
| "hlinks h [a] = True"
| "hlinks h (a # b # xs) =
     (cell h a = Some b \<and> (b \<noteq> 0 \<longrightarrow> ppr h b = Some a) \<and> hlinks h (b # xs))"

definition hlist :: "hlist_heap \<Rightarrow> i64 \<Rightarrow> i64 list \<Rightarrow> bool" where
  "hlist h head xs \<longleftrightarrow> hlinks h (head # xs @ [0]) \<and> distinct (head # xs @ [0])"

lemma hlist_HLIST_HEAD: "name \<noteq> 0 \<Longrightarrow> hlist (HLIST_HEAD name h) name []"
  by (simp add: hlist_def HLIST_HEAD_def HLIST_HEAD_INIT_def)

definition hnode_at :: "hlist_heap \<Rightarrow> i64 \<Rightarrow> bool" where
  "hnode_at h p \<longleftrightarrow> p \<noteq> 0 \<and> cell h p \<noteq> None \<and> ppr h p \<noteq> None"

definition hjoin :: "i64 \<Rightarrow> i64 \<Rightarrow> hlist_heap \<Rightarrow> hlist_heap" where
  "hjoin a b h = h\<lparr>cell := (cell h)(a \<mapsto> b), ppr := (if b = 0 then ppr h else (ppr h)(b \<mapsto> a))\<rparr>"

lemma hjoin_simps [simp]:
  "cell (hjoin a b h) = (cell h)(a \<mapsto> b)"
  "ppr (hjoin a b h) = (if b = 0 then ppr h else (ppr h)(b \<mapsto> a))"
  by (simp_all add: hjoin_def)

lemma hlinks_append: "hlinks h (xs @ y # ys) \<longleftrightarrow> hlinks h (xs @ [y]) \<and> hlinks h (y # ys)"
  by (induction h xs rule: hlinks.induct) (auto split: list.splits)

lemma hlinks_cong:
  "(\<And>a. a \<in> set (butlast xs) \<Longrightarrow> cell g a = cell h a)
   \<Longrightarrow> (\<And>b. b \<in> set (tl xs) \<Longrightarrow> b \<noteq> 0 \<Longrightarrow> ppr g b = ppr h b) \<Longrightarrow> hlinks g xs = hlinks h xs"
  by (induction h xs rule: hlinks.induct) auto

lemma hlinks_join:
  assumes "hlinks h (us @ [a])" and "hlinks h (b # vs)"
    and "a \<notin> set us" and "a \<notin> set (butlast (b # vs))"
    and "b \<notin> set (tl (us @ [a]))" and "b \<notin> set vs"
  shows "hlinks (hjoin a b h) (us @ a # b # vs)"
proof -
  have "hlinks (hjoin a b h) (us @ [a]) = hlinks h (us @ [a])"
    using assms(3,5) by (intro hlinks_cong) auto
  moreover have "hlinks (hjoin a b h) (b # vs) = hlinks h (b # vs)"
    using assms(4,6) by (intro hlinks_cong) auto
  ultimately show ?thesis
    using assms(1,2) by (simp add: hlinks_append [of _ us a "b # vs"])
qed

lemma hlist_pieces:
  assumes "hlist h head (xs @ ys)"
  shows "hlinks h (head # xs)" and "hlinks h (ys @ [0])"
proof -
  have l: "hlinks h ((head # xs) @ (ys @ [0]))" using assms by (simp add: hlist_def)
  show "hlinks h (head # xs)"
    using l hlinks_append [of h "butlast (head # xs)" "last (head # xs)" "ys @ [0]"]
      last_hd_split(1) [of head xs]
    by (metis append.assoc append_Cons append_Nil)
  show "hlinks h (ys @ [0])"
    using l hlinks_append [of h "head # xs" "hd (ys @ [0])" "tl (ys @ [0])"]
    by (simp add: last_hd_split(2))
qed

lemma hlist_glue:
  assumes "hlinks h (head # xs)" and "hlinks h (ys @ [0])" and "distinct (head # xs @ ys @ [0])"
  shows "hlist (hjoin (last (head # xs)) (hd (ys @ [0])) h) head (xs @ ys)"
proof -
  let ?a = "last (head # xs)" and ?us = "butlast (head # xs)"
  let ?b = "hd (ys @ [0])" and ?vs = "tl (ys @ [0])"
  have us: "?us @ [?a] = head # xs" and vs: "?b # ?vs = ys @ [0]"
    by (rule last_hd_split)+
  have bl: "butlast (?b # ?vs) = ys" by (simp add: vs)
  have tl: "tl (?us @ [?a]) = xs" by (simp add: us)
  have "distinct (?us @ [?a])" using assms(3) by (simp add: us del: butlast.simps last.simps)
  then have "?a \<notin> set ?us" by simp
  moreover have "?a \<notin> set ys"
    using assms(3) last_in_set [of "head # xs"] by auto
  moreover have "?b \<notin> set xs" "?b \<notin> set ?vs"
    using assms(3) by (cases ys; auto)+
  ultimately have "hlinks (hjoin ?a ?b h) (?us @ ?a # ?b # ?vs)"
    using assms(1,2) bl tl us vs by (intro hlinks_join) simp_all
  moreover have "?us @ ?a # ?b # ?vs = head # (xs @ ys) @ [0]"
    using us vs by (metis append.assoc append_Cons append_Nil)
  ultimately have "hlinks (hjoin ?a ?b h) (head # (xs @ ys) @ [0])" by (simp only:)
  then show ?thesis using assms(3) by (simp only: hlist_def append.assoc)
qed

lemma hlist_insert:
  assumes "hlist h head (xs @ ys)" and "n \<notin> set (head # xs @ ys @ [0])"
  shows "hlist (hjoin (last (head # xs)) n (hjoin n (hd (ys @ [0])) h)) head (xs @ n # ys)"
proof -
  let ?b = "hd (ys @ [0])" and ?vs = "tl (ys @ [0])"
  let ?g = "hjoin n ?b h"
  have d: "distinct (head # xs @ ys @ [0])" using assms(1) by (simp add: hlist_def)
  have b: "?b \<notin> set xs" "?b \<notin> set ?vs" using d by (cases ys; auto)+
  have vs: "?b # ?vs = ys @ [0]" by (rule last_hd_split)
  have "hlinks h (?b # ?vs)" using hlist_pieces(2) [OF assms(1)] by (simp add: vs)
  then have "hlinks ?g ([] @ n # ?b # ?vs)"
    using assms(2) b(2) vs by (intro hlinks_join) (auto simp: vs)
  then have 2: "hlinks ?g ((n # ys) @ [0])" by (simp add: vs)
  have "hlinks ?g (head # xs) = hlinks h (head # xs)"
  proof (intro hlinks_cong)
    fix a assume "a \<in> set (butlast (head # xs))"
    then have "a \<noteq> n" using in_set_butlastD [of a "head # xs"] assms(2) by auto
    then show "cell ?g a = cell h a" by simp
  next
    fix a assume "a \<in> set (tl (head # xs))"
    then show "ppr ?g a = ppr h a" using b(1) by auto
  qed
  then have 1: "hlinks ?g (head # xs)" using hlist_pieces(1) [OF assms(1)] by simp
  have "hlist (hjoin (last (head # xs)) (hd ((n # ys) @ [0])) ?g) head (xs @ n # ys)"
    using d assms(2) by (intro hlist_glue 1 2) auto
  then show ?thesis by simp
qed

lemma hlist_delete:
  assumes "hlist h head (xs @ x # ys)"
  shows "hlist (hjoin (last (head # xs)) (hd (ys @ [0])) h) head (xs @ ys)"
proof (rule hlist_glue)
  show "hlinks h (head # xs)" by (rule hlist_pieces) (rule assms)
  have "hlinks h ((x # ys) @ [0])" by (rule hlist_pieces) (rule assms)
  then show "hlinks h (ys @ [0])" by (cases ys) simp_all
  show "distinct (head # xs @ ys @ [0])" using assms by (simp add: hlist_def)
qed

lemma hlist_cells:
  assumes "hlist h head (xs @ x # ys)"
  shows "cell h x = Some (hd (ys @ [0]))" and "ppr h x = Some (last (head # xs))" and "x \<noteq> 0"
proof -
  have "hlinks h ((x # ys) @ [0])" by (rule hlist_pieces) (rule assms)
  then show "cell h x = Some (hd (ys @ [0]))" by (cases ys) simp_all
  show nz: "x \<noteq> 0" using assms by (auto simp: hlist_def)
  have "hlinks h (head # xs @ [x])"
    using hlist_pieces(1) [of h head "xs @ [x]" ys] assms by simp
  then have "hlinks h (butlast (head # xs) @ last (head # xs) # [x])"
    by (metis append.assoc append_Cons append_Nil last_hd_split(1))
  then show "ppr h x = Some (last (head # xs))"
    using nz hlinks_append [of h "butlast (head # xs)" "last (head # xs)" "[x]"] by simp
qed

lemma hlist_last_cell:
  assumes "hlist h head (xs @ ys)"
  shows "cell h (last (head # xs)) = Some (hd (ys @ [0]))"
proof (cases xs rule: rev_cases)
  case Nil
  then show ?thesis using assms by (cases ys) (simp_all add: hlist_def)
next
  case (snoc zs z)
  then show ?thesis using hlist_cells(1) [of h head zs z ys] assms by simp
qed

section \<open>Frames\<close>

definition hsame_except :: "i64 set \<Rightarrow> hlist_heap \<Rightarrow> hlist_heap \<Rightarrow> bool" where
  "hsame_except A h h' \<longleftrightarrow> (\<forall>p. p \<notin> A \<longrightarrow> cell h' p = cell h p \<and> ppr h' p = ppr h p)"

lemma hsame_except_refl [simp]: "hsame_except A h h"
  by (simp add: hsame_except_def)

lemma hsame_except_trans: "hsame_except A f g \<Longrightarrow> hsame_except A g h \<Longrightarrow> hsame_except A f h"
  by (simp add: hsame_except_def)

lemma hsame_except_mono: "hsame_except A h g \<Longrightarrow> A \<subseteq> B \<Longrightarrow> hsame_except B h g"
  by (auto simp: hsame_except_def)

lemma hsame_except_hjoin [simp]:
  "a \<in> A \<Longrightarrow> b = 0 \<or> b \<in> A \<Longrightarrow> hsame_except A h (hjoin a b g) = hsame_except A h g"
  by (auto simp: hsame_except_def)

lemma hsame_except_set: "hsame_except A h g \<Longrightarrow> x \<in> A \<Longrightarrow>
    hsame_except A h (g\<lparr>cell := (cell g)(x \<mapsto> v), ppr := (ppr g)(x \<mapsto> w)\<rparr>)"
  by (auto simp: hsame_except_def)

lemma hlist_frame:
  assumes "hsame_except A h h'" and "A \<inter> set (head # xs) = {}" and "hlist h head xs"
  shows "hlist h' head xs"
proof -
  have "head \<notin> A" "\<forall>x \<in> set xs. x \<notin> A" using assms(2) by auto
  moreover have "hlinks h' (head # ys @ [0]) = hlinks h (head # ys @ [0])" if "set ys \<subseteq> set xs" "head \<notin> A" for head ys
    using that
  proof (induction ys arbitrary: head)
    case Nil
    then show ?case using assms(1) by (simp add: hsame_except_def)
  next
    case (Cons y ys)
    then show ?case using assms(1,2) by (auto simp: hsame_except_def)
  qed
  ultimately show ?thesis using assms(3) by (simp add: hlist_def)
qed

section \<open>Evaluating the operations\<close>

lemma set_cell_ok [simp]: "cell h p \<noteq> None \<Longrightarrow> set_cell p v h = Some (h\<lparr>cell := (cell h)(p \<mapsto> v)\<rparr>)"
  by (auto simp: set_cell_def)

lemma set_ppr_ok [simp]: "ppr h p \<noteq> None \<Longrightarrow> set_ppr p v h = Some (h\<lparr>ppr := (ppr h)(p \<mapsto> v)\<rparr>)"
  by (auto simp: set_ppr_def)

lemma hlist_hd_ppr:
  assumes "hlist h head (xs @ ys)" and "hd (ys @ [0]) \<noteq> 0"
  shows "ppr h (hd (ys @ [0])) \<noteq> None"
proof (cases ys)
  case (Cons y zs)
  then show ?thesis using hlist_cells(2) [of h head xs y zs] assms(1) by simp
qed (use assms in simp)

lemma hlist_hnode_at: "hlist h head xs \<Longrightarrow> x \<in> set xs \<Longrightarrow> hnode_at h x"
proof -
  assume l: "hlist h head xs" and "x \<in> set xs"
  then obtain us vs where "xs = us @ x # vs" by (auto simp: in_set_conv_decomp)
  with l show "hnode_at h x" using hlist_cells [of h head us x vs] by (auto simp: hnode_at_def)
qed

lemma hlist_add_head_ok:
  assumes l: "hlist h head xs" and n: "hnode_at h n" "n \<notin> set (head # xs)"
  shows "hlist_add_head n head h = Some (hjoin head n (hjoin n (hd (xs @ [0])) h))"
    and "hlist (hjoin head n (hjoin n (hd (xs @ [0])) h)) head (n # xs)"
    and "hsame_except (set (n # head # xs)) h (hjoin head n (hjoin n (hd (xs @ [0])) h))"
proof -
  let ?b = "hd (xs @ [0])"
  have c: "cell h head = Some ?b" using hlist_last_cell [of h head "[]" xs] l by simp
  have p: "?b \<noteq> 0 \<Longrightarrow> ppr h ?b \<noteq> None" using hlist_hd_ppr [of h head "[]" xs] l by simp
  show "hlist_add_head n head h = Some (hjoin head n (hjoin n ?b h))"
    using c p n by (auto simp: hlist_add_head_def hnode_at_def hjoin_def)
  show "hlist (hjoin head n (hjoin n ?b h)) head (n # xs)"
    using hlist_insert [of h head "[]" xs n] l n by (simp add: hnode_at_def)
  have "?b = 0 \<or> ?b \<in> set (n # head # xs)" by (cases xs) simp_all
  then show "hsame_except (set (n # head # xs)) h (hjoin head n (hjoin n ?b h))" by simp
qed

lemma hlist_add_before_ok:
  assumes l: "hlist h head (xs @ x # ys)" and n: "hnode_at h n" "n \<notin> set (head # xs @ x # ys)"
  shows "\<exists>h'. hlist_add_before n x h = Some h' \<and> hlist h' head (xs @ n # x # ys)
     \<and> hsame_except (set (n # head # xs @ x # ys)) h h'"
proof -
  let ?a = "last (head # xs)"
  have c: "ppr h x = Some ?a" "x \<noteq> 0" using hlist_cells [OF l] by simp_all
  have a: "cell h ?a \<noteq> None" using hlist_last_cell [OF l] by simp
  have an: "?a \<noteq> n" using n(2) last_in_set [of "head # xs"] by auto
  have "hlist_add_before n x h = Some (hjoin ?a n (hjoin n x h))"
    using c a n an by (auto simp: hlist_add_before_def hnode_at_def hjoin_def fun_upd_twist
        simp del: last.simps)
  moreover have "hlist (hjoin ?a n (hjoin n x h)) head (xs @ n # x # ys)"
    using hlist_insert [of h head xs "x # ys" n] l n by (simp add: hnode_at_def)
  moreover have "?a \<in> set (n # head # xs @ x # ys)" using last_in_set [of "head # xs"] by auto
  then have "hsame_except (set (n # head # xs @ x # ys)) h (hjoin ?a n (hjoin n x h))" by (simp del: last.simps)
  ultimately show ?thesis by blast
qed

lemma hlist_add_after_ok:
  assumes l: "hlist h head (xs @ x # ys)" and n: "hnode_at h n" "n \<notin> set (head # xs @ x # ys)"
  shows "\<exists>h'. hlist_add_after x n h = Some h' \<and> hlist h' head (xs @ x # n # ys)
     \<and> hsame_except (set (n # head # xs @ x # ys)) h h'"
proof -
  let ?b = "hd (ys @ [0])"
  have c: "cell h x = Some ?b" "x \<noteq> 0" using hlist_cells [OF l] by simp_all
  have p: "?b \<noteq> 0 \<Longrightarrow> ppr h ?b \<noteq> None" using hlist_hd_ppr [of h head "xs @ [x]" ys] l by simp
  have b: "?b \<noteq> n" "x \<noteq> n" using n by (cases ys; auto simp: hnode_at_def)+
  have "hlist_add_after x n h = Some (hjoin x n (hjoin n ?b h))"
    using c p n b by (auto simp: hlist_add_after_def hnode_at_def hjoin_def fun_upd_twist)
  moreover have "hlist (hjoin x n (hjoin n ?b h)) head (xs @ x # n # ys)"
    using hlist_insert [of h head "xs @ [x]" ys n] l n by (simp add: hnode_at_def)
  moreover have "?b = 0 \<or> ?b \<in> set (n # head # xs @ x # ys)" by (cases ys) simp_all
  then have "hsame_except (set (n # head # xs @ x # ys)) h (hjoin x n (hjoin n ?b h))" by simp
  ultimately show ?thesis by blast
qed

lemma hnode_at_hjoin: "hnode_at h x \<Longrightarrow> hnode_at (hjoin a b h) x"
  by (auto simp: hnode_at_def)

lemma raw_hlist_del_ok:
  assumes l: "hlist h head (xs @ x # ys)"
  shows "\<exists>g. raw_hlist_del x h = Some g \<and> hlist g head (xs @ ys) \<and> hnode_at g x
     \<and> hsame_except (set (head # xs @ x # ys)) h g"
proof -
  let ?a = "last (head # xs)" and ?b = "hd (ys @ [0])"
  have c: "cell h x = Some ?b" "ppr h x = Some ?a" "x \<noteq> 0" using hlist_cells [OF l] by simp_all
  have a: "cell h ?a \<noteq> None" using hlist_last_cell [OF l] by simp
  have p: "?b \<noteq> 0 \<Longrightarrow> ppr h ?b \<noteq> None" using hlist_hd_ppr [of h head "xs @ [x]" ys] l by simp
  have 1: "raw_hlist_del x h = Some (hjoin ?a ?b h)"
    using c a p by (auto simp: raw_hlist_del_def hjoin_def simp del: last.simps)
  have 2: "hlist (hjoin ?a ?b h) head (xs @ ys)" by (rule hlist_delete) (rule l)
  have 3: "hnode_at (hjoin ?a ?b h) x"
    using hlist_hnode_at [OF l, of x] by (intro hnode_at_hjoin) simp
  have "?a \<in> set (head # xs @ x # ys)" using last_in_set [of "head # xs"] by auto
  moreover have "?b = 0 \<or> ?b \<in> set (head # xs @ x # ys)" by (cases ys) simp_all
  ultimately have "hsame_except (set (head # xs @ x # ys)) h (hjoin ?a ?b h)" by (simp del: last.simps)
  then show ?thesis using 1 2 3 by blast
qed

lemma hlist_write_outside:
  assumes "hlist g head xs" and "x \<notin> set (head # xs)"
  shows "hlist (g\<lparr>cell := (cell g)(x \<mapsto> v), ppr := (ppr g)(x \<mapsto> w)\<rparr>) head xs"
proof -
  have "hlinks (g\<lparr>cell := (cell g)(x \<mapsto> v), ppr := (ppr g)(x \<mapsto> w)\<rparr>) (head # xs @ [0])
      = hlinks g (head # xs @ [0])"
    using assms(2) by (intro hlinks_cong) (auto simp: butlast_append)
  then show ?thesis using assms(1) by (simp add: hlist_def)
qed

lemma hlist_del_ok:
  assumes l: "hlist h head (xs @ x # ys)"
  shows "\<exists>h'. hlist_del x h = Some h' \<and> hlist h' head (xs @ ys)
      \<and> cell h' x = Some LIST_POISON1 \<and> ppr h' x = Some LIST_POISON2
      \<and> hsame_except (set (head # xs @ x # ys)) h h'"
    and "\<exists>h'. hlist_del_init x h = Some h' \<and> hlist h' head (xs @ ys)
      \<and> hlist_unhashed x h' = Some True \<and> hnode_at h' x \<and> hsame_except (set (head # xs @ x # ys)) h h'"
proof -
  let ?A = "set (head # xs @ x # ys)"
  obtain g where g: "raw_hlist_del x h = Some g" "hlist g head (xs @ ys)" "hnode_at g x" "hsame_except ?A h g"
    using raw_hlist_del_ok [OF l] by blast
  have x: "x \<notin> set (head # xs @ ys)" using l by (auto simp: hlist_def)
  have f: "hsame_except ?A h (g\<lparr>cell := (cell g)(x \<mapsto> v), ppr := (ppr g)(x \<mapsto> w)\<rparr>)" for v w
    by (rule hsame_except_set [OF g(4)]) simp
  show "\<exists>h'. hlist_del x h = Some h' \<and> hlist h' head (xs @ ys)
      \<and> cell h' x = Some LIST_POISON1 \<and> ppr h' x = Some LIST_POISON2 \<and> hsame_except ?A h h'"
    using g(1,3) f hlist_write_outside [OF g(2) x, of LIST_POISON2 LIST_POISON1]
    by (auto simp: hlist_del_def hnode_at_def)
  have "last (head # xs) \<noteq> 0" using l last_in_set [of "head # xs"] by (auto simp: hlist_def)
  then show "\<exists>h'. hlist_del_init x h = Some h' \<and> hlist h' head (xs @ ys)
      \<and> hlist_unhashed x h' = Some True \<and> hnode_at h' x \<and> hsame_except ?A h h'"
    using g(1,3) f hlist_write_outside [OF g(2) x, of 0 0] hlist_cells(2) [OF l]
    by (auto simp: hlist_del_init_def INIT_HLIST_NODE_def hlist_unhashed_def hnode_at_def
        simp del: last.simps)
qed

lemma hlist_empty_iff: "hlist h head xs \<Longrightarrow> hlist_empty head h = Some (xs = [])"
  using hlist_last_cell [of h head "[]" xs] by (cases xs) (auto simp: hlist_empty_def hlist_def)

section \<open>Iteration and construction\<close>

text \<open>
  The loops of \<open>hlist_for_each\<close> and \<open>hlist_for_each_safe\<close>, which end at a null position.
  The first reads \<open>pos->next\<close> (for \<open>prefetch\<close>) before the body and again after it, the
  second only before it.
\<close>

fun heach_loop ::
  "nat \<Rightarrow> (i64 \<Rightarrow> hlist_heap \<times> 's \<Rightarrow> (hlist_heap \<times> 's) option) \<Rightarrow> i64
   \<Rightarrow> hlist_heap \<times> 's \<Rightarrow> (hlist_heap \<times> 's) res"
where
  "heach_loop 0 body pos st = Inl OutOfFuel"
| "heach_loop (Suc k) body pos st =
     (if pos = 0 then Inr st
      else if cell (fst st) pos = None then Inl WildPointer
      else case body pos st of
        None \<Rightarrow> Inl WildPointer
      | Some st' \<Rightarrow>
          (case cell (fst st') pos of
             None \<Rightarrow> Inl WildPointer | Some pos' \<Rightarrow> heach_loop k body pos' st'))"

definition hlist_for_each ::
  "nat \<Rightarrow> (i64 \<Rightarrow> hlist_heap \<times> 's \<Rightarrow> (hlist_heap \<times> 's) option) \<Rightarrow> i64
   \<Rightarrow> hlist_heap \<times> 's \<Rightarrow> (hlist_heap \<times> 's) res"
where
  "hlist_for_each fuel body head st =
     (case cell (fst st) head of None \<Rightarrow> Inl WildPointer | Some pos \<Rightarrow> heach_loop fuel body pos st)"

fun heach_safe_loop ::
  "nat \<Rightarrow> (i64 \<Rightarrow> hlist_heap \<times> 's \<Rightarrow> (hlist_heap \<times> 's) option) \<Rightarrow> i64
   \<Rightarrow> hlist_heap \<times> 's \<Rightarrow> (hlist_heap \<times> 's) res"
where
  "heach_safe_loop 0 body pos st = Inl OutOfFuel"
| "heach_safe_loop (Suc k) body pos st =
     (if pos = 0 then Inr st
      else case cell (fst st) pos of
        None \<Rightarrow> Inl WildPointer
      | Some n \<Rightarrow>
          (case body pos st of
             None \<Rightarrow> Inl WildPointer | Some st' \<Rightarrow> heach_safe_loop k body n st'))"

definition hlist_for_each_safe ::
  "nat \<Rightarrow> (i64 \<Rightarrow> hlist_heap \<times> 's \<Rightarrow> (hlist_heap \<times> 's) option) \<Rightarrow> i64
   \<Rightarrow> hlist_heap \<times> 's \<Rightarrow> (hlist_heap \<times> 's) res"
where
  "hlist_for_each_safe fuel body head st =
     (case cell (fst st) head of
        None \<Rightarrow> Inl WildPointer | Some pos \<Rightarrow> heach_safe_loop fuel body pos st)"

text \<open>The loops over the structs that embed the nodes: the body gets \<open>tpos\<close>.\<close>

definition hlist_entry :: "i64 \<Rightarrow> i64 \<Rightarrow> i64" where
  "hlist_entry ptr off = container_of ptr off"

definition hlist_for_each_entry ::
  "nat \<Rightarrow> (i64 \<Rightarrow> hlist_heap \<times> 's \<Rightarrow> (hlist_heap \<times> 's) option) \<Rightarrow> i64 \<Rightarrow> i64
   \<Rightarrow> hlist_heap \<times> 's \<Rightarrow> (hlist_heap \<times> 's) res"
where
  "hlist_for_each_entry fuel body off head st =
     (case cell (fst st) head of
        None \<Rightarrow> Inl WildPointer
      | Some pos \<Rightarrow> heach_loop fuel (\<lambda>p. body (hlist_entry p off)) pos st)"

definition hlist_for_each_entry_continue ::
  "nat \<Rightarrow> (i64 \<Rightarrow> hlist_heap \<times> 's \<Rightarrow> (hlist_heap \<times> 's) option) \<Rightarrow> i64 \<Rightarrow> i64
   \<Rightarrow> hlist_heap \<times> 's \<Rightarrow> (hlist_heap \<times> 's) res"
where
  "hlist_for_each_entry_continue fuel body off pos st =
     (case cell (fst st) pos of
        None \<Rightarrow> Inl WildPointer
      | Some p \<Rightarrow> heach_loop fuel (\<lambda>p. body (hlist_entry p off)) p st)"

definition hlist_for_each_entry_from ::
  "nat \<Rightarrow> (i64 \<Rightarrow> hlist_heap \<times> 's \<Rightarrow> (hlist_heap \<times> 's) option) \<Rightarrow> i64 \<Rightarrow> i64
   \<Rightarrow> hlist_heap \<times> 's \<Rightarrow> (hlist_heap \<times> 's) res"
where
  "hlist_for_each_entry_from fuel body off pos st =
     heach_loop fuel (\<lambda>p. body (hlist_entry p off)) pos st"

definition hlist_for_each_entry_safe ::
  "nat \<Rightarrow> (i64 \<Rightarrow> hlist_heap \<times> 's \<Rightarrow> (hlist_heap \<times> 's) option) \<Rightarrow> i64 \<Rightarrow> i64
   \<Rightarrow> hlist_heap \<times> 's \<Rightarrow> (hlist_heap \<times> 's) res"
where
  "hlist_for_each_entry_safe fuel body off head st =
     (case cell (fst st) head of
        None \<Rightarrow> Inl WildPointer
      | Some pos \<Rightarrow> heach_safe_loop fuel (\<lambda>p. body (hlist_entry p off)) pos st)"

lemma heach_loop_reads:
  "hlist h head (xs @ ys) \<Longrightarrow> length ys < fuel \<Longrightarrow>
   heach_loop fuel (reading f) (hd (ys @ [0])) (h, s) = Inr (h, fold f ys s)"
proof (induction ys arbitrary: xs fuel s)
  case Nil
  then show ?case by (cases fuel) simp_all
next
  case (Cons y ys)
  obtain k where k: "fuel = Suc k" "length ys < k" using Cons.prems(2) by (cases fuel) auto
  have "cell h y = Some (hd (ys @ [0]))" "y \<noteq> 0"
    using hlist_cells [OF Cons.prems(1)] by simp_all
  with k Cons.IH [of "xs @ [y]" k "f y s"] Cons.prems(1) show ?case
    by (simp add: reading_def)
qed

lemma heach_entry_reads:
  assumes l: "hlist h head (xs @ ys)" and f: "length ys < fuel"
  shows "heach_loop fuel (\<lambda>p. reading f (hlist_entry p off)) (hd (ys @ [0])) (h, s)
    = Inr (h, fold f (map (\<lambda>p. hlist_entry p off) ys) s)"
proof -
  have "(\<lambda>p. reading f (hlist_entry p off)) = reading (\<lambda>p. f (hlist_entry p off))"
    by (simp add: reading_def fun_eq_iff)
  then have e: "heach_loop fuel (\<lambda>p. reading f (hlist_entry p off)) = heach_loop fuel (reading (\<lambda>p. f (hlist_entry p off)))"
    by (rule arg_cong)
  show ?thesis
    unfolding e using heach_loop_reads [OF l f, of "\<lambda>p. f (hlist_entry p off)" s] by (simp add: fold_map comp_def)
qed

definition hdeleting :: "i64 \<Rightarrow> hlist_heap \<times> i64 list \<Rightarrow> (hlist_heap \<times> i64 list) option" where
  "hdeleting p st = (case hlist_del p (fst st) of None \<Rightarrow> None | Some h \<Rightarrow> Some (h, snd st @ [p]))"

lemma heach_safe_loop_deletes:
  "hlist h head xs \<Longrightarrow> length xs < fuel \<Longrightarrow>
   \<exists>h'. heach_safe_loop fuel hdeleting (hd (xs @ [0])) (h, acc) = Inr (h', acc @ xs)
     \<and> hlist h' head []"
proof (induction xs arbitrary: h fuel acc)
  case Nil
  then show ?case by (cases fuel) simp_all
next
  case (Cons x xs)
  obtain k where k: "fuel = Suc k" "length xs < k" using Cons.prems(2) by (cases fuel) auto
  have l: "hlist h head ([] @ x # xs)" using Cons.prems(1) by simp
  obtain g where g: "hlist_del x h = Some g" "hlist g head xs"
    using hlist_del_ok(1) [OF l] by auto
  show ?case
    using Cons.IH [OF g(2) k(2), of "acc @ [x]"] k(1) hlist_cells [OF l] g(1)
    by (simp add: hdeleting_def)
qed

text \<open>A node is available to the list headed at \<open>head\<close> when it is allocated and not the head.\<close>

definition free_hnode :: "i64 \<Rightarrow> hlist_heap \<Rightarrow> i64 \<Rightarrow> bool" where
  "free_hnode head h n \<longleftrightarrow> hnode_at h n \<and> n \<noteq> head"

interpretation hstack: node_list "\<lambda>h. hlist h head" "free_hnode head" "\<lambda>n. hlist_add_head n head" "(#)"
  for head :: i64
proof unfold_locales
  fix h xs n assume l: "hlist h head xs" and n: "free_hnode head h n" "n \<notin> set xs"
  have n': "hnode_at h n" "n \<notin> set (head # xs)" using n by (auto simp: free_hnode_def)
  show "\<exists>h'. hlist_add_head n head h = Some h' \<and> hlist h' head (n # xs)
      \<and> (\<forall>m. free_hnode head h m \<longrightarrow> free_hnode head h' m)"
    using hlist_add_head_ok [OF l n'] by (auto simp: free_hnode_def intro!: hnode_at_hjoin)
qed simp

end
