(* ===== verification/ListProperties.thy ===== *)
theory ListProperties
  imports ListEntries HList
begin

text \<open>
  The properties of \<open>linkedlist.h\<close>: insertion, deletion, moving, splicing and iteration of
  the circular lists, and the same for the singly headed ones.  The witnesses run on a heap
  with two lists, \<open>1: 2, 3, 4\<close> and \<open>5: 6\<close>, and the unlinked nodes 7 and 8.
\<close>

definition demo_lists :: list_heap where
  "demo_lists = \<lparr>nxt = [1 \<mapsto> 2, 2 \<mapsto> 3, 3 \<mapsto> 4, 4 \<mapsto> 1, 5 \<mapsto> 6, 6 \<mapsto> 5, 7 \<mapsto> 7, 8 \<mapsto> 8],
                 prv = [1 \<mapsto> 4, 4 \<mapsto> 3, 3 \<mapsto> 2, 2 \<mapsto> 1, 5 \<mapsto> 6, 6 \<mapsto> 5, 7 \<mapsto> 7, 8 \<mapsto> 8]\<rparr>"

lemma demo_lists_dlist:
  "dlist demo_lists 1 [2, 3, 4]" "dlist demo_lists 5 [6]" "node_at demo_lists 7" "node_at demo_lists 8"
  by (simp_all add: demo_lists_def dlist_def node_at_def)

definition demo_hlist :: hlist_heap where
  "demo_hlist = \<lparr>cell = [1 \<mapsto> 2, 2 \<mapsto> 3, 3 \<mapsto> 4, 4 \<mapsto> 0, 7 \<mapsto> 0, 8 \<mapsto> 0],
                 ppr = [2 \<mapsto> 1, 3 \<mapsto> 2, 4 \<mapsto> 3, 7 \<mapsto> 0, 8 \<mapsto> 0]\<rparr>"

lemma demo_hlist_ok: "hlist demo_hlist 1 [2, 3, 4]" "hnode_at demo_hlist 7" "hnode_at demo_hlist 8"
  by (simp_all add: demo_hlist_def hlist_def hnode_at_def)

section \<open>Insertion, deletion, moving\<close>

text \<open>
  \<open>list_add\<close> puts an unlinked node at the front of a well-linked list and
  \<open>list_add_tail\<close> puts it at the end; both succeed on every list (the empty one included),
  and every node other than the new one and those of the list keeps its links.
\<close>

theorem list_insertion:
  assumes "dlist h head xs" and "node_at h new" and "new \<notin> set (head # xs)"
  shows "(\<exists>h'. list_add new head h = Some h' \<and> dlist h' head (new # xs)
            \<and> same_except (set (new # head # xs)) h h')
       \<and> (\<exists>h'. list_add_tail new head h = Some h' \<and> dlist h' head (xs @ [new])
            \<and> same_except (set (new # head # xs)) h h')"
  using list_add_ok [OF assms] list_add_tail_ok [OF assms] by blast

lemma list_insertion_witness:
  "(\<exists>h'. list_add 7 1 demo_lists = Some h' \<and> dlist h' 1 [7, 2, 3, 4]
       \<and> same_except {7, 1, 2, 3, 4} demo_lists h')
   \<and> (\<exists>h'. list_add_tail 7 1 demo_lists = Some h' \<and> dlist h' 1 [2, 3, 4, 7]
       \<and> same_except {7, 1, 2, 3, 4} demo_lists h')"
  using list_insertion [OF demo_lists_dlist(1,3)] by simp

text \<open>
  \<open>list_del\<close> and \<open>list_del_init\<close> remove exactly the given entry, wherever it stands,
  and leave all nodes outside the list alone.  \<open>list_del\<close> leaves the two poison values in
  the entry; after \<open>list_del_init\<close> the entry is an empty list of its own.
\<close>

theorem list_deletion:
  assumes "dlist h head (xs @ x # ys)"
  shows "(\<exists>h'. list_del x h = Some h' \<and> dlist h' head (xs @ ys)
            \<and> nxt h' x = Some LIST_POISON1 \<and> prv h' x = Some LIST_POISON2
            \<and> same_except (set (head # xs @ x # ys)) h h')
       \<and> (\<exists>h'. list_del_init x h = Some h' \<and> dlist h' head (xs @ ys)
            \<and> list_empty x h' = Some True \<and> dlist h' x []
            \<and> same_except (set (head # xs @ x # ys)) h h')"
proof -
  have "list_empty x g = Some True" if "dlist g x []" for g
    using list_empty_iff [OF that] by simp
  then show ?thesis using list_del_ok [OF assms] list_del_init_ok [OF assms] by blast
qed

lemma list_deletion_witness:
  "(\<exists>h'. list_del 3 demo_lists = Some h' \<and> dlist h' 1 [2, 4]
       \<and> nxt h' 3 = Some LIST_POISON1 \<and> prv h' 3 = Some LIST_POISON2
       \<and> same_except {1, 2, 3, 4} demo_lists h')
   \<and> (\<exists>h'. list_del_init 3 demo_lists = Some h' \<and> dlist h' 1 [2, 4]
       \<and> list_empty 3 h' = Some True \<and> dlist h' 3 [] \<and> same_except {1, 2, 3, 4} demo_lists h')"
  using list_deletion [of demo_lists 1 "[2]" 3 "[4]"] demo_lists_dlist(1) by simp

text \<open>
  \<open>list_move\<close> and \<open>list_move_tail\<close> take an entry out of the list it is in and put it
  at the front or the end of another list, or of the same list.
\<close>

theorem list_moving:
  assumes "dlist h src (xs @ x # ys)"
  shows "(\<forall>dst zs. dlist h dst zs \<longrightarrow> set (src # xs @ x # ys) \<inter> set (dst # zs) = {} \<longrightarrow>
            (\<exists>h'. list_move x dst h = Some h' \<and> dlist h' src (xs @ ys) \<and> dlist h' dst (x # zs))
          \<and> (\<exists>h'. list_move_tail x dst h = Some h' \<and> dlist h' src (xs @ ys) \<and> dlist h' dst (zs @ [x])))
       \<and> (\<exists>h'. list_move x src h = Some h' \<and> dlist h' src (x # xs @ ys))
       \<and> (\<exists>h'. list_move_tail x src h = Some h' \<and> dlist h' src (xs @ ys @ [x]))"
proof (intro conjI allI impI)
  fix dst zs
  assume d: "dlist h dst zs" "set (src # xs @ x # ys) \<inter> set (dst # zs) = {}"
  show "\<exists>h'. list_move x dst h = Some h' \<and> dlist h' src (xs @ ys) \<and> dlist h' dst (x # zs)"
    using list_move_ok(1) [OF assms d] by blast
  show "\<exists>h'. list_move_tail x dst h = Some h' \<and> dlist h' src (xs @ ys) \<and> dlist h' dst (zs @ [x])"
    using list_move_ok(2) [OF assms d] by blast
qed (use list_move_same_ok [OF assms] in blast)+

lemma list_moving_witness:
  "(\<exists>h'. list_move 3 5 demo_lists = Some h' \<and> dlist h' 1 [2, 4] \<and> dlist h' 5 [3, 6])
   \<and> (\<exists>h'. list_move_tail 2 1 demo_lists = Some h' \<and> dlist h' 1 [3, 4, 2])"
  using list_moving [of demo_lists 1 "[2]" 3 "[4]"] list_moving [of demo_lists 1 "[]" 2 "[3, 4]"]
    demo_lists_dlist(1,2)
  by (auto dest!: spec [of _ "5::i64"] spec [of _ "[6::i64]"])

text \<open>
  \<open>list_splice\<close> puts all entries of one list, in order, before those of another; for
  an empty list it is a no-op.  \<open>list_splice_init\<close> also empties the first list.
\<close>

theorem list_splicing:
  assumes "dlist h list xs" and "dlist h head ys" and "set (list # xs) \<inter> set (head # ys) = {}"
  shows "(\<exists>h'. list_splice list head h = Some h' \<and> dlist h' head (xs @ ys)
            \<and> same_except (set (head # xs @ ys)) h h')
       \<and> (\<exists>h'. list_splice_init list head h = Some h' \<and> dlist h' head (xs @ ys) \<and> dlist h' list [])"
  using list_splice_ok [OF assms] list_splice_init_ok [OF assms] by blast

lemma list_splicing_witness:
  "(\<exists>h'. list_splice 1 5 demo_lists = Some h' \<and> dlist h' 5 [2, 3, 4, 6]
       \<and> same_except {5, 2, 3, 4, 6} demo_lists h')
   \<and> (\<exists>h'. list_splice_init 1 5 demo_lists = Some h' \<and> dlist h' 5 [2, 3, 4, 6] \<and> dlist h' 1 [])"
  using list_splicing [OF demo_lists_dlist(1,2)] by simp

section \<open>Iteration\<close>

text \<open>
  C32: With fuel above the length of the list, the iteration macros end and visit every
  entry exactly once: \<open>list_for_each\<close> in order, \<open>list_for_each_prev\<close> in reverse,
  \<open>list_for_each_entry\<close> and its reverse the structs around the nodes, and
  \<open>list_for_each_entry_continue\<close> the entries after the given one (all of them, after a null
  entry has been prepared).
\<close>

theorem list_iteration:
  assumes "dlist h head xs" and "length xs < fuel"
  shows "list_for_each fuel (reading f) head (h, s) = Inr (h, fold f xs s)
       \<and> list_for_each_prev fuel (reading f) head (h, s) = Inr (h, fold f (rev xs) s)
       \<and> list_for_each_entry fuel (reading f) off head (h, s)
           = Inr (h, fold f (map (\<lambda>p. list_entry p off) xs) s)
       \<and> list_for_each_entry_reverse fuel (reading f) off head (h, s)
           = Inr (h, fold f (map (\<lambda>p. list_entry p off) (rev xs)) s)
       \<and> list_for_each_entry_continue fuel (reading f) (list_prepare_entry 0 head off) off head (h, s)
           = Inr (h, fold f (map (\<lambda>p. list_entry p off) xs) s)
       \<and> (\<forall>us y ys. xs = us @ y # ys \<longrightarrow>
            list_for_each_entry_continue fuel (reading f) (list_entry y off) off head (h, s)
              = Inr (h, fold f (map (\<lambda>p. list_entry p off) ys) s))"
proof -
  have l: "dlist h head ([] @ xs)" "dlist h head (xs @ [])" using assms(1) by simp_all
  have e: "each_entry_loop fuel (reading f) (list_entry (hd (xs @ [head])) off) off head (h, s)
      = Inr (h, fold f (map (\<lambda>p. list_entry p off) xs) s)"
    using l(1) assms(2) by (rule each_entry_loop_reads)
  have c: "list_for_each_entry_continue fuel (reading f) (list_entry y off) off head (h, s)
      = Inr (h, fold f (map (\<lambda>p. list_entry p off) ys) s)" if "xs = us @ y # ys" for us y ys
    using dlist_neighbours(1) [of h head us y ys] each_entry_loop_reads [of h head "us @ [y]" ys fuel f off s]
      assms that by (simp add: list_for_each_entry_continue_def)
  show ?thesis
    using e c each_loop_reads [OF l(1) assms(2), of f s] each_prev_loop_reads [OF l(2) assms(2), of f s]
      entry_reverse_loop_reads [OF l(2) assms(2), of f off s] dlist_next [OF assms(1)] dlist_prev [OF assms(1)]
    by (simp add: list_for_each_def list_for_each_prev_def list_for_each_entry_def
        list_for_each_entry_reverse_def list_for_each_entry_continue_def list_prepare_entry_def
        del: last.simps)
qed

lemma list_iteration_witness:
  "list_for_each 4 (reading (#)) 1 (demo_lists, []) = Inr (demo_lists, [4, 3, 2])
   \<and> list_for_each_prev 4 (reading (#)) 1 (demo_lists, []) = Inr (demo_lists, [2, 3, 4])
   \<and> list_for_each_entry 4 (reading (#)) 1 1 (demo_lists, []) = Inr (demo_lists, [3, 2, 1])"
  using list_iteration [OF demo_lists_dlist(1), of 4 "(#)" "[]" 1]
  by (simp add: list_entry_def container_of_def)

text \<open>
  C33: The loops that are safe against removal, with a body that deletes the entry it is at,
  visit every entry in order and leave the list empty (\<open>list_for_each_safe\<close>,
  \<open>list_for_each_entry_safe\<close>; \<open>_safe_continue\<close> deletes what follows the given entry).
  The plain loop with the same body is caught by the poison: it follows the deleted entry's
  \<open>next\<close> to \<open>LIST_POISON1\<close>, where no node is.
\<close>

theorem list_removal_loops:
  assumes "dlist h head (us @ y # ys)" and "length (us @ y # ys) < fuel"
    and "prv h LIST_POISON1 = None"
  shows "(\<exists>h'. list_for_each_safe fuel deleting head (h, []) = Inr (h', us @ y # ys)
            \<and> dlist h' head [])
       \<and> (\<exists>h'. list_for_each_entry_safe fuel (deleting_entry off) off head (h, [])
            = Inr (h', map (\<lambda>p. list_entry p off) (us @ y # ys)) \<and> dlist h' head [])
       \<and> (\<exists>h'. list_for_each_entry_safe_continue fuel (deleting_entry off) (list_entry y off) off head
              (h, []) = Inr (h', map (\<lambda>p. list_entry p off) ys) \<and> dlist h' head (us @ [y]))
       \<and> list_for_each fuel deleting head (h, []) = Inl WildPointer"
proof -
  obtain x xs where x: "us @ y # ys = x # xs" by (cases us) auto
  obtain k where k: "fuel = Suc (Suc k)" using assms(2) by (cases fuel; cases "fuel - 1") simp_all
  have "dlist h head (x # xs)" using assms(1) by (simp only: x)
  then have "list_for_each fuel deleting head (h, []) = Inl WildPointer"
    unfolding k using assms(3) by (rule plain_removal_faults)
  moreover have "length ys < fuel" using assms(2) by simp
  ultimately show ?thesis
    by (intro conjI safe_removal_loops [OF assms(1,2)] safe_continue_removal [OF assms(1)])
qed

lemma list_removal_loops_witness:
  "(\<exists>h'. list_for_each_safe 4 deleting 1 (demo_lists, []) = Inr (h', [2, 3, 4]) \<and> dlist h' 1 [])
   \<and> list_for_each 4 deleting 1 (demo_lists, []) = Inl WildPointer"
  using list_removal_loops [of demo_lists 1 "[2]" 3 "[4]" 4] demo_lists_dlist(1)
  by (simp add: demo_lists_def LIST_POISON1_def)

text \<open>
  Pushing a batch of distinct free nodes with \<open>list_add\<close> is a stack (the list is the
  batch reversed in front of the old entries), with \<open>list_add_tail\<close> a queue (the batch in
  order behind the old entries); walking the result gives that order.
\<close>

theorem list_stack_queue:
  assumes "dlist h head xs" and "\<forall>n \<in> set ns. node_at h n \<and> n \<noteq> head" and "distinct ns"
    and "set ns \<inter> set xs = {}" and "length xs + length ns < fuel"
  shows "(\<exists>h'. insert_all (\<lambda>n. list_add n head) ns h = Some h' \<and> dlist h' head (rev ns @ xs)
            \<and> list_for_each fuel (reading f) head (h', s) = Inr (h', fold f (rev ns @ xs) s))
       \<and> (\<exists>h'. insert_all (\<lambda>n. list_add_tail n head) ns h = Some h' \<and> dlist h' head (xs @ ns)
            \<and> list_for_each fuel (reading f) head (h', s) = Inr (h', fold f (xs @ ns) s))"
proof -
  have each: "list_for_each fuel (reading f) head (g, s) = Inr (g, fold f zs s)"
    if "dlist g head zs" "length zs < fuel" for g zs
    using each_loop_reads [of g head "[]" zs fuel f s] that dlist_next [OF that(1)]
    by (simp add: list_for_each_def)
  have fr: "\<forall>n \<in> set ns. free_node head h n" using assms(2) by (simp add: free_node_def)
  show ?thesis
    using lstack.insert_all_rep [OF assms(1) fr assms(3,4)] lqueue.insert_all_rep [OF assms(1) fr assms(3,4)]
      each assms(5) by (auto simp: fold_Cons_rev fold_snoc)
qed

lemma list_stack_queue_witness:
  "(\<exists>h'. insert_all (\<lambda>n. list_add n 1) [7, 8] demo_lists = Some h' \<and> dlist h' 1 [8, 7, 2, 3, 4])
   \<and> (\<exists>h'. insert_all (\<lambda>n. list_add_tail n 1) [7, 8] demo_lists = Some h' \<and> dlist h' 1 [2, 3, 4, 7, 8])"
  using list_stack_queue [of demo_lists 1 "[2, 3, 4]" "[7, 8]" 6 "(#)" "[]"] demo_lists_dlist by auto

section \<open>Singly headed lists\<close>

text \<open>
  \<open>hlist_add_head\<close>, \<open>hlist_add_before\<close> and \<open>hlist_add_after\<close> put an unlinked node at
  the front, immediately before and immediately after a given entry.
\<close>

theorem hlist_insertion:
  assumes "hlist h head (xs @ x # ys)" and "hnode_at h n" and "n \<notin> set (head # xs @ x # ys)"
  shows "(\<exists>h'. hlist_add_head n head h = Some h' \<and> hlist h' head (n # xs @ x # ys))
       \<and> (\<exists>h'. hlist_add_before n x h = Some h' \<and> hlist h' head (xs @ n # x # ys))
       \<and> (\<exists>h'. hlist_add_after x n h = Some h' \<and> hlist h' head (xs @ x # n # ys))"
  using hlist_add_head_ok [OF assms] hlist_add_before_ok [OF assms] hlist_add_after_ok [OF assms]
  by blast

lemma hlist_insertion_witness:
  "(\<exists>h'. hlist_add_head 7 1 demo_hlist = Some h' \<and> hlist h' 1 [7, 2, 3, 4])
   \<and> (\<exists>h'. hlist_add_before 7 3 demo_hlist = Some h' \<and> hlist h' 1 [2, 7, 3, 4])
   \<and> (\<exists>h'. hlist_add_after 3 7 demo_hlist = Some h' \<and> hlist h' 1 [2, 3, 7, 4])"
  using hlist_insertion [of demo_hlist 1 "[2]" 3 "[4]" 7] demo_hlist_ok by simp

text \<open>
  \<open>hlist_del\<close> removes exactly the given entry and poisons it (so it does not count as
  unhashed); \<open>hlist_del_init\<close> removes it and leaves it unhashed, and a second
  \<open>hlist_del_init\<close> of the same entry changes nothing.
\<close>

theorem hlist_deletion:
  assumes "hlist h head (xs @ x # ys)"
  shows "(\<exists>h'. hlist_del x h = Some h' \<and> hlist h' head (xs @ ys)
            \<and> cell h' x = Some LIST_POISON1 \<and> hlist_unhashed x h' = Some False)
       \<and> (\<exists>h'. hlist_del_init x h = Some h' \<and> hlist h' head (xs @ ys)
            \<and> hlist_unhashed x h' = Some True \<and> hlist_del_init x h' = Some h')"
proof -
  have "hlist_del_init x g = Some g" if "hlist_unhashed x g = Some True" for g
    using that by (auto simp: hlist_unhashed_def hlist_del_init_def split: bind_splits)
  moreover have "hlist_unhashed x g = Some False" if "ppr g x = Some LIST_POISON2" for g
    using that by (simp add: hlist_unhashed_def LIST_POISON2_def)
  ultimately show ?thesis using hlist_del_ok [OF assms] by blast
qed

lemma hlist_deletion_witness:
  "(\<exists>h'. hlist_del 3 demo_hlist = Some h' \<and> hlist h' 1 [2, 4])
   \<and> (\<exists>h'. hlist_del_init 3 demo_hlist = Some h' \<and> hlist h' 1 [2, 4]
        \<and> hlist_del_init 3 h' = Some h')"
  using hlist_deletion [of demo_hlist 1 "[2]" 3 "[4]"] demo_hlist_ok by auto

text \<open>
  A chain built by pushing distinct free nodes on an \<open>hlist\<close> is walked by
  \<open>hlist_for_each\<close> (and, struct by struct, by \<open>hlist_for_each_entry\<close>) from the last pushed to
  the oldest entry, \<open>hlist_for_each_entry_continue\<close> visits what follows an entry, and
  \<open>hlist_for_each_safe\<close> with a deleting body visits the same entries and empties the list.
\<close>

theorem hlist_chain:
  assumes "hlist h head xs" and "\<forall>n \<in> set ns. hnode_at h n \<and> n \<noteq> head" and "distinct ns"
    and "set ns \<inter> set xs = {}" and "length xs + length ns < fuel"
  shows "\<exists>g. insert_all (\<lambda>n. hlist_add_head n head) ns h = Some g \<and> hlist g head (rev ns @ xs)
       \<and> hlist_for_each fuel (reading f) head (g, s) = Inr (g, fold f (rev ns @ xs) s)
       \<and> hlist_for_each_entry fuel (reading f) off head (g, s)
           = Inr (g, fold f (map (\<lambda>p. hlist_entry p off) (rev ns @ xs)) s)
       \<and> (\<forall>us y ys. rev ns @ xs = us @ y # ys \<longrightarrow>
            hlist_for_each_entry_continue fuel (reading f) off y (g, s)
              = Inr (g, fold f (map (\<lambda>p. hlist_entry p off) ys) s))
       \<and> (\<exists>h'. hlist_for_each_safe fuel hdeleting head (g, []) = Inr (h', rev ns @ xs)
            \<and> hlist h' head [] \<and> hlist_empty head h' = Some True)"
proof -
  have fr: "\<forall>n \<in> set ns. free_hnode head h n" using assms(2) by (simp add: free_hnode_def)
  obtain g where g: "insert_all (\<lambda>n. hlist_add_head n head) ns h = Some g" "hlist g head (rev ns @ xs)"
    using hstack.insert_all_rep [OF assms(1) fr assms(3,4)] by (auto simp: fold_Cons_rev)
  have c: "cell g head = Some (hd ((rev ns @ xs) @ [0]))"
    using hlist_last_cell [of g head "[]"] g(2) by simp
  have f: "length (rev ns @ xs) < fuel" using assms(5) by simp
  have "hlist_for_each fuel (reading f) head (g, s) = Inr (g, fold f (rev ns @ xs) s)"
    using heach_loop_reads [of g head "[]", OF _ f] g(2) c by (simp add: hlist_for_each_def)
  moreover have "hlist_for_each_entry fuel (reading f) off head (g, s)
      = Inr (g, fold f (map (\<lambda>p. hlist_entry p off) (rev ns @ xs)) s)"
    using heach_entry_reads [of g head "[]", OF _ f] g(2) c by (simp add: hlist_for_each_entry_def)
  moreover have "hlist_for_each_entry_continue fuel (reading f) off y (g, s)
      = Inr (g, fold f (map (\<lambda>p. hlist_entry p off) ys) s)" if e: "rev ns @ xs = us @ y # ys" for us y ys
  proof -
    have l: "hlist g head (us @ y # ys)" "hlist g head ((us @ [y]) @ ys)" "length ys < fuel"
      using g(2) f by (simp_all add: e)
    show ?thesis
      using hlist_cells(1) [OF l(1)] heach_entry_reads [OF l(2,3), of f off s]
      by (simp add: hlist_for_each_entry_continue_def)
  qed
  moreover obtain h' where "hlist_for_each_safe fuel hdeleting head (g, []) = Inr (h', rev ns @ xs)"
    "hlist h' head []"
    using heach_safe_loop_deletes [OF g(2) f, of "[]"] c by (auto simp: hlist_for_each_safe_def)
  moreover have "hlist_empty head h' = Some True" if "hlist h' head []" for h'
    using hlist_empty_iff [OF that] by simp
  ultimately show ?thesis using g by blast
qed

lemma hlist_chain_witness:
  "\<exists>g. insert_all (\<lambda>n. hlist_add_head n 1) [7, 8] demo_hlist = Some g \<and> hlist g 1 [8, 7, 2, 3, 4]
     \<and> hlist_for_each 6 (reading (#)) 1 (g, []) = Inr (g, [4, 3, 2, 7, 8])"
  using hlist_chain [of demo_hlist 1 "[2, 3, 4]" "[7, 8]" 6 "(#)" "[]" 0] demo_hlist_ok by auto

end
