(* ===== verification/ListPool.thy ===== *)
theory ListPool
  imports Prelude
begin

text \<open>
  The abstract state of a client that keeps several intrusive lists: the lists by the address
  of their head, and the loose nodes, which are allocated but in no list.  An entry that has
  just been initialised is an empty list of its own and counts as unlinked as well.
\<close>

record pool =
  lists :: "i64 \<Rightarrow> i64 list option"
  loose :: "i64 set"

definition owns :: "pool \<Rightarrow> i64 \<Rightarrow> i64 \<Rightarrow> bool" where
  "owns P a x \<longleftrightarrow> (case lists P a of None \<Rightarrow> False | Some xs \<Rightarrow> x \<in> set (a # xs))"

definition wf_pool :: "pool \<Rightarrow> bool" where
  "wf_pool P \<longleftrightarrow> (\<forall>a xs. lists P a = Some xs \<longrightarrow> distinct (a # xs))
     \<and> (\<forall>a b x. owns P a x \<longrightarrow> owns P b x \<longrightarrow> a = b) \<and> (\<forall>a x. owns P a x \<longrightarrow> x \<notin> loose P)"

definition pool_nodes :: "pool \<Rightarrow> i64 set" where
  "pool_nodes P = loose P \<union> {x. \<exists>a. owns P a x}"

definition unlinked :: "pool \<Rightarrow> i64 \<Rightarrow> bool" where
  "unlinked P n \<longleftrightarrow> n \<in> loose P \<or> lists P n = Some []"

definition put_list :: "i64 \<Rightarrow> i64 list \<Rightarrow> pool \<Rightarrow> pool" where
  "put_list a xs P = P\<lparr>lists := (lists P)(a \<mapsto> xs)\<rparr>"

definition take_node :: "i64 \<Rightarrow> pool \<Rightarrow> pool" where
  "take_node n P = \<lparr>lists = (lists P)(n := None), loose = loose P - {n}\<rparr>"

definition drop_node :: "i64 \<Rightarrow> pool \<Rightarrow> pool" where
  "drop_node n P = \<lparr>lists = (lists P)(n := None), loose = insert n (loose P)\<rparr>"

lemma pool_sel [simp]:
  "lists (put_list a xs P) = (lists P)(a \<mapsto> xs)" "loose (put_list a xs P) = loose P"
  "lists (take_node n P) = (lists P)(n := None)" "loose (take_node n P) = loose P - {n}"
  "lists (drop_node n P) = (lists P)(n := None)" "loose (drop_node n P) = insert n (loose P)"
  by (simp_all add: put_list_def take_node_def drop_node_def)

lemma owns_put [simp]: "owns (put_list a xs P) b x \<longleftrightarrow> (if b = a then x \<in> set (a # xs) else owns P b x)"
  by (simp add: owns_def)

lemma owns_take [simp]: "owns (take_node n P) b x \<longleftrightarrow> b \<noteq> n \<and> owns P b x"
  by (simp add: owns_def)

lemma owns_drop [simp]: "owns (drop_node n P) b x \<longleftrightarrow> b \<noteq> n \<and> owns P b x"
  by (simp add: owns_def)

lemma owns_list: "lists P a = Some xs \<Longrightarrow> owns P a x \<longleftrightarrow> x \<in> set (a # xs)"
  by (simp add: owns_def)

lemma wf_distinct: "wf_pool P \<Longrightarrow> lists P a = Some xs \<Longrightarrow> distinct (a # xs)"
  unfolding wf_pool_def by blast

lemma wf_owner: "wf_pool P \<Longrightarrow> owns P a x \<Longrightarrow> owns P b x \<Longrightarrow> a = b"
  unfolding wf_pool_def by blast

lemma wf_not_loose: "wf_pool P \<Longrightarrow> owns P a x \<Longrightarrow> x \<notin> loose P"
  unfolding wf_pool_def by blast

lemma wf_disjoint:
  "wf_pool P \<Longrightarrow> lists P a = Some xs \<Longrightarrow> lists P b = Some ys \<Longrightarrow> a \<noteq> b \<Longrightarrow> set (a # xs) \<inter> set (b # ys) = {}"
  using wf_owner [of P a _ b] by (auto simp: owns_list)

lemma wf_poolI:
  "(\<And>a xs. lists P a = Some xs \<Longrightarrow> distinct (a # xs)) \<Longrightarrow> (\<And>a b x. owns P a x \<Longrightarrow> owns P b x \<Longrightarrow> a = b)
   \<Longrightarrow> (\<And>a x. owns P a x \<Longrightarrow> x \<notin> loose P) \<Longrightarrow> wf_pool P"
  unfolding wf_pool_def by blast

section \<open>Changes\<close>

text \<open>An unlinked node belongs to no list of another head.\<close>

lemma unlinked_owner: "wf_pool P \<Longrightarrow> unlinked P n \<Longrightarrow> owns P a n \<Longrightarrow> a = n"
  using wf_owner [of P a n n] wf_not_loose [of P a n] by (auto simp: unlinked_def owns_list)

lemma wf_take: "wf_pool P \<Longrightarrow> wf_pool (take_node n P)"
  by (rule wf_poolI) (auto split: if_splits dest: wf_distinct wf_owner wf_not_loose)

lemma wf_drop:
  assumes "wf_pool P" and "\<And>a. owns P a n \<Longrightarrow> a = n"
  shows "wf_pool (drop_node n P)"
  by (rule wf_poolI) (use assms in \<open>auto split: if_splits dest: wf_distinct wf_owner wf_not_loose\<close>)

lemma wf_put:
  assumes "wf_pool P" and "distinct (a # xs)" and "\<And>x b. x \<in> set (a # xs) \<Longrightarrow> owns P b x \<Longrightarrow> b = a"
    and "set (a # xs) \<inter> loose P = {}"
  shows "wf_pool (put_list a xs P)"
proof (rule wf_poolI)
  fix b c x
  assume "owns (put_list a xs P) b x" "owns (put_list a xs P) c x"
  then show "b = c" using assms(3) wf_owner [OF assms(1)] by (auto split: if_splits)
next
  fix b ys
  assume "lists (put_list a xs P) b = Some ys"
  then show "distinct (b # ys)" using assms(2) wf_distinct [OF assms(1)] by (auto split: if_splits)
next
  fix b x
  assume "owns (put_list a xs P) b x"
  then show "x \<notin> loose (put_list a xs P)" using assms(4) wf_not_loose [OF assms(1)] by (auto split: if_splits)
qed

section \<open>Moving nodes between lists\<close>

lemma wf_move_pool:
  assumes "wf_pool P" and "lists P a = Some (xs @ x # ys)"
  shows "wf_pool (put_list a (xs @ ys) P)" and "x \<notin> set (a # xs @ ys)"
    and "b \<noteq> a \<Longrightarrow> \<not> owns P b x" and "x \<notin> loose P"
proof -
  have d: "distinct (a # xs @ x # ys)" by (rule wf_distinct [OF assms])
  have o: "owns P a y" if "y \<in> set (a # xs @ x # ys)" for y using that assms(2) by (simp add: owns_list)
  show "wf_pool (put_list a (xs @ ys) P)"
  proof (rule wf_put [OF assms(1)])
    show "set (a # xs @ ys) \<inter> loose P = {}" using o wf_not_loose [OF assms(1)] by auto
  qed (use d o wf_owner [OF assms(1)] in auto)
  show x: "x \<notin> set (a # xs @ ys)" using d by auto
  show "\<not> owns P b x" if "b \<noteq> a" using that o [of x] wf_owner [OF assms(1), of a x b] by auto
  show "x \<notin> loose P" using wf_not_loose [OF assms(1) o] by simp
qed

lemma wf_add_pool:
  assumes "wf_pool P" and "lists P a = Some xs" and "unlinked P n" and "n \<noteq> a" and "set zs = set (n # xs)" "distinct zs"
  shows "wf_pool (put_list a zs (take_node n P))" and "n \<notin> set (a # xs)"
proof -
  have o: "owns P a y" if "y \<in> set (a # xs)" for y using that assms(2) by (simp add: owns_list)
  show n: "n \<notin> set (a # xs)" using o [of n] unlinked_owner [OF assms(1,3)] assms(4) by auto
  show "wf_pool (put_list a zs (take_node n P))"
  proof (rule wf_put [OF wf_take [OF assms(1)]])
    show "distinct (a # zs)" using assms(4-6) wf_distinct [OF assms(1,2)] by auto
    show "b = a" if "y \<in> set (a # zs)" "owns (take_node n P) b y" for y b
      using that assms(5) wf_owner [OF assms(1)] o unlinked_owner [OF assms(1,3)] by auto
    show "set (a # zs) \<inter> loose (take_node n P) = {}"
      using assms(5) o wf_not_loose [OF assms(1)] by auto
  qed
qed

lemma wf_join_pool:
  assumes "wf_pool P" and "lists P b = Some ys" and "b \<notin> set xs"
    and "distinct (xs @ ys)" and "\<And>x c. x \<in> set xs \<Longrightarrow> \<not> owns P c x" "set xs \<inter> loose P = {}"
    and "set zs = set (xs @ ys)" "distinct zs"
  shows "wf_pool (put_list b zs P)"
proof (rule wf_put [OF assms(1)])
  have o: "owns P b y" if "y \<in> set (b # ys)" for y using that assms(2) by (simp add: owns_list)
  have l: "y \<notin> loose P" if "y \<in> set (b # ys)" for y by (rule wf_not_loose [OF assms(1) o [OF that]])
  show "distinct (b # zs)" using assms wf_distinct [OF assms(1,2)] by auto
  show "c = b" if "y \<in> set (b # zs)" "owns P c y" for y c
    using that assms(5,7) o wf_owner [OF assms(1)] by auto
  show "set (b # zs) \<inter> loose P = {}" using assms(6,7) l by auto
qed

lemma wf_same_nodes:
  assumes "wf_pool P" and "lists P a = Some xs" and "set zs = set xs" "distinct zs"
  shows "wf_pool (put_list a zs P)"
  using wf_join_pool [OF assms(1,2), of "[]" zs] wf_distinct [OF assms(1,2)] assms(3,4) by simp

lemma wf_init_pool: "wf_pool P \<Longrightarrow> unlinked P n \<Longrightarrow> wf_pool (put_list n [] (take_node n P))"
  by (intro wf_put wf_take) (auto dest: unlinked_owner)

lemma wf_move_over:
  assumes "wf_pool P" and "lists P a = Some (xs @ x # ys)" and "lists P b = Some zs" "a \<noteq> b"
    and "set vs = set (x # zs)" "distinct vs"
  shows "wf_pool (put_list b vs (put_list a (xs @ ys) P))" and "set (a # xs @ x # ys) \<inter> set (b # zs) = {}"
proof -
  note m = wf_move_pool [OF assms(1,2)]
  show disj: "set (a # xs @ x # ys) \<inter> set (b # zs) = {}" by (rule wf_disjoint [OF assms(1-4)])
  have "lists (put_list a (xs @ ys) P) b = Some zs" using assms(3,4) by simp
  then show "wf_pool (put_list b vs (put_list a (xs @ ys) P))"
    using m disj wf_distinct [OF assms(1,3)] assms(5,6) by (intro wf_join_pool [OF m(1), where xs = "[x]"]) auto
qed

lemma wf_splice_over:
  assumes "wf_pool P" and "lists P a = Some xs" and "lists P b = Some ys" "a \<noteq> b"
  shows "wf_pool (put_list b (xs @ ys) (drop_node a P))" and "wf_pool (put_list b (xs @ ys) (put_list a [] P))"
    and "set (a # xs) \<inter> set (b # ys) = {}"
proof -
  show disj: "set (a # xs) \<inter> set (b # ys) = {}" by (rule wf_disjoint [OF assms])
  have d: "distinct (a # xs)" "distinct (b # ys)" using wf_distinct [OF assms(1)] assms(2,3) by blast+
  have o: "owns P a x" "x \<notin> loose P" if "x \<in> set (a # xs)" for x
    using that assms(2) wf_not_loose [OF assms(1), of a x] by (simp_all add: owns_list)
  have c: "c = a" if "owns P c x" "x \<in> set (a # xs)" for c x by (rule wf_owner [OF assms(1) that(1) o(1) [OF that(2)]])
  have 1: "wf_pool (drop_node a P)" using c [where x = a] by (intro wf_drop [OF assms(1)]) simp
  show "wf_pool (put_list b (xs @ ys) (drop_node a P))"
    using disj d o(2) c assms(3,4) by (intro wf_join_pool [OF 1, where ys = ys and xs = xs]) auto
  have 2: "wf_pool (put_list a [] P)" using o c by (intro wf_put [OF assms(1)]) auto
  show "wf_pool (put_list b (xs @ ys) (put_list a [] P))"
    using disj d o(2) c assms(3,4) by (intro wf_join_pool [OF 2, where ys = ys and xs = xs]) (auto split: if_splits)
qed

lemma untouched_node:
  "wf_pool P \<Longrightarrow> unlinked P n \<Longrightarrow> lists P c = Some zs \<Longrightarrow> n \<noteq> c \<Longrightarrow> n \<notin> set (c # zs)"
  using unlinked_owner [of P n c] by (auto simp: owns_list)

lemma owned_nodes: "lists P a = Some xs \<Longrightarrow> a \<in> D \<Longrightarrow> set (a # xs) \<subseteq> {x. \<exists>a \<in> D. owns P a x} \<union> N"
  by (auto simp: owns_def split: option.splits intro!: bexI [of _ a])

section \<open>Nodes\<close>

lemma list_nodes: "lists P a = Some xs \<Longrightarrow> set (a # xs) \<subseteq> pool_nodes P"
  by (auto simp: pool_nodes_def owns_def intro!: exI [of _ a])

lemma unlinked_node: "unlinked P n \<Longrightarrow> n \<in> pool_nodes P"
  by (auto simp: unlinked_def pool_nodes_def owns_def intro!: exI [of _ n])

lemma nodes_put: "x \<in> pool_nodes (put_list a xs P) \<Longrightarrow> x \<in> set (a # xs) \<or> x \<in> pool_nodes P"
  by (auto simp: pool_nodes_def split: if_splits)

lemma nodes_take: "x \<in> pool_nodes (take_node n P) \<Longrightarrow> x \<in> pool_nodes P"
  by (auto simp: pool_nodes_def)

lemma nodes_drop: "x \<in> pool_nodes (drop_node n P) \<Longrightarrow> x = n \<or> x \<in> pool_nodes P"
  by (auto simp: pool_nodes_def)

section \<open>Heaps that hold the lists\<close>

text \<open>
  What a linked representation promises: \<open>rep h a xs\<close> says that the heap holds the list \<open>xs\<close>
  with the head \<open>a\<close>, \<open>avail h n\<close> that the node \<open>n\<close> can be linked in, and \<open>same A h h'\<close> that the
  heaps differ in the nodes of \<open>A\<close> only.  A list, or a node, outside of \<open>A\<close> is not affected.
\<close>

locale linked_lists =
  fixes rep :: "'h \<Rightarrow> i64 \<Rightarrow> i64 list \<Rightarrow> bool"
    and avail :: "'h \<Rightarrow> i64 \<Rightarrow> bool"
    and same :: "i64 set \<Rightarrow> 'h \<Rightarrow> 'h \<Rightarrow> bool"
  assumes rep_frame: "same A h h' \<Longrightarrow> A \<inter> set (a # xs) = {} \<Longrightarrow> rep h a xs \<Longrightarrow> rep h' a xs"
    and avail_frame: "same A h h' \<Longrightarrow> n \<notin> A \<Longrightarrow> avail h n \<Longrightarrow> avail h' n"
begin

definition holds :: "'h \<Rightarrow> pool \<Rightarrow> bool" where
  "holds h P \<longleftrightarrow> wf_pool P \<and> (\<forall>a xs. lists P a = Some xs \<longrightarrow> rep h a xs) \<and> (\<forall>n \<in> loose P. avail h n)"

lemma holds_wf: "holds h P \<Longrightarrow> wf_pool P"
  by (simp add: holds_def)

lemma holds_rep: "holds h P \<Longrightarrow> lists P a = Some xs \<Longrightarrow> rep h a xs"
  by (simp add: holds_def)

lemma holds_avail: "holds h P \<Longrightarrow> n \<in> loose P \<Longrightarrow> avail h n"
  by (simp add: holds_def)

lemma holdsI:
  "wf_pool P \<Longrightarrow> (\<And>a xs. lists P a = Some xs \<Longrightarrow> rep h a xs) \<Longrightarrow> (\<And>n. n \<in> loose P \<Longrightarrow> avail h n) \<Longrightarrow> holds h P"
  by (simp add: holds_def)

text \<open>What an operation leaves intact that writes only nodes of the lists \<open>D\<close> and the unlinked
  nodes \<open>N\<close>.\<close>

lemma survivors:
  assumes "holds h P" and "same A h h'" and "A \<subseteq> {x. \<exists>a \<in> D. owns P a x} \<union> N" and "\<forall>n \<in> N. unlinked P n"
  shows "lists P c = Some zs \<Longrightarrow> c \<notin> D \<Longrightarrow> c \<notin> N \<Longrightarrow> rep h' c zs"
    and "m \<in> loose P \<Longrightarrow> m \<notin> N \<Longrightarrow> avail h' m"
proof -
  note wf = holds_wf [OF assms(1)]
  show "rep h' c zs" if "lists P c = Some zs" "c \<notin> D" "c \<notin> N"
  proof (rule rep_frame [OF assms(2) _ holds_rep [OF assms(1) that(1)]])
    have "x \<notin> A" if "owns P c x" for x
      using that \<open>c \<notin> D\<close> \<open>c \<notin> N\<close> assms(3,4) wf_owner [OF wf that] unlinked_owner [OF wf _ that] by blast
    then show "A \<inter> set (c # zs) = {}" using that(1) by (auto simp: owns_list)
  qed
  show "avail h' m" if "m \<in> loose P" "m \<notin> N"
    by (rule avail_frame [OF assms(2) _ holds_avail [OF assms(1) that(1)]])
       (use that assms(3) wf_not_loose [OF wf, of _ m] in blast)
qed

lemma add_holds:
  assumes h: "holds h P" and a: "lists P a = Some xs" and n: "unlinked P n" "n \<noteq> a"
    and zs: "set zs = set (n # xs)" "distinct zs"
    and g: "rep g a zs" "same (set (n # a # xs)) h g"
  shows "holds g (put_list a zs (take_node n P))"
proof (rule holdsI)
  show "wf_pool (put_list a zs (take_node n P))" by (rule wf_add_pool(1) [OF holds_wf [OF h] a n zs])
  have A: "set (n # a # xs) \<subseteq> {x. \<exists>a \<in> {a}. owns P a x} \<union> {n}" using a by (auto simp: owns_list)
  note v = survivors [OF h g(2) A]
  show "rep g c ys" if "lists (put_list a zs (take_node n P)) c = Some ys" for c ys
    using that g(1) v(1) [of c ys] n(1) by (auto split: if_splits)
  show "avail g m" if "m \<in> loose (put_list a zs (take_node n P))" for m
    using that v(2) [of m] n(1) by auto
qed

lemma del_holds:
  assumes h: "holds h P" and a: "lists P a = Some (xs @ x # ys)"
    and g: "rep g a (xs @ ys)" "same (set (a # xs @ x # ys)) h g" "avail g x"
  shows "holds g (drop_node x (put_list a (xs @ ys) P))"
proof (rule holdsI)
  note m = wf_move_pool [OF holds_wf [OF h] a]
  note v = survivors [OF h g(2) owned_nodes [OF a singletonI], of "{}"]
  show "wf_pool (drop_node x (put_list a (xs @ ys) P))" using m by (intro wf_drop) (auto split: if_splits)
  show "rep g c zs" if "lists (drop_node x (put_list a (xs @ ys) P)) c = Some zs" for c zs
    using that g(1) v(1) by (auto split: if_splits)
  show "avail g k" if "k \<in> loose (drop_node x (put_list a (xs @ ys) P))" for k
    using that g(3) v(2) by auto
qed

end

end
