(* ===== verification/ListSession.thy ===== *)
theory ListSession
  imports ListOps ListPool
begin

text \<open>
  Sessions with any number of lists: the operations of \<open>linkedlist.h\<close> as a data type, what
  they do to a \<^typ>\<open>pool\<close> (\<open>pool_step\<close>), and that they do it on the heap.
\<close>

datatype list_op =
    Init i64
  | Add i64 i64
  | Add_tail i64 i64
  | Del i64
  | Del_init i64
  | Move i64 i64
  | Move_tail i64 i64
  | Splice i64 i64
  | Splice_init i64 i64

primrec list_step :: "list_op \<Rightarrow> list_heap \<Rightarrow> list_heap option" where
  "list_step (Init a) h = INIT_LIST_HEAD a h"
| "list_step (Add n a) h = list_add n a h"
| "list_step (Add_tail n a) h = list_add_tail n a h"
| "list_step (Del x) h = list_del x h"
| "list_step (Del_init x) h = list_del_init x h"
| "list_step (Move x b) h = list_move x b h"
| "list_step (Move_tail x b) h = list_move_tail x b h"
| "list_step (Splice a b) h = list_splice a b h"
| "list_step (Splice_init a b) h = list_splice_init a b h"

primrec list_run :: "list_op list \<Rightarrow> list_heap \<Rightarrow> list_heap option" where
  "list_run [] h = Some h"
| "list_run (op # ops) h = do { h \<leftarrow> list_step op h; list_run ops h }"

text \<open>The contract of the operations on the pool, with the guards a client has to respect.\<close>

inductive pool_step :: "pool \<Rightarrow> list_op \<Rightarrow> pool \<Rightarrow> bool" where
  init: "unlinked P n \<Longrightarrow> pool_step P (Init n) (put_list n [] (take_node n P))"
| add: "lists P a = Some xs \<Longrightarrow> unlinked P n \<Longrightarrow> n \<noteq> a \<Longrightarrow>
    pool_step P (Add n a) (put_list a (n # xs) (take_node n P))"
| add_tail: "lists P a = Some xs \<Longrightarrow> unlinked P n \<Longrightarrow> n \<noteq> a \<Longrightarrow>
    pool_step P (Add_tail n a) (put_list a (xs @ [n]) (take_node n P))"
| del: "lists P a = Some (xs @ x # ys) \<Longrightarrow> pool_step P (Del x) (drop_node x (put_list a (xs @ ys) P))"
| del_init: "lists P a = Some (xs @ x # ys) \<Longrightarrow>
    pool_step P (Del_init x) (put_list x [] (put_list a (xs @ ys) P))"
| move: "lists P a = Some (xs @ x # ys) \<Longrightarrow> lists P b = Some zs \<Longrightarrow> a \<noteq> b \<Longrightarrow>
    pool_step P (Move x b) (put_list b (x # zs) (put_list a (xs @ ys) P))"
| move_tail: "lists P a = Some (xs @ x # ys) \<Longrightarrow> lists P b = Some zs \<Longrightarrow> a \<noteq> b \<Longrightarrow>
    pool_step P (Move_tail x b) (put_list b (zs @ [x]) (put_list a (xs @ ys) P))"
| move_same: "lists P a = Some (xs @ x # ys) \<Longrightarrow> pool_step P (Move x a) (put_list a (x # xs @ ys) P)"
| move_tail_same: "lists P a = Some (xs @ x # ys) \<Longrightarrow>
    pool_step P (Move_tail x a) (put_list a (xs @ ys @ [x]) P)"
| splice: "lists P a = Some xs \<Longrightarrow> lists P b = Some ys \<Longrightarrow> a \<noteq> b \<Longrightarrow>
    pool_step P (Splice a b) (put_list b (xs @ ys) (drop_node a P))"
| splice_init: "lists P a = Some xs \<Longrightarrow> lists P b = Some ys \<Longrightarrow> a \<noteq> b \<Longrightarrow>
    pool_step P (Splice_init a b) (put_list b (xs @ ys) (put_list a [] P))"

inductive pool_run :: "pool \<Rightarrow> list_op list \<Rightarrow> pool \<Rightarrow> bool" where
  nil: "pool_run P [] P"
| cons: "pool_step P op Q \<Longrightarrow> pool_run Q ops R \<Longrightarrow> pool_run P (op # ops) R"

section \<open>The pool stays well-formed\<close>

lemma pool_step_wf: "pool_step P op Q \<Longrightarrow> wf_pool P \<Longrightarrow> wf_pool Q"
proof (induction rule: pool_step.induct)
  case (del P a xs x ys)
  then show ?case using wf_move_pool [OF del(2,1)] by (intro wf_drop) (auto split: if_splits)
next
  case (del_init P a xs x ys)
  note m = wf_move_pool [OF del_init(2,1)]
  show ?case using m(2-4) by (intro wf_put [OF m(1)]) (auto split: if_splits)
next
  case (move P a xs x ys b zs)
  then show ?case
    using wf_disjoint [OF move(4,1,2,3)] wf_distinct [OF move(4,2)] by (intro wf_move_over(1)) auto
next
  case (move_tail P a xs x ys b zs)
  then show ?case
    using wf_disjoint [OF move_tail(4,1,2,3)] wf_distinct [OF move_tail(4,2)] by (intro wf_move_over(1)) auto
next
  case (add P a xs n)
  then show ?case using wf_add_pool(2) [OF add(4,1-3)] wf_distinct [OF add(4,1)] by (intro wf_add_pool(1)) auto
next
  case (add_tail P a xs n)
  then show ?case
    using wf_add_pool(2) [OF add_tail(4,1-3)] wf_distinct [OF add_tail(4,1)] by (intro wf_add_pool(1)) auto
next
  case (move_same P a xs x ys)
  then show ?case using wf_distinct [OF move_same(2,1)] by (intro wf_same_nodes) auto
next
  case (move_tail_same P a xs x ys)
  then show ?case using wf_distinct [OF move_tail_same(2,1)] by (intro wf_same_nodes) auto
qed (auto intro: wf_init_pool wf_splice_over)

lemma pool_step_nodes: "pool_step P op Q \<Longrightarrow> pool_nodes Q \<subseteq> pool_nodes P"
  by (erule pool_step.cases)
     (auto dest!: nodes_put nodes_take nodes_drop list_nodes unlinked_node)

section \<open>The heap follows\<close>

interpretation dl: linked_lists dlist node_at same_except
  by unfold_locales (auto simp: dlist_frame same_except_def node_at_def)

lemma unlinked_node_at: "dl.holds h P \<Longrightarrow> unlinked P n \<Longrightarrow> node_at h n"
  using dl.holds_avail [of h P n] dlist_node_at [OF dl.holds_rep, of h P n "[]" n] by (auto simp: unlinked_def)

lemma del_init_step:
  assumes h: "dl.holds h P" and a: "lists P a = Some (xs @ x # ys)"
    and g: "dlist g a (xs @ ys)" "same_except (set (a # xs @ x # ys)) h g" "dlist g x []"
  shows "dl.holds g (put_list x [] (put_list a (xs @ ys) P))"
proof -
  note v = dl.survivors [OF h g(2) owned_nodes [OF a singletonI], of "{}"]
  show ?thesis
    by (rule dl.holdsI [OF pool_step_wf [OF pool_step.del_init [OF a] dl.holds_wf [OF h]]])
       (use g v in \<open>auto split: if_splits\<close>)
qed

lemma two_list_step:
  assumes h: "dl.holds h P" and ab: "lists P a = Some xs" "lists P b = Some ys"
    and g: "same_except (set (a # xs) \<union> set (b # ys)) h g" and s: "pool_step P op Q"
    and Q: "\<And>c zs. lists Q c = Some zs \<Longrightarrow> c \<noteq> a \<Longrightarrow> c \<noteq> b \<Longrightarrow> lists P c = Some zs"
    and ok: "\<And>zs. lists Q a = Some zs \<Longrightarrow> dlist g a zs" "\<And>zs. lists Q b = Some zs \<Longrightarrow> dlist g b zs"
      "\<And>m. m \<in> loose Q \<Longrightarrow> m \<notin> loose P \<Longrightarrow> node_at g m"
  shows "dl.holds g Q"
proof (rule dl.holdsI)
  have A: "set (a # xs) \<union> set (b # ys) \<subseteq> {x. \<exists>c \<in> {a, b}. owns P c x} \<union> {}"
    using ab by (auto simp: owns_list)
  note v = dl.survivors [OF h g A]
  show "wf_pool Q" by (rule pool_step_wf [OF s dl.holds_wf [OF h]])
  show "dlist g c zs" if "lists Q c = Some zs" for c zs using that Q v(1) ok(1,2) by (cases "c = a"; cases "c = b") auto
  show "node_at g m" if "m \<in> loose Q" for m using that v(2) ok(3) by (cases "m \<in> loose P") auto
qed

definition follows :: "list_heap \<Rightarrow> pool \<Rightarrow> list_op \<Rightarrow> pool \<Rightarrow> bool" where
  "follows h P op Q \<longleftrightarrow> (\<exists>h'. list_step op h = Some h' \<and> dl.holds h' Q \<and> same_except (pool_nodes P) h h')"

lemma followsI:
  "list_step op h = Some g \<Longrightarrow> dl.holds g Q \<Longrightarrow> same_except A h g \<Longrightarrow> A \<subseteq> pool_nodes P \<Longrightarrow> follows h P op Q"
  using same_except_mono [of A h g] by (auto simp: follows_def)

lemma init_follows:
  assumes h: "dl.holds h P" and n: "unlinked P n"
  shows "follows h P (Init n) (put_list n [] (take_node n P))"
proof -
  let ?g = "h\<lparr>nxt := (nxt h)(n \<mapsto> n), prv := (prv h)(n \<mapsto> n)\<rparr>"
  have g: "INIT_LIST_HEAD n h = Some ?g" "dlist ?g n []"
    using unlinked_node_at [OF h n] by (simp_all add: INIT_LIST_HEAD_def node_at_def dlist_def)
  have e: "same_except {n} h ?g" by (simp add: same_except_def)
  note v = dl.survivors [OF h e, of "{}" "{n}"]
  have "dl.holds ?g (put_list n [] (take_node n P))"
    by (rule dl.holdsI [OF wf_init_pool [OF dl.holds_wf [OF h] n]]) (use v n g(2) in \<open>auto split: if_splits\<close>)
  then show ?thesis using g(1) unlinked_node [OF n] by (intro followsI [OF _ _ e]) simp_all
qed

lemma add_follows:
  assumes h: "dl.holds h P" and a: "lists P a = Some xs" and u: "unlinked P n" "n \<noteq> a"
  shows "follows h P (Add n a) (put_list a (n # xs) (take_node n P))"
    and "follows h P (Add_tail n a) (put_list a (xs @ [n]) (take_node n P))"
proof -
  note wf = dl.holds_wf [OF h]
  have n: "node_at h n" "n \<notin> set (a # xs)" "distinct (a # xs)"
    using unlinked_node_at [OF h u(1)] untouched_node [OF wf u(1) a] u(2) wf_distinct [OF wf a] by blast+
  have A: "set (n # a # xs) \<subseteq> pool_nodes P" using list_nodes [OF a] unlinked_node [OF u(1)] by auto
  obtain g where g: "list_add n a h = Some g" "dlist g a (n # xs)" "same_except (set (n # a # xs)) h g"
    using list_add_ok [OF dl.holds_rep [OF h a] n(1,2)] by blast
  show "follows h P (Add n a) (put_list a (n # xs) (take_node n P))"
    using g(1) n(2,3) by (intro followsI [OF _ dl.add_holds [OF h a u _ _ g(2,3)] g(3) A]) auto
  obtain k where k: "list_add_tail n a h = Some k" "dlist k a (xs @ [n])" "same_except (set (n # a # xs)) h k"
    using list_add_tail_ok [OF dl.holds_rep [OF h a] n(1,2)] by blast
  show "follows h P (Add_tail n a) (put_list a (xs @ [n]) (take_node n P))"
    using k(1) n(2,3) by (intro followsI [OF _ dl.add_holds [OF h a u _ _ k(2,3)] k(3) A]) auto
qed

lemma del_follows:
  assumes h: "dl.holds h P" and a: "lists P a = Some (xs @ x # ys)"
  shows "follows h P (Del x) (drop_node x (put_list a (xs @ ys) P))"
    and "follows h P (Del_init x) (put_list x [] (put_list a (xs @ ys) P))"
proof -
  obtain g where g: "list_del x h = Some g" "dlist g a (xs @ ys)" "node_at g x" "same_except (set (a # xs @ x # ys)) h g"
    using list_del_ok [OF dl.holds_rep [OF h a]] by (auto simp: node_at_def)
  then show "follows h P (Del x) (drop_node x (put_list a (xs @ ys) P))"
    by (intro followsI [OF _ dl.del_holds [OF h a g(2,4,3)] g(4) list_nodes [OF a]]) simp
  obtain k where k: "list_del_init x h = Some k" "dlist k a (xs @ ys)" "dlist k x []" "same_except (set (a # xs @ x # ys)) h k"
    using list_del_init_ok [OF dl.holds_rep [OF h a]] by blast
  then show "follows h P (Del_init x) (put_list x [] (put_list a (xs @ ys) P))"
    by (intro followsI [OF _ del_init_step [OF h a k(2,4,3)] k(4) list_nodes [OF a]]) simp
qed

lemma two_list_follows:
  assumes h: "dl.holds h P" and ab: "lists P a = Some xs" "lists P b = Some ys" and s: "pool_step P op Q"
    and g: "list_step op h = Some g" "same_except A h g" "A \<subseteq> set (a # xs) \<union> set (b # ys)"
    and Q: "\<And>c zs. lists Q c = Some zs \<Longrightarrow> c \<noteq> a \<Longrightarrow> c \<noteq> b \<Longrightarrow> lists P c = Some zs"
    and ok: "\<And>zs. lists Q a = Some zs \<Longrightarrow> dlist g a zs" "\<And>zs. lists Q b = Some zs \<Longrightarrow> dlist g b zs"
      "\<And>m. m \<in> loose Q \<Longrightarrow> m \<notin> loose P \<Longrightarrow> node_at g m"
  shows "follows h P op Q"
  using list_nodes [OF ab(1)] list_nodes [OF ab(2)] g(3)
  by (intro followsI [where A = A, OF g(1) two_list_step [OF h ab same_except_mono [OF g(2,3)] s Q ok] g(2)]) blast+

lemma move_follows:
  assumes h: "dl.holds h P" and a: "lists P a = Some (xs @ x # ys)" and b: "lists P b = Some zs" "a \<noteq> b"
  shows "follows h P (Move x b) (put_list b (x # zs) (put_list a (xs @ ys) P))"
    and "follows h P (Move_tail x b) (put_list b (zs @ [x]) (put_list a (xs @ ys) P))"
proof -
  note disj = wf_disjoint [OF dl.holds_wf [OF h] a b]
  note ok = list_move_ok [OF dl.holds_rep [OF h a] dl.holds_rep [OF h b(1)] disj]
  obtain g where g: "list_move x b h = Some g" "dlist g a (xs @ ys)" "dlist g b (x # zs)"
    "same_except (set (x # b # zs) \<union> set (a # xs @ ys)) h g" using ok(1) by blast
  show "follows h P (Move x b) (put_list b (x # zs) (put_list a (xs @ ys) P))"
    by (rule two_list_follows [OF h a b(1) pool_step.move [OF a b] _ g(4)]) (use g b(2) in \<open>auto split: if_splits\<close>)
  obtain k where k: "list_move_tail x b h = Some k" "dlist k a (xs @ ys)" "dlist k b (zs @ [x])"
    "same_except (set (x # b # zs) \<union> set (a # xs @ ys)) h k" using ok(2) by blast
  show "follows h P (Move_tail x b) (put_list b (zs @ [x]) (put_list a (xs @ ys) P))"
    by (rule two_list_follows [OF h a b(1) pool_step.move_tail [OF a b] _ k(4)]) (use k b(2) in \<open>auto split: if_splits\<close>)
qed

lemma move_same_follows:
  assumes h: "dl.holds h P" and a: "lists P a = Some (xs @ x # ys)"
  shows "follows h P (Move x a) (put_list a (x # xs @ ys) P)"
    and "follows h P (Move_tail x a) (put_list a (xs @ ys @ [x]) P)"
proof -
  note ok = list_move_same_ok [OF dl.holds_rep [OF h a]]
  obtain g where g: "list_move x a h = Some g" "dlist g a (x # xs @ ys)"
    "same_except (set (x # a # xs @ ys)) h g" using ok(1) by blast
  show "follows h P (Move x a) (put_list a (x # xs @ ys) P)"
    by (rule two_list_follows [OF h a a pool_step.move_same [OF a] _ g(3)]) (use g in \<open>auto split: if_splits\<close>)
  obtain k where k: "list_move_tail x a h = Some k" "dlist k a (xs @ ys @ [x])"
    "same_except (set (x # a # xs @ ys)) h k" using ok(2) by blast
  show "follows h P (Move_tail x a) (put_list a (xs @ ys @ [x]) P)"
    by (rule two_list_follows [OF h a a pool_step.move_tail_same [OF a] _ k(3)]) (use k in \<open>auto split: if_splits\<close>)
qed

lemma splice_follows:
  assumes h: "dl.holds h P" and a: "lists P a = Some xs" and b: "lists P b = Some ys" "a \<noteq> b"
  shows "follows h P (Splice a b) (put_list b (xs @ ys) (drop_node a P))"
    and "follows h P (Splice_init a b) (put_list b (xs @ ys) (put_list a [] P))"
proof -
  note r = dl.holds_rep [OF h a] dl.holds_rep [OF h b(1)]
  note disj = wf_disjoint [OF dl.holds_wf [OF h] a b]
  obtain g where g: "list_splice a b h = Some g" "dlist g b (xs @ ys)" "same_except (set (b # xs @ ys)) h g"
    using list_splice_ok [OF r disj] by blast
  have "a \<notin> set (b # xs @ ys)" using disj r(1) by (auto simp: dlist_def)
  then have "node_at g a" using dlist_node_at [OF r(1), of a] g(3) by (simp add: same_except_def node_at_def)
  then show "follows h P (Splice a b) (put_list b (xs @ ys) (drop_node a P))"
    by (intro two_list_follows [OF h a b(1) pool_step.splice [OF a b] _ g(3)]) (use g b(2) in \<open>auto split: if_splits\<close>)
  obtain k where k: "list_splice_init a b h = Some k" "dlist k b (xs @ ys)" "dlist k a []"
    "same_except (set (a # b # xs @ ys)) h k" using list_splice_init_ok [OF r disj] by blast
  show "follows h P (Splice_init a b) (put_list b (xs @ ys) (put_list a [] P))"
    by (rule two_list_follows [OF h a b(1) pool_step.splice_init [OF a b] _ k(4)]) (use k b(2) in \<open>auto split: if_splits\<close>)
qed

lemma list_step_ok: "dl.holds h P \<Longrightarrow> pool_step P op Q \<Longrightarrow> follows h P op Q"
  by (erule pool_step.cases)
     (auto intro: init_follows add_follows del_follows move_follows move_same_follows splice_follows)

lemma list_run_ok:
  "pool_run P ops Q \<Longrightarrow> dl.holds h P \<Longrightarrow>
   \<exists>h'. list_run ops h = Some h' \<and> dl.holds h' Q \<and> same_except (pool_nodes P) h h'"
proof (induction arbitrary: h rule: pool_run.induct)
  case (nil P)
  then show ?case by simp
next
  case (cons P op Q ops R)
  obtain g where g: "list_step op h = Some g" "dl.holds g Q" "same_except (pool_nodes P) h g"
    using list_step_ok [OF cons.prems cons.hyps(1)] by (auto simp: follows_def)
  show ?case
    using g(1) cons.IH [OF g(2)] same_except_trans [OF g(3)] same_except_mono pool_step_nodes [OF cons.hyps(1)]
    by fastforce
qed

end
