(* ===== verification/HListSession.thy ===== *)
theory HListSession
  imports HList ListPool
begin

text \<open>
  Sessions with any number of singly headed lists, as with the chains of a hash table: the
  operations as a data type, their contract on a \<^typ>\<open>pool\<close> (\<open>hpool_step\<close>), and that the heap
  follows it.
\<close>

datatype hlist_op =
    HInit_head i64
  | HInit_node i64
  | HAdd_head i64 i64
  | HAdd_before i64 i64
  | HAdd_after i64 i64
  | HDel i64
  | HDel_init i64

primrec hlist_step :: "hlist_op \<Rightarrow> hlist_heap \<Rightarrow> hlist_heap option" where
  "hlist_step (HInit_head a) h = INIT_HLIST_HEAD a h"
| "hlist_step (HInit_node n) h = INIT_HLIST_NODE n h"
| "hlist_step (HAdd_head n a) h = hlist_add_head n a h"
| "hlist_step (HAdd_before n x) h = hlist_add_before n x h"
| "hlist_step (HAdd_after x n) h = hlist_add_after x n h"
| "hlist_step (HDel x) h = hlist_del x h"
| "hlist_step (HDel_init x) h = hlist_del_init x h"

primrec hlist_run :: "hlist_op list \<Rightarrow> hlist_heap \<Rightarrow> hlist_heap option" where
  "hlist_run [] h = Some h"
| "hlist_run (op # ops) h = do { h \<leftarrow> hlist_step op h; hlist_run ops h }"

inductive hpool_step :: "pool \<Rightarrow> hlist_op \<Rightarrow> pool \<Rightarrow> bool" where
  init_head: "n \<in> loose P \<Longrightarrow> hpool_step P (HInit_head n) (put_list n [] (take_node n P))"
| init_node: "n \<in> loose P \<Longrightarrow> hpool_step P (HInit_node n) P"
| add_head: "lists P a = Some xs \<Longrightarrow> n \<in> loose P \<Longrightarrow>
    hpool_step P (HAdd_head n a) (put_list a (n # xs) (take_node n P))"
| add_before: "lists P a = Some (xs @ x # ys) \<Longrightarrow> n \<in> loose P \<Longrightarrow>
    hpool_step P (HAdd_before n x) (put_list a (xs @ n # x # ys) (take_node n P))"
| add_after: "lists P a = Some (xs @ x # ys) \<Longrightarrow> n \<in> loose P \<Longrightarrow>
    hpool_step P (HAdd_after x n) (put_list a (xs @ x # n # ys) (take_node n P))"
| del: "lists P a = Some (xs @ x # ys) \<Longrightarrow> hpool_step P (HDel x) (drop_node x (put_list a (xs @ ys) P))"
| del_init: "lists P a = Some (xs @ x # ys) \<Longrightarrow>
    hpool_step P (HDel_init x) (drop_node x (put_list a (xs @ ys) P))"

inductive hpool_run :: "pool \<Rightarrow> hlist_op list \<Rightarrow> pool \<Rightarrow> bool" where
  nil: "hpool_run P [] P"
| cons: "hpool_step P op Q \<Longrightarrow> hpool_run Q ops R \<Longrightarrow> hpool_run P (op # ops) R"

lemma hpool_step_nodes: "hpool_step P op Q \<Longrightarrow> pool_nodes Q \<subseteq> pool_nodes P"
  by (erule hpool_step.cases)
     (auto dest!: nodes_put nodes_take nodes_drop list_nodes simp: pool_nodes_def)

section \<open>The heap follows\<close>

interpretation hl: linked_lists hlist hnode_at hsame_except
  by (unfold_locales, erule (2) hlist_frame) (auto simp: hsame_except_def hnode_at_def)

definition hfollows :: "hlist_heap \<Rightarrow> pool \<Rightarrow> hlist_op \<Rightarrow> pool \<Rightarrow> bool" where
  "hfollows h P op Q \<longleftrightarrow> (\<exists>h'. hlist_step op h = Some h' \<and> hl.holds h' Q \<and> hsame_except (pool_nodes P) h h')"

lemma hfollowsI:
  "hlist_step op h = Some g \<Longrightarrow> hl.holds g Q \<Longrightarrow> hsame_except A h g \<Longrightarrow> A \<subseteq> pool_nodes P \<Longrightarrow> hfollows h P op Q"
  using hsame_except_mono [of A h g] by (auto simp: hfollows_def)

lemma loose_unlinked: "n \<in> loose P \<Longrightarrow> unlinked P n"
  by (simp add: unlinked_def)

lemma hinit_follows:
  assumes h: "hl.holds h P" and n: "n \<in> loose P"
  shows "hfollows h P (HInit_head n) (put_list n [] (take_node n P))" and "hfollows h P (HInit_node n) P"
proof -
  have a: "hnode_at h n" by (rule hl.holds_avail [OF h n])
  note wf = hl.holds_wf [OF h] and u = loose_unlinked [OF n]
  let ?g = "h\<lparr>cell := (cell h)(n \<mapsto> 0)\<rparr>" and ?k = "h\<lparr>cell := (cell h)(n \<mapsto> 0), ppr := (ppr h)(n \<mapsto> 0)\<rparr>"
  have e: "hsame_except {n} h ?g" "hsame_except {n} h ?k" by (simp_all add: hsame_except_def)
  note v = hl.survivors [OF h e(1), of "{}" "{n}"]
  have "hl.holds ?g (put_list n [] (take_node n P))"
    by (rule hl.holdsI [OF wf_init_pool [OF wf u]]) (use v u a in \<open>auto simp: hlist_def hnode_at_def split: if_splits\<close>)
  then show "hfollows h P (HInit_head n) (put_list n [] (take_node n P))"
    using a unlinked_node [OF u] by (intro hfollowsI [OF _ _ e(1)]) (simp_all add: INIT_HLIST_HEAD_def hnode_at_def)
  note w = hl.survivors [OF h e(2), of "{}" "{n}"]
  have "n \<noteq> c" if "lists P c = Some zs" for c zs using that n wf_not_loose [OF wf, of c n] by (auto simp: owns_list)
  then have "hl.holds ?k P"
    by (intro hl.holdsI [OF wf]) (use w u a in \<open>auto simp: hnode_at_def\<close>)
  then show "hfollows h P (HInit_node n) P"
    using a unlinked_node [OF u] by (intro hfollowsI [OF _ _ e(2)]) (simp_all add: INIT_HLIST_NODE_def hnode_at_def)
qed

text \<open>Linking a loose node into a list, at whatever place.\<close>

lemma hadd_follows:
  assumes h: "hl.holds h P" and a: "lists P a = Some xs" and n: "n \<in> loose P"
    and g: "hlist_step op h = Some g" "hlist g a zs" "hsame_except (set (n # a # xs)) h g"
    and zs: "set zs = set (n # xs)"
  shows "hfollows h P op (put_list a zs (take_node n P))"
proof -
  have na: "n \<noteq> a" using a n wf_not_loose [OF hl.holds_wf [OF h], of a n] by (auto simp: owns_list)
  have d: "distinct zs" using g(2) by (simp add: hlist_def)
  have A: "set (n # a # xs) \<subseteq> pool_nodes P"
    using list_nodes [OF a] unlinked_node [OF loose_unlinked [OF n]] by simp
  show ?thesis
    by (rule hfollowsI [OF g(1) hl.add_holds [OF h a loose_unlinked [OF n] na zs d g(2,3)] g(3) A])
qed

lemma loose_not_listed:
  assumes "hl.holds h P" and "lists P a = Some xs" and "n \<in> loose P"
  shows "hnode_at h n" and "n \<notin> set (a # xs)"
  using hl.holds_avail [OF assms(1,3)] wf_not_loose [OF hl.holds_wf [OF assms(1)], of a n] assms(2,3)
  by (auto simp: owns_list)

lemma hlist_step_ok: "hl.holds h P \<Longrightarrow> hpool_step P op Q \<Longrightarrow> hfollows h P op Q"
proof (erule hpool_step.cases; clarify)
  fix a xs n
  assume h: "hl.holds h P" and a: "lists P a = Some xs" and n: "n \<in> loose P"
  note l = hl.holds_rep [OF h a] loose_not_listed [OF h a n]
  show "hfollows h P (HAdd_head n a) (put_list a (n # xs) (take_node n P))"
    by (rule hadd_follows [OF h a n _ hlist_add_head_ok(2,3) [OF l]]) (simp_all add: hlist_add_head_ok(1) [OF l])
next
  fix a xs x ys n
  assume h: "hl.holds h P" and a: "lists P a = Some (xs @ x # ys)" and n: "n \<in> loose P"
  note l = hl.holds_rep [OF h a] loose_not_listed [OF h a n]
  obtain g where g: "hlist_add_before n x h = Some g" "hlist g a (xs @ n # x # ys)"
    "hsame_except (set (n # a # xs @ x # ys)) h g" using hlist_add_before_ok [OF l] by blast
  then show "hfollows h P (HAdd_before n x) (put_list a (xs @ n # x # ys) (take_node n P))"
    by (intro hadd_follows [OF h a n _ g(2,3)]) auto
  obtain k where k: "hlist_add_after x n h = Some k" "hlist k a (xs @ x # n # ys)"
    "hsame_except (set (n # a # xs @ x # ys)) h k" using hlist_add_after_ok [OF l] by blast
  then show "hfollows h P (HAdd_after x n) (put_list a (xs @ x # n # ys) (take_node n P))"
    by (intro hadd_follows [OF h a n _ k(2,3)]) auto
next
  fix a xs x ys
  assume h: "hl.holds h P" and a: "lists P a = Some (xs @ x # ys)"
  note ok = hlist_del_ok [OF hl.holds_rep [OF h a]]
  have nz: "x \<noteq> 0" using hl.holds_rep [OF h a] by (auto simp: hlist_def)
  obtain g where g: "hlist_del x h = Some g" "hlist g a (xs @ ys)" "hnode_at g x" "hsame_except (set (a # xs @ x # ys)) h g"
    using ok(1) nz by (auto simp: hnode_at_def)
  show "hfollows h P (HDel x) (drop_node x (put_list a (xs @ ys) P))"
    by (rule hfollowsI [OF _ hl.del_holds [OF h a g(2,4,3)] g(4) list_nodes [OF a]]) (simp add: g(1))
  obtain k where k: "hlist_del_init x h = Some k" "hlist k a (xs @ ys)" "hnode_at k x" "hsame_except (set (a # xs @ x # ys)) h k"
    using ok(2) by blast
  show "hfollows h P (HDel_init x) (drop_node x (put_list a (xs @ ys) P))"
    by (rule hfollowsI [OF _ hl.del_holds [OF h a k(2,4,3)] k(4) list_nodes [OF a]]) (simp add: k(1))
qed (rule hinit_follows; assumption)+

lemma hlist_run_ok:
  "hpool_run P ops Q \<Longrightarrow> hl.holds h P \<Longrightarrow>
   \<exists>h'. hlist_run ops h = Some h' \<and> hl.holds h' Q \<and> hsame_except (pool_nodes P) h h'"
proof (induction arbitrary: h rule: hpool_run.induct)
  case (nil P)
  then show ?case by simp
next
  case (cons P op Q ops R)
  obtain g where g: "hlist_step op h = Some g" "hl.holds g Q" "hsame_except (pool_nodes P) h g"
    using hlist_step_ok [OF cons.prems cons.hyps(1)] by (auto simp: hfollows_def)
  show ?case
    using g(1) cons.IH [OF g(2)] hsame_except_trans [OF g(3)] hsame_except_mono hpool_step_nodes [OF cons.hyps(1)]
    by fastforce
qed

end
