(* ===== verification/ListSessionProperties.thy ===== *)
theory ListSessionProperties
  imports ListProperties ListSession HListSession
begin

text \<open>
  Whole sessions on any number of lists, of both kinds: the heap implements the abstract lists
  of the pool, whatever the sequence of operations.
\<close>

definition list_pool :: "list_heap \<Rightarrow> pool \<Rightarrow> bool" where
  "list_pool h P \<longleftrightarrow> wf_pool P \<and> (\<forall>a xs. lists P a = Some xs \<longrightarrow> dlist h a xs) \<and> (\<forall>n \<in> loose P. node_at h n)"

definition hlist_pool :: "hlist_heap \<Rightarrow> pool \<Rightarrow> bool" where
  "hlist_pool h P \<longleftrightarrow> wf_pool P \<and> (\<forall>a xs. lists P a = Some xs \<longrightarrow> hlist h a xs) \<and> (\<forall>n \<in> loose P. hnode_at h n)"

lemma list_pool_holds: "list_pool = dl.holds" "hlist_pool = hl.holds"
  by (simp_all add: fun_eq_iff list_pool_def dl.holds_def hlist_pool_def hl.holds_def)

definition collect :: "i64 \<Rightarrow> i64 list \<Rightarrow> i64 list" where
  "collect x acc = acc @ [x]"

lemma fold_collect: "fold collect xs acc = acc @ xs"
  using fold_snoc [of xs acc] by (simp add: collect_def [abs_def])

section \<open>Circular lists\<close>

text \<open>
  C4: The circular lists refine their contract.  From a heap that holds the lists of a pool, every
  sequence of initialisations, insertions, deletions, moves and splices that respects the
  guards of \<open>pool_step\<close> runs without touching an invalid node, ends in a heap that holds the
  pool's lists as the contract changed them, leaves all other nodes alone, and walking any
  list with \<open>list_for_each\<close> then yields exactly its abstract contents.
\<close>

theorem list_session_refines:
  assumes "list_pool h P" and "pool_run P ops Q"
  shows "\<exists>h'. list_run ops h = Some h' \<and> list_pool h' Q \<and> same_except (pool_nodes P) h h'
    \<and> (\<forall>a xs. lists Q a = Some xs \<longrightarrow>
         list_for_each (Suc (length xs)) (reading collect) a (h', []) = Inr (h', xs))"
proof -
  obtain h' where h': "list_run ops h = Some h'" "list_pool h' Q" "same_except (pool_nodes P) h h'"
    using list_run_ok [OF assms(2)] assms(1) by (auto simp: list_pool_holds)
  have "list_for_each (Suc (length xs)) (reading collect) a (h', []) = Inr (h', xs)" if "lists Q a = Some xs" for a xs
  proof -
    have l: "dlist h' a ([] @ xs)" using h'(2) that by (simp add: list_pool_def)
    show ?thesis
      using each_loop_reads [OF l, of "Suc (length xs)" collect "[]"] dlist_next [of h' a xs] l
      by (simp add: list_for_each_def fold_collect del: each_loop.simps)
  qed
  with h' show ?thesis by blast
qed

definition demo_pool :: pool where
  "demo_pool = \<lparr>lists = [1 \<mapsto> [2, 3, 4], 5 \<mapsto> [6]], loose = {7, 8}\<rparr>"

lemma demo_pool_wf: "wf_pool demo_pool"
  by (rule wf_poolI) (auto simp: demo_pool_def owns_def split: if_splits)

lemma demo_pool_list: "list_pool demo_lists demo_pool"
  using demo_lists_dlist demo_pool_wf by (auto simp: list_pool_def demo_pool_def)

theorem list_session_refines_witness:
  "\<exists>h'. list_run [Add 7 1, Move_tail 3 5, Del_init 2, Add_tail 2 5, Splice_init 1 5, Del 6] demo_lists = Some h'
     \<and> list_for_each 5 (reading collect) 5 (h', []) = Inr (h', [7, 4, 3, 2])
     \<and> list_for_each 1 (reading collect) 1 (h', []) = Inr (h', [])"
proof -
  let ?P1 = "put_list 1 [7, 2, 3, 4] (take_node 7 demo_pool)"
  let ?P2 = "put_list 5 [6, 3] (put_list 1 [7, 2, 4] ?P1)"
  let ?P3 = "put_list 2 [] (put_list 1 [7, 4] ?P2)"
  let ?P4 = "put_list 5 [6, 3, 2] (take_node 2 ?P3)"
  let ?P5 = "put_list 5 [7, 4, 6, 3, 2] (put_list 1 [] ?P4)"
  let ?P6 = "drop_node 6 (put_list 5 [7, 4, 3, 2] ?P5)"
  have "pool_step demo_pool (Add 7 1) ?P1"
    using pool_step.add [of demo_pool 1 "[2, 3, 4]" 7] by (simp add: demo_pool_def unlinked_def)
  moreover have "pool_step ?P1 (Move_tail 3 5) ?P2"
    using pool_step.move_tail [of ?P1 1 "[7, 2]" 3 "[4]" 5 "[6]"] by (simp add: demo_pool_def)
  moreover have "pool_step ?P2 (Del_init 2) ?P3"
    using pool_step.del_init [of ?P2 1 "[7]" 2 "[4]"] by simp
  moreover have "pool_step ?P3 (Add_tail 2 5) ?P4"
    using pool_step.add_tail [of ?P3 5 "[6, 3]" 2] by (simp add: unlinked_def)
  moreover have "pool_step ?P4 (Splice_init 1 5) ?P5"
    using pool_step.splice_init [of ?P4 1 "[7, 4]" 5 "[6, 3, 2]"] by simp
  moreover have "pool_step ?P5 (Del 6) ?P6"
    using pool_step.del [of ?P5 5 "[7, 4]" 6 "[3, 2]"] by simp
  ultimately have "pool_run demo_pool [Add 7 1, Move_tail 3 5, Del_init 2, Add_tail 2 5, Splice_init 1 5, Del 6] ?P6"
    by - ((rule pool_run.cons, assumption)+, rule pool_run.nil)
  from list_session_refines [OF demo_pool_list this] obtain h' where
    r: "list_run [Add 7 1, Move_tail 3 5, Del_init 2, Add_tail 2 5, Splice_init 1 5, Del 6] demo_lists = Some h'"
    and w: "\<And>a xs. lists ?P6 a = Some xs \<Longrightarrow> list_for_each (Suc (length xs)) (reading collect) a (h', []) = Inr (h', xs)"
    by blast
  have "lists ?P6 5 = Some [7, 4, 3, 2]" "lists ?P6 1 = Some []" by simp_all
  from r this [THEN w] show ?thesis by (intro exI [of _ h']) (simp add: eval_nat_numeral del: list_run.simps each_loop.simps)
qed

section \<open>Singly headed lists\<close>

text \<open>
  C14: The singly headed lists refine the same contract: every sequence of initialisations,
  insertions at the head, before or after an entry, and deletions runs, ends in the heap of
  the abstract lists, leaves other nodes alone, and \<open>hlist_for_each\<close> then yields each list's
  contents.  An entry deleted with \<open>hlist_del\<close> or \<open>hlist_del_init\<close> can be linked in again.
\<close>

theorem hlist_session_refines:
  assumes "hlist_pool h P" and "hpool_run P ops Q"
  shows "\<exists>h'. hlist_run ops h = Some h' \<and> hlist_pool h' Q \<and> hsame_except (pool_nodes P) h h'
    \<and> (\<forall>a xs. lists Q a = Some xs \<longrightarrow>
         hlist_for_each (Suc (length xs)) (reading collect) a (h', []) = Inr (h', xs))"
proof -
  obtain h' where h': "hlist_run ops h = Some h'" "hlist_pool h' Q" "hsame_except (pool_nodes P) h h'"
    using hlist_run_ok [OF assms(2)] assms(1) by (auto simp: list_pool_holds)
  have "hlist_for_each (Suc (length xs)) (reading collect) a (h', []) = Inr (h', xs)" if "lists Q a = Some xs" for a xs
  proof -
    have l: "hlist h' a ([] @ xs)" using h'(2) that by (simp add: hlist_pool_def)
    show ?thesis
      using heach_loop_reads [OF l, of "Suc (length xs)" collect "[]"] hlist_last_cell [OF l]
      by (simp add: hlist_for_each_def fold_collect del: heach_loop.simps)
  qed
  with h' show ?thesis by blast
qed

lemma demo_pool_hlist: "hlist_pool demo_hlist \<lparr>lists = [1 \<mapsto> [2, 3, 4]], loose = {7, 8}\<rparr>"
  using demo_hlist_ok by (auto simp: hlist_pool_def owns_def intro!: wf_poolI split: if_splits)

theorem hlist_session_refines_witness:
  "\<exists>h'. hlist_run [HDel_init 3, HAdd_before 3 2, HAdd_after 4 7, HInit_head 8, HDel 2, HAdd_head 2 8] demo_hlist = Some h'
     \<and> hlist_for_each 4 (reading collect) 1 (h', []) = Inr (h', [3, 4, 7])
     \<and> hlist_for_each 2 (reading collect) 8 (h', []) = Inr (h', [2])"
proof -
  let ?P0 = "\<lparr>lists = [1 \<mapsto> [2, 3, 4]], loose = {7, 8}\<rparr>"
  let ?P1 = "drop_node 3 (put_list 1 [2, 4] ?P0)"
  let ?P2 = "put_list 1 [3, 2, 4] (take_node 3 ?P1)"
  let ?P3 = "put_list 1 [3, 2, 4, 7] (take_node 7 ?P2)"
  let ?P4 = "put_list 8 [] (take_node 8 ?P3)"
  let ?P5 = "drop_node 2 (put_list 1 [3, 4, 7] ?P4)"
  let ?P6 = "put_list 8 [2] (take_node 2 ?P5)"
  have "hpool_step ?P0 (HDel_init 3) ?P1"
    using hpool_step.del_init [of ?P0 1 "[2]" 3 "[4]"] by simp
  moreover have "hpool_step ?P1 (HAdd_before 3 2) ?P2"
    using hpool_step.add_before [of ?P1 1 "[]" 2 "[4]" 3] by simp
  moreover have "hpool_step ?P2 (HAdd_after 4 7) ?P3"
    using hpool_step.add_after [of ?P2 1 "[3, 2]" 4 "[]" 7] by simp
  moreover have "hpool_step ?P3 (HInit_head 8) ?P4"
    using hpool_step.init_head [of 8 ?P3] by simp
  moreover have "hpool_step ?P4 (HDel 2) ?P5"
    using hpool_step.del [of ?P4 1 "[3]" 2 "[4, 7]"] by simp
  moreover have "hpool_step ?P5 (HAdd_head 2 8) ?P6"
    using hpool_step.add_head [of ?P5 8 "[]" 2] by simp
  ultimately have "hpool_run ?P0 [HDel_init 3, HAdd_before 3 2, HAdd_after 4 7, HInit_head 8, HDel 2, HAdd_head 2 8] ?P6"
    by - ((rule hpool_run.cons, assumption)+, rule hpool_run.nil)
  from hlist_session_refines [OF demo_pool_hlist this] obtain h' where
    r: "hlist_run [HDel_init 3, HAdd_before 3 2, HAdd_after 4 7, HInit_head 8, HDel 2, HAdd_head 2 8] demo_hlist = Some h'"
    and w: "\<And>a xs. lists ?P6 a = Some xs \<Longrightarrow> hlist_for_each (Suc (length xs)) (reading collect) a (h', []) = Inr (h', xs)"
    by blast
  have "lists ?P6 1 = Some [3, 4, 7]" "lists ?P6 8 = Some [2]" by simp_all
  from r this [THEN w] show ?thesis by (intro exI [of _ h']) (simp add: eval_nat_numeral del: hlist_run.simps heach_loop.simps)
qed

end
