(* ===== verification/BufferManager.thy ===== *)
theory BufferManager
  imports StoreSafety
begin

text \<open>
  Model of \<open>src/lib/buffer_manager.h\<close> and \<open>src/lib/buffer_manager.c\<close>.  A manager holds two
  arrays, the frames and their \<open>meta_frame\<close>s; pointers into them are 64-bit addresses, as the
  code computes frame numbers from address differences.  \<open>bm_bytes\<close> and \<open>bm_metas\<close> are the
  contents of the arrays at \<open>bm_buffer\<close> and \<open>bm_metaframes\<close>.  Dereferencing the null
  pointer, or an address that is no array element, is a \<^typ>\<open>fault\<close>.

  GLib's hash table and the C allocator are parameters: \<open>libs\<close> has one function per
  \<open>g_hash_table\<close> call, each also returning the pointers it passed to the two destroy
  functions (\<open>free\<close> for both), and the predicate \<open>malloced\<close> that tells heap addresses
  from others.  The table is created without a hash or equality function, so GLib compares
  the key pointers themselves; what they point to is never read and is not modelled.  The
  addresses of the locals \<open>pageidxptr\<close> and \<open>frameidxptr\<close> of \<open>buff_pin\<close>, and those that
  \<open>calloc\<close> returns, are arguments.  Results that the code leaves in out-parameters are
  returned; the out-parameter's old value is an argument where a path leaves it alone.
\<close>

section \<open>Data\<close>

record meta_frame =
  mf_state :: frame_state
  mf_index :: page_index
  mf_next :: i64

definition SIZEOF_META_FRAME :: nat where
  "SIZEOF_META_FRAME = 24"

record 'h buffer_manager =
  bm_store :: "backing option"
  bm_frames :: i64
  bm_buffer :: i64
  bm_bytes :: "mem list"
  bm_metaframes :: i64
  bm_metas :: "meta_frame list"
  bm_freelist :: i64
  bm_writeback :: i64
  bm_lookup :: 'h

record 'h libs =
  gh_new :: 'h
  gh_lookup :: "'h \<Rightarrow> i64 \<Rightarrow> i64"
  gh_insert :: "'h \<Rightarrow> i64 \<Rightarrow> i64 \<Rightarrow> bool \<times> 'h \<times> i64 list"
  gh_remove :: "'h \<Rightarrow> i64 \<Rightarrow> bool \<times> 'h \<times> i64 list"
  gh_destroy :: "'h \<Rightarrow> i64 list"
  malloced :: "i64 \<Rightarrow> bool"

definition free_ptrs :: "'h libs \<Rightarrow> i64 list \<Rightarrow> unit res" where
  "free_ptrs L ps = (if list_all (\<lambda>p. p = 0 \<or> malloced L p) ps then Inr () else Inl BadFree)"

section \<open>Pointers\<close>

definition meta_ptr :: "'h buffer_manager \<Rightarrow> nat \<Rightarrow> i64" where
  "meta_ptr m i = bm_metaframes m + word_of_nat (i * SIZEOF_META_FRAME)"

definition frame_ptr :: "'h buffer_manager \<Rightarrow> i64 \<Rightarrow> i64" where
  "frame_ptr m i = bm_buffer m + i * word_of_nat PAGESIZE"

text \<open>The pointer difference divided by a \<open>size_t\<close>: unsigned division.\<close>

definition get_frame_index_from_meta :: "'h buffer_manager \<Rightarrow> i64 \<Rightarrow> frame_index" where
  "get_frame_index_from_meta m mp = (mp - bm_metaframes m) div word_of_nat SIZEOF_META_FRAME"

definition get_frame_index_from_frame :: "'h buffer_manager \<Rightarrow> i64 \<Rightarrow> frame_index" where
  "get_frame_index_from_frame m fp = (fp - bm_buffer m) div word_of_nat PAGESIZE"

definition deref_meta :: "'h buffer_manager \<Rightarrow> i64 \<Rightarrow> nat res" where
  "deref_meta m p =
     (if p = 0 then Inl NullDeref
      else let d = unat (p - bm_metaframes m) in
        if d mod SIZEOF_META_FRAME = 0 \<and> d div SIZEOF_META_FRAME < length (bm_metas m)
        then Inr (d div SIZEOF_META_FRAME) else Inl WildPointer)"

definition array_index :: "nat \<Rightarrow> i64 \<Rightarrow> nat res" where
  "array_index n i = (if 0 \<le> sint i \<and> sint i < int n then Inr (nat (sint i)) else Inl WildPointer)"

definition nth_frame :: "'h buffer_manager \<Rightarrow> i64 \<Rightarrow> nat res" where
  "nth_frame m i = array_index (length (bm_bytes m)) i"

definition nth_meta :: "'h buffer_manager \<Rightarrow> i64 \<Rightarrow> nat res" where
  "nth_meta m i = array_index (length (bm_metas m)) i"

definition upd_meta :: "nat \<Rightarrow> (meta_frame \<Rightarrow> meta_frame) \<Rightarrow> 'h buffer_manager \<Rightarrow> 'h buffer_manager" where
  "upd_meta i f m = m\<lparr>bm_metas := (bm_metas m)[i := f (bm_metas m ! i)]\<rparr>"

definition set_state :: "nat \<Rightarrow> frame_state \<Rightarrow> 'h buffer_manager \<Rightarrow> 'h buffer_manager" where
  "set_state i st = upd_meta i (mf_state_update (\<lambda>_. st))"

section \<open>Creation\<close>

text \<open>One round of the loop that chains the frames into the free list, and the loop.\<close>

definition init_meta :: "int \<Rightarrow> nat \<Rightarrow> 'h buffer_manager \<Rightarrow> 'h buffer_manager" where
  "init_meta frames i m =
     (if int i < frames - 1
      then set_state i FS_UNPINNED (upd_meta i (mf_next_update (\<lambda>_. meta_ptr m (i + 1))) m)
      else set_state i FS_UNPINNED (upd_meta i (mf_next_update (\<lambda>_. 0)) m))"

definition calloc_meta :: meta_frame where
  "calloc_meta = \<lparr>mf_state = FS_PINNED, mf_index = 0, mf_next = 0\<rparr>"

text \<open>\<open>buff_create\<close> after the store has been opened: \<open>bufp\<close> and \<open>metap\<close> are what the two
  array allocations return.\<close>

definition buff_init :: "'h libs \<Rightarrow> i64 \<Rightarrow> i64 \<Rightarrow> backing option \<Rightarrow> int \<Rightarrow> 'h buffer_manager res" where
  "buff_init L bufp metap store frames =
     (if 0 < frames \<and> metap = 0 then Inl NullDeref
      else Inr (fold (init_meta frames) [0..<nat frames]
        \<lparr>bm_store = store, bm_frames = word_of_int frames, bm_buffer = bufp,
         bm_bytes = replicate (nat frames) zero_mem, bm_metaframes = metap,
         bm_metas = replicate (nat frames) calloc_meta, bm_freelist = metap,
         bm_writeback = 0, bm_lookup = gh_new L\<rparr>))"

text \<open>The code passes the null pointer \<open>store\<close> to \<^const>\<open>open_backing\<close>.\<close>

definition buff_create ::
  "'h libs \<Rightarrow> i64 \<Rightarrow> i64 \<Rightarrow> string \<Rightarrow> 'h buffer_manager option \<Rightarrow> int \<Rightarrow> os
   \<Rightarrow> (status \<times> 'h buffer_manager option \<times> os) res"
where
  "buff_create L bufp metap storename manager frames s =
     bind_res (open_backing storename None s) (\<lambda>(st, store, s1).
       if st \<noteq> STATUS_OK then Inr (STATUS_NO_BACKING, manager, s1)
       else bind_res (buff_init L bufp metap (Some store) frames) (\<lambda>m.
         Inr (STATUS_OK, Some m, s1)))"

section \<open>Write-back\<close>

text \<open>The loop over the write-back list, the same in \<open>buff_flush_all\<close> and \<open>buff_destroy\<close>:
  the fuel bounds the number of rounds.\<close>

fun flush_loop :: "nat \<Rightarrow> i64 \<Rightarrow> 'h buffer_manager \<Rightarrow> os \<Rightarrow> ('h buffer_manager \<times> os) res" where
  "flush_loop 0 mp m s = Inl OutOfFuel"
| "flush_loop (Suc k) mp m s =
     (if mp = 0 then Inr (m, s)
      else bind_res (deref_meta m mp) (\<lambda>i.
        bind_res (nth_frame m (get_frame_index_from_meta m mp)) (\<lambda>j.
          case put_page (bm_bytes m ! j) (bm_store m) (mf_index (bm_metas m ! i)) s of
            (put, s1) \<Rightarrow>
              let m1 = (if put = STATUS_OK then set_state i FS_UNPINNED m else m)
              in flush_loop k (mf_next (bm_metas m1 ! i)) m1 s1)))"

definition buff_flush_all ::
  "nat \<Rightarrow> 'h buffer_manager option \<Rightarrow> os \<Rightarrow> (status \<times> 'h buffer_manager option \<times> os) res"
where
  "buff_flush_all fuel manager s =
     (case manager of
        None \<Rightarrow> Inr (STATUS_NO_MANAGER, None, s)
      | Some m \<Rightarrow> bind_res (flush_loop fuel (bm_writeback m) m s) (\<lambda>(m1, s1).
          Inr (STATUS_OK, Some m1, s1)))"

text \<open>The argument of \<open>buff_destroy\<close> is a pointer to the client's manager pointer.\<close>

definition buff_destroy ::
  "'h libs \<Rightarrow> nat \<Rightarrow> 'h buffer_manager option option \<Rightarrow> os
   \<Rightarrow> (status \<times> 'h buffer_manager option option \<times> os) res"
where
  "buff_destroy L fuel manager s =
     (case manager of
        None \<Rightarrow> Inr (STATUS_NO_MANAGER, None, s)
      | Some None \<Rightarrow> Inl NullDeref
      | Some (Some m) \<Rightarrow>
          bind_res (flush_loop fuel (bm_writeback m) m s) (\<lambda>(m1, s1).
          bind_res (free_ptrs L [bm_metaframes m1, bm_buffer m1]) (\<lambda>_.
          bind_res (free_ptrs L (gh_destroy L (bm_lookup m1))) (\<lambda>_.
            case close_backing (bm_store m1) s1 of (_, s2) \<Rightarrow> Inr (STATUS_OK, Some None, s2)))))"

section \<open>Pinning\<close>

text \<open>\<open>ka\<close> and \<open>va\<close> are the addresses of the locals \<open>pageidxptr\<close> and \<open>frameidxptr\<close>.  The
  assignment \<open>*manager->freelist = *manager->freelist->next_free_or_dirty\<close> copies the whole
  struct of the second free frame over that of the first.\<close>

definition claim_head :: "'h buffer_manager \<Rightarrow> 'h buffer_manager res" where
  "claim_head m =
     bind_res (deref_meta m (bm_freelist m)) (\<lambda>d.
     bind_res (deref_meta m (mf_next (bm_metas m ! d))) (\<lambda>n.
       Inr (m\<lparr>bm_metas := (bm_metas m)[d := bm_metas m ! n]\<rparr>)))"

definition buff_pin ::
  "'h libs \<Rightarrow> i64 \<Rightarrow> i64 \<Rightarrow> 'h buffer_manager option \<Rightarrow> i64 \<Rightarrow> i64 \<Rightarrow> os
   \<Rightarrow> (status \<times> i64 \<times> 'h buffer_manager option \<times> os) res"
where
  "buff_pin L ka va manager out index s =
     (case manager of
        None \<Rightarrow> Inr (STATUS_NO_MANAGER, out, None, s)
      | Some m \<Rightarrow>
          if index = METADATA then Inr (STATUS_META_PAGE, out, Some m, s)
          else if bm_freelist m = 0 then Inr (STATUS_NO_FREE_FRAMES, out, Some m, s)
          else
            let frameidx = get_frame_index_from_meta m (bm_freelist m) in
            if gh_lookup L (bm_lookup m) ka \<noteq> 0
            then Inr (STATUS_OK, frame_ptr m frameidx, Some m, s)
            else case gh_insert L (bm_lookup m) ka va of (inserted, table, freed) \<Rightarrow>
              bind_res (free_ptrs L freed) (\<lambda>_.
                let m1 = m\<lparr>bm_lookup := table\<rparr> in
                if \<not> inserted then Inr (STATUS_ERR, out, Some m1, s)
                else bind_res (nth_frame m1 frameidx) (\<lambda>i.
                  case get_page (bm_bytes m1 ! i) (bm_store m1) index s of (st, page, s1) \<Rightarrow>
                    let m2 = m1\<lparr>bm_bytes := (bm_bytes m1)[i := page]\<rparr> in
                    if st \<noteq> STATUS_OK then Inr (st, out, Some m2, s1)
                    else bind_res (claim_head m2) (\<lambda>m3.
                      bind_res (nth_meta m3 frameidx) (\<lambda>j.
                        Inr (STATUS_OK, frame_ptr m frameidx,
                             Some (upd_meta j (mf_index_update (\<lambda>_. index)) (set_state j FS_PINNED m3)),
                             s1))))))"

section \<open>Unpinning\<close>

text \<open>Removal of the page's binding; \<open>fresh\<close> is the address of the key that \<open>calloc\<close>
  returns.  A key that was found is not freed.\<close>

definition remove_binding :: "'h libs \<Rightarrow> i64 \<Rightarrow> 'h buffer_manager \<Rightarrow> 'h buffer_manager res" where
  "remove_binding L fresh m =
     (case gh_remove L (bm_lookup m) fresh of (removed, table, freed) \<Rightarrow>
        bind_res (free_ptrs L freed) (\<lambda>_.
        bind_res (if \<not> removed then free_ptrs L [fresh] else Inr ()) (\<lambda>_.
          Inr (m\<lparr>bm_lookup := table\<rparr>))))"

definition push_writeback :: "nat \<Rightarrow> 'h buffer_manager \<Rightarrow> 'h buffer_manager" where
  "push_writeback i m =
     (if bm_writeback m \<noteq> 0
      then upd_meta i (mf_next_update (\<lambda>_. bm_writeback m)) (m\<lparr>bm_writeback := meta_ptr m i\<rparr>)
      else upd_meta i (mf_next_update (\<lambda>_. 0)) (m\<lparr>bm_writeback := meta_ptr m i\<rparr>))"

definition push_free :: "nat \<Rightarrow> 'h buffer_manager \<Rightarrow> 'h buffer_manager" where
  "push_free i m =
     (if bm_freelist m \<noteq> 0
      then upd_meta i (mf_next_update (\<lambda>_. bm_freelist m)) (m\<lparr>bm_freelist := meta_ptr m i\<rparr>)
      else upd_meta i (mf_next_update (\<lambda>_. 0)) (m\<lparr>bm_freelist := meta_ptr m i\<rparr>))"

definition buff_unpin ::
  "'h libs \<Rightarrow> i64 \<Rightarrow> 'h buffer_manager option \<Rightarrow> i64 \<Rightarrow> (status \<times> 'h buffer_manager option) res"
where
  "buff_unpin L fresh manager fp =
     (case manager of
        None \<Rightarrow> Inr (STATUS_NO_MANAGER, None)
      | Some m \<Rightarrow>
          bind_res (nth_meta m (get_frame_index_from_frame m fp)) (\<lambda>i.
            if mf_state (bm_metas m ! i) = FS_PINNED_DIRTY
            then bind_res (remove_binding L fresh (set_state i FS_UNPINNED_DIRTY m)) (\<lambda>m1.
              Inr (STATUS_OK, Some (push_writeback i m1)))
            else if mf_state (bm_metas m ! i) = FS_PINNED
            then bind_res (remove_binding L fresh (set_state i FS_UNPINNED m)) (\<lambda>m1.
              Inr (STATUS_OK, Some (push_free i m1)))
            else Inr (STATUS_ERR, Some m)))"

section \<open>Allocating, freeing and marking frames\<close>

text \<open>\<open>page_frame\<close> is the value behind the out-parameter.\<close>

definition buff_alloc_frame ::
  "'h libs \<Rightarrow> i64 \<Rightarrow> i64 \<Rightarrow> 'h buffer_manager option \<Rightarrow> page_frame_pair option \<Rightarrow> os
   \<Rightarrow> (status \<times> page_frame_pair option \<times> 'h buffer_manager option \<times> os) res"
where
  "buff_alloc_frame L ka va manager page_frame s =
     (case manager of
        None \<Rightarrow> Inr (STATUS_NO_MANAGER, page_frame, None, s)
      | Some m \<Rightarrow>
          (case page_frame of
             None \<Rightarrow> Inr (STATUS_ERR, None, Some m, s)
           | Some _ \<Rightarrow>
               (case alloc_page None (bm_store m) s of (pagealloc, page, s1) \<Rightarrow>
                  if pagealloc \<noteq> STATUS_OK then Inr (pagealloc, page_frame, Some m, s1)
                  else bind_res (buff_pin L ka va (Some m) 0 page s1) (\<lambda>(framepin, fp, m1, s2).
                    if framepin \<noteq> STATUS_OK then Inr (framepin, page_frame, m1, s2)
                    else Inr (STATUS_OK, Some (page, fp), m1, s2)))))"

definition buff_free_frame ::
  "'h libs \<Rightarrow> i64 \<Rightarrow> 'h buffer_manager option \<Rightarrow> i64 \<Rightarrow> os
   \<Rightarrow> (status \<times> 'h buffer_manager option \<times> os) res"
where
  "buff_free_frame L fresh manager fp s =
     (case manager of
        None \<Rightarrow> Inr (STATUS_NO_MANAGER, None, s)
      | Some m \<Rightarrow>
          if fp = 0 then Inr (STATUS_ERR, Some m, s)
          else bind_res (nth_meta m (get_frame_index_from_frame m fp)) (\<lambda>i.
            let page = mf_index (bm_metas m ! i) in
            bind_res (buff_unpin L fresh (Some (set_state i FS_PINNED m)) fp) (\<lambda>(st, m1).
              if st \<noteq> STATUS_OK then Inr (st, m1, s)
              else case free_page (bm_store m) page s of (page_free, s1) \<Rightarrow>
                if page_free \<noteq> STATUS_OK then Inr (page_free, m1, s1)
                else Inr (STATUS_OK, m1, s1))))"

definition buff_mark_page ::
  "'h buffer_manager option \<Rightarrow> i64 \<Rightarrow> (status \<times> 'h buffer_manager option) res"
where
  "buff_mark_page manager fp =
     (case manager of
        None \<Rightarrow> Inr (STATUS_NO_MANAGER, None)
      | Some m \<Rightarrow>
          bind_res (nth_meta m (get_frame_index_from_frame m fp)) (\<lambda>i.
            if mf_state (bm_metas m ! i) = FS_PINNED
            then Inr (STATUS_OK, Some (set_state i FS_PINNED_DIRTY m))
            else if mf_state (bm_metas m ! i) = FS_PINNED_DIRTY then Inr (STATUS_OK, Some m)
            else Inr (STATUS_MARK_ERR, Some m)))"

end
