(* ===== verification/ManagerInv.thy ===== *)
theory ManagerInv
  imports BufferManager
begin

text \<open>
  The well-formedness of a buffer manager: its arrays lie where the pointers say, without
  wrapping around the address space, and every pointer it holds is null or points to an
  element of the metadata array.  The lemmas evaluate the address arithmetic and every
  operation on a well-formed manager.
\<close>

section \<open>Layout\<close>

definition layout :: "'h buffer_manager \<Rightarrow> bool" where
  "layout m \<longleftrightarrow>
     length (bm_bytes m) = length (bm_metas m) \<and> bm_metaframes m \<noteq> 0 \<and> bm_buffer m \<noteq> 0 \<and>
     unat (bm_metaframes m) + length (bm_metas m) * SIZEOF_META_FRAME < 2 ^ 64 \<and>
     unat (bm_buffer m) + length (bm_metas m) * PAGESIZE < 2 ^ 64"

definition ptr_ok :: "'h buffer_manager \<Rightarrow> i64 \<Rightarrow> bool" where
  "ptr_ok m p \<longleftrightarrow> p = 0 \<or> (\<exists>i < length (bm_metas m). p = meta_ptr m i)"

definition wf_manager :: "'h buffer_manager \<Rightarrow> bool" where
  "wf_manager m \<longleftrightarrow>
     layout m \<and> ptr_ok m (bm_freelist m) \<and> bm_freelist m \<noteq> 0 \<and> ptr_ok m (bm_writeback m) \<and>
     (\<forall>i < length (bm_metas m). ptr_ok m (mf_next (bm_metas m ! i)))"

lemma unat_add_offset:
  assumes "unat (b :: i64) + k < 2 ^ 64"
  shows "unat (b + word_of_nat k) = unat b + k"
proof -
  have "unat (word_of_nat k :: i64) = k" using assms by (intro unat_word_of_nat64) simp
  then show ?thesis using assms by (simp add: unat_word_ariths)
qed

lemma unat_eq_word: "unat (w :: i64) = i \<Longrightarrow> w = word_of_nat i"
  by (drule arg_cong [of _ _ "word_of_nat :: nat \<Rightarrow> i64"]) simp

lemma layout_meta:
  assumes "layout m" and "i < length (bm_metas m)"
  shows "unat (word_of_nat (i * SIZEOF_META_FRAME) :: i64) = i * SIZEOF_META_FRAME"
    and "unat (meta_ptr m i) = unat (bm_metaframes m) + i * SIZEOF_META_FRAME"
proof -
  have "i * SIZEOF_META_FRAME \<le> length (bm_metas m) * SIZEOF_META_FRAME"
    using assms(2) by (intro mult_le_mono1) simp
  then have b: "unat (bm_metaframes m) + i * SIZEOF_META_FRAME < 2 ^ 64"
    using assms(1) unfolding layout_def by linarith
  then show "unat (word_of_nat (i * SIZEOF_META_FRAME) :: i64) = i * SIZEOF_META_FRAME"
    by (intro unat_word_of_nat64) simp
  show "unat (meta_ptr m i) = unat (bm_metaframes m) + i * SIZEOF_META_FRAME"
    unfolding meta_ptr_def by (rule unat_add_offset) (rule b)
qed

lemma layout_length: "layout m \<Longrightarrow> length (bm_metas m) < 2 ^ 52"
  by (simp add: layout_def PAGESIZE_def)

lemma meta_ptr_nonzero:
  assumes "layout m" and "i < length (bm_metas m)"
  shows "meta_ptr m i \<noteq> 0"
proof
  assume "meta_ptr m i = 0"
  then have "unat (bm_metaframes m) = 0" using layout_meta(2) [OF assms] by simp
  then show False using assms(1) by (simp add: layout_def unat_eq_0)
qed

lemma deref_meta_ptr:
  assumes "layout m" and "i < length (bm_metas m)"
  shows "deref_meta m (meta_ptr m i) = Inr i"
  using assms meta_ptr_nonzero [OF assms] layout_meta(1) [OF assms]
  by (simp add: deref_meta_def meta_ptr_def SIZEOF_META_FRAME_def)

lemma deref_meta_0 [simp]: "deref_meta m 0 = Inl NullDeref"
  by (simp add: deref_meta_def)

lemma index_from_meta:
  assumes "layout m" and "i < length (bm_metas m)"
  shows "get_frame_index_from_meta m (meta_ptr m i) = word_of_nat i"
proof -
  have "unat (word_of_nat (i * SIZEOF_META_FRAME) div word_of_nat SIZEOF_META_FRAME :: i64) = i"
    using layout_meta(1) [OF assms] by (simp add: unat_div SIZEOF_META_FRAME_def)
  then show ?thesis
    by (simp add: get_frame_index_from_meta_def meta_ptr_def unat_eq_word)
qed

lemma index_from_frame:
  assumes "layout m" and "i < length (bm_metas m)" and "k < PAGESIZE"
  shows "get_frame_index_from_frame m (frame_ptr m (word_of_nat i) + word_of_nat k) = word_of_nat i"
proof -
  have "i * PAGESIZE + k < Suc i * PAGESIZE" using assms(3) by simp
  also have "\<dots> \<le> length (bm_metas m) * PAGESIZE" using assms(2) by (intro mult_le_mono1) simp
  finally have "i * PAGESIZE + k < 2 ^ 64" using assms(1) by (simp add: layout_def)
  then have u: "unat (word_of_nat (i * PAGESIZE + k) :: i64) = i * PAGESIZE + k"
    by (rule unat_word_of_nat64)
  have "unat (word_of_nat (i * PAGESIZE + k) div word_of_nat PAGESIZE :: i64) = i"
    using u assms(3) by (simp add: unat_div PAGESIZE_def)
  moreover have "frame_ptr m (word_of_nat i) + word_of_nat k - bm_buffer m = word_of_nat (i * PAGESIZE + k)"
    by (simp add: frame_ptr_def)
  ultimately show ?thesis
    unfolding get_frame_index_from_frame_def by (intro unat_eq_word) (simp only:)
qed

lemma array_index_ok: "i < n \<Longrightarrow> n < 2 ^ 52 \<Longrightarrow> array_index n (word_of_nat i) = Inr i"
  by (simp add: array_index_def sint_word_of_nat)

lemma array_index_less: "array_index n w = Inr i \<Longrightarrow> i < n"
  by (auto simp: array_index_def split: if_splits)

lemma nth_meta_ok: "layout m \<Longrightarrow> i < length (bm_metas m) \<Longrightarrow> nth_meta m (word_of_nat i) = Inr i"
  using layout_length [of m] by (simp add: nth_meta_def array_index_ok)

lemma nth_frame_ok: "layout m \<Longrightarrow> i < length (bm_metas m) \<Longrightarrow> nth_frame m (word_of_nat i) = Inr i"
  using layout_length [of m] by (simp add: nth_frame_def array_index_ok layout_def)

lemma nth_meta_frame_ptr:
  assumes "layout m" and "i < length (bm_metas m)"
  shows "nth_meta m (get_frame_index_from_frame m (frame_ptr m (word_of_nat i))) = Inr i"
  using index_from_frame [OF assms, of 0] nth_meta_ok [OF assms] by simp

section \<open>Updates\<close>

lemma nth_upd: "j < length xs \<Longrightarrow> xs[i := x] ! j = (if i = j then x else xs ! j)"
  by (cases "i = j") auto

text \<open>Two states of one manager: the arrays have not moved.\<close>

definition same_arrays :: "'h buffer_manager \<Rightarrow> 'h buffer_manager \<Rightarrow> bool" where
  "same_arrays m m' \<longleftrightarrow>
     bm_buffer m' = bm_buffer m \<and> bm_metaframes m' = bm_metaframes m \<and>
     length (bm_metas m') = length (bm_metas m) \<and> length (bm_bytes m') = length (bm_bytes m)"

lemma same_arrays_eqs:
  assumes "same_arrays m m'"
  shows "layout m' = layout m" "meta_ptr m' i = meta_ptr m i" "frame_ptr m' w = frame_ptr m w"
    "ptr_ok m' p = ptr_ok m p" "nth_meta m' w = nth_meta m w" "nth_frame m' w = nth_frame m w"
    "deref_meta m' p = deref_meta m p" "get_frame_index_from_meta m' p = get_frame_index_from_meta m p"
    "get_frame_index_from_frame m' p = get_frame_index_from_frame m p"
    "length (bm_metas m') = length (bm_metas m)"
  using assms
  by (simp_all add: same_arrays_def layout_def meta_ptr_def frame_ptr_def ptr_ok_def nth_meta_def
      nth_frame_def deref_meta_def get_frame_index_from_meta_def get_frame_index_from_frame_def)

lemma upd_meta_simps [simp]:
  "bm_store (upd_meta i f m) = bm_store m" "bm_bytes (upd_meta i f m) = bm_bytes m"
  "bm_buffer (upd_meta i f m) = bm_buffer m" "bm_metaframes (upd_meta i f m) = bm_metaframes m"
  "bm_freelist (upd_meta i f m) = bm_freelist m" "bm_writeback (upd_meta i f m) = bm_writeback m"
  "bm_lookup (upd_meta i f m) = bm_lookup m" "bm_frames (upd_meta i f m) = bm_frames m"
  "bm_metas (upd_meta i f m) = (bm_metas m)[i := f (bm_metas m ! i)]"
  by (simp_all add: upd_meta_def)

lemma set_state_simps [simp]:
  "bm_store (set_state i st m) = bm_store m" "bm_bytes (set_state i st m) = bm_bytes m"
  "bm_buffer (set_state i st m) = bm_buffer m" "bm_metaframes (set_state i st m) = bm_metaframes m"
  "bm_freelist (set_state i st m) = bm_freelist m" "bm_writeback (set_state i st m) = bm_writeback m"
  "bm_lookup (set_state i st m) = bm_lookup m" "bm_frames (set_state i st m) = bm_frames m"
  "bm_metas (set_state i st m) = (bm_metas m)[i := (bm_metas m ! i)\<lparr>mf_state := st\<rparr>]"
  by (simp_all add: set_state_def)

lemma same_arrays_set_state [simp]: "same_arrays m (set_state i st m')  = same_arrays m m'"
  by (simp add: same_arrays_def)

lemma same_arrays_trans: "same_arrays a b \<Longrightarrow> same_arrays b c \<Longrightarrow> same_arrays a c"
  by (simp add: same_arrays_def)

lemma same_arrays_refl [simp]: "same_arrays m m"
  by (simp add: same_arrays_def)

text \<open>What the operations need of a state to keep it well-formed.\<close>

lemma wf_managerI:
  assumes "wf_manager m" and "same_arrays m m'"
    and "ptr_ok m (bm_freelist m')" and "bm_freelist m' \<noteq> 0" and "ptr_ok m (bm_writeback m')"
    and "\<And>i. i < length (bm_metas m) \<Longrightarrow> ptr_ok m (mf_next (bm_metas m' ! i))"
  shows "wf_manager m'"
  using assms by (simp add: wf_manager_def same_arrays_eqs [OF assms(2)])

lemma wf_managerD:
  assumes "wf_manager m"
  shows "layout m" "ptr_ok m (bm_freelist m)" "bm_freelist m \<noteq> 0" "ptr_ok m (bm_writeback m)"
    "i < length (bm_metas m) \<Longrightarrow> ptr_ok m (mf_next (bm_metas m ! i))"
  using assms by (simp_all add: wf_manager_def)

lemma ptr_ok_0 [simp]: "ptr_ok m 0"
  by (simp add: ptr_ok_def)

lemma ptr_ok_meta [intro]: "i < length (bm_metas m) \<Longrightarrow> ptr_ok m (meta_ptr m i)"
  by (auto simp: ptr_ok_def)

lemma wf_set_state: "wf_manager m \<Longrightarrow> wf_manager (set_state i st m)"
  by (rule wf_managerI) (auto simp: wf_manager_def nth_upd)

section \<open>The operations keep a manager well-formed\<close>

definition pinned :: "nat \<Rightarrow> nat \<Rightarrow> i64 \<Rightarrow> 'h buffer_manager \<Rightarrow> 'h buffer_manager" where
  "pinned i j index m = m\<lparr>bm_metas := (bm_metas m)[i :=
     (bm_metas m ! j)\<lparr>mf_state := FS_PINNED, mf_index := index\<rparr>]\<rparr>"

definition loaded :: "'h \<Rightarrow> nat \<Rightarrow> mem \<Rightarrow> 'h buffer_manager \<Rightarrow> 'h buffer_manager" where
  "loaded t i page m = m\<lparr>bm_lookup := t, bm_bytes := (bm_bytes m)[i := page]\<rparr>"

lemma loaded_simps [simp]:
  "bm_metas (loaded t i page m) = bm_metas m" "bm_bytes (loaded t i page m) = (bm_bytes m)[i := page]"
  "bm_freelist (loaded t i page m) = bm_freelist m" "bm_writeback (loaded t i page m) = bm_writeback m"
  "bm_store (loaded t i page m) = bm_store m" "bm_lookup (loaded t i page m) = t"
  by (simp_all add: loaded_def)

lemma pinned_simps [simp]:
  "bm_metas (pinned i j index m) = (bm_metas m)[i := (bm_metas m ! j)\<lparr>mf_state := FS_PINNED, mf_index := index\<rparr>]"
  "bm_bytes (pinned i j index m) = bm_bytes m" "bm_freelist (pinned i j index m) = bm_freelist m"
  "bm_writeback (pinned i j index m) = bm_writeback m" "bm_store (pinned i j index m) = bm_store m"
  "bm_lookup (pinned i j index m) = bm_lookup m"
  by (simp_all add: pinned_def)

lemma same_arrays_pinned: "same_arrays m (pinned i j index m)" "same_arrays m (loaded t i page m)"
  by (simp_all add: same_arrays_def pinned_def loaded_def)

lemma wf_loaded: "wf_manager m \<Longrightarrow> wf_manager (loaded t i page m)"
  by (rule wf_managerI [OF _ same_arrays_pinned(2)]) (auto simp: wf_manager_def loaded_def)

lemma wf_pinned: "wf_manager m \<Longrightarrow> j < length (bm_metas m) \<Longrightarrow> wf_manager (pinned i j index m)"
  by (rule wf_managerI [OF _ same_arrays_pinned(1)])
     (auto simp: wf_manager_def pinned_def nth_upd)

text \<open>A pin that finds no binding: it loads the page into the head of the free list, then
  overwrites that head's metadata with that of the second free frame.\<close>

lemma buff_pin_miss:
  assumes wf: "wf_manager m" and i: "i < length (bm_metas m)" "bm_freelist m = meta_ptr m i"
    and "index \<noteq> METADATA" and "gh_lookup L (bm_lookup m) ka = 0"
    and "gh_insert L (bm_lookup m) ka va = (True, t, [])"
    and g: "get_page (bm_bytes m ! i) (bm_store m) index s = (st, page, s1)"
  shows "buff_pin L ka va (Some m) out index s =
     (if st \<noteq> STATUS_OK then Inr (st, out, Some (loaded t i page m), s1)
      else bind_res (deref_meta m (mf_next (bm_metas m ! i))) (\<lambda>j.
        Inr (STATUS_OK, frame_ptr m (word_of_nat i), Some (pinned i j index (loaded t i page m)), s1)))"
proof -
  note l = wf_managerD(1) [OF wf]
  have a: "same_arrays m (m\<lparr>bm_lookup := t\<rparr>)"
    "same_arrays m (m\<lparr>bm_lookup := t, bm_bytes := (bm_bytes m)[i := page]\<rparr>)"
    "same_arrays m (m\<lparr>bm_lookup := t, bm_bytes := (bm_bytes m)[i := page], bm_metas := (bm_metas m)[i := x]\<rparr>)" for x
    by (simp_all add: same_arrays_def)
  show ?thesis
    using assms(4-6) g i index_from_meta [OF l i(1)] nth_frame_ok [OF l i(1)] nth_meta_ok [OF l i(1)]
      deref_meta_ptr [OF l i(1)] meta_ptr_nonzero [OF l i(1)]
    by (simp add: buff_pin_def Let_def free_ptrs_def same_arrays_eqs [OF a(1)] same_arrays_eqs [OF a(2)]
        same_arrays_eqs [OF a(3)] claim_head_def bind_res_def loaded_def pinned_def set_state_def
        upd_meta_def split: sum.split)
qed

lemma deref_meta_less: "deref_meta m p = Inr j \<Longrightarrow> j < length (bm_metas m)"
  by (auto simp: deref_meta_def Let_def split: if_splits)

lemma same_arrays_lookup [simp]: "same_arrays m (m'\<lparr>bm_lookup := t\<rparr>) = same_arrays m m'"
  by (simp add: same_arrays_def)

lemma wf_lookup [simp]: "wf_manager (m\<lparr>bm_lookup := t\<rparr>) = wf_manager m"
  by (simp add: wf_manager_def layout_def ptr_ok_def meta_ptr_def)

lemma same_arrays_push [simp]: "same_arrays m (push_free i m')  = same_arrays m m'"
  "same_arrays m (push_writeback i m')  = same_arrays m m'"
  by (simp_all add: same_arrays_def push_free_def push_writeback_def)

lemma push_simps [simp]:
  "bm_freelist (push_free i m) = meta_ptr m i" "bm_writeback (push_free i m) = bm_writeback m"
  "bm_writeback (push_writeback i m) = meta_ptr m i" "bm_freelist (push_writeback i m) = bm_freelist m"
  "bm_bytes (push_free i m) = bm_bytes m" "bm_bytes (push_writeback i m) = bm_bytes m"
  "bm_store (push_free i m) = bm_store m" "bm_store (push_writeback i m) = bm_store m"
  "bm_lookup (push_free i m) = bm_lookup m" "bm_lookup (push_writeback i m) = bm_lookup m"
  "bm_metas (push_free i m) = (bm_metas m)[i := (bm_metas m ! i)\<lparr>mf_next := bm_freelist m\<rparr>]"
  "bm_metas (push_writeback i m) = (bm_metas m)[i := (bm_metas m ! i)\<lparr>mf_next := bm_writeback m\<rparr>]"
  by (simp_all add: push_free_def push_writeback_def)

lemma wf_push:
  assumes wf: "wf_manager m" and i: "i < length (bm_metas m)"
  shows "wf_manager (push_free i m)" and "wf_manager (push_writeback i m)"
proof -
  have nz: "meta_ptr m i \<noteq> 0" by (rule meta_ptr_nonzero) (use wf_managerD(1) [OF wf] i in auto)
  show "wf_manager (push_free i m)"
    by (rule wf_managerI [OF wf]) (use wf_managerD [OF wf] i nz in \<open>auto simp: nth_upd\<close>)
  show "wf_manager (push_writeback i m)"
    by (rule wf_managerI [OF wf]) (use wf_managerD [OF wf] i nz in \<open>auto simp: nth_upd\<close>)
qed

text \<open>The states a pin may leave: the free list keeps its head, and the arrays change at
  most in the frame of that head.\<close>

definition pin_effect :: "nat \<Rightarrow> i64 \<Rightarrow> 'h buffer_manager \<Rightarrow> 'h buffer_manager \<Rightarrow> bool" where
  "pin_effect i index m m' \<longleftrightarrow>
     (\<exists>t page j. (m' = m \<or> m' = m\<lparr>bm_lookup := t\<rparr> \<or> m' = loaded t i page m \<or>
       (j < length (bm_metas m) \<and> m' = pinned i j index (loaded t i page m))))"

lemma buff_pin_effect:
  assumes wf: "wf_manager m" and i: "i < length (bm_metas m)" "bm_freelist m = meta_ptr m i"
    and r: "buff_pin L ka va (Some m) out index s = Inr (st, fp, m', s')"
  shows "\<exists>m1. m' = Some m1 \<and> pin_effect i index m m1
     \<and> (if st = STATUS_OK then fp = frame_ptr m (word_of_nat i) else fp = out)
     \<and> st \<noteq> STATUS_NO_FREE_FRAMES"
proof -
  note l = wf_managerD(1) [OF wf]
  obtain ins t freed where gi: "gh_insert L (bm_lookup m) ka va = (ins, t, freed)"
    by (cases "gh_insert L (bm_lookup m) ka va")
  obtain gst page s1 where g: "get_page (bm_bytes m ! i) (bm_store m) index s = (gst, page, s1)"
    by (cases "get_page (bm_bytes m ! i) (bm_store m) index s")
  have no: "gst \<noteq> STATUS_NO_FREE_FRAMES"
    using g by (auto simp: get_page_def Let_def split: option.splits prod.splits if_splits)
  have f: "get_frame_index_from_meta m (meta_ptr m i) = word_of_nat i"
    by (rule index_from_meta) (use l i in auto)
  consider "index = METADATA" | "gh_lookup L (bm_lookup m) ka \<noteq> 0" "index \<noteq> METADATA"
    | "gh_lookup L (bm_lookup m) ka = 0" "index \<noteq> METADATA" "\<not> ins"
    | "gh_lookup L (bm_lookup m) ka = 0" "index \<noteq> METADATA" "ins" by blast
  then show ?thesis
  proof cases
    case 4
    have fr: "free_ptrs L freed = Inr ()"
      using r 4 gi i wf_managerD(3) [OF wf]
      by (auto simp: buff_pin_def Let_def bind_res_eq_Inr)
    have a: "same_arrays m (m\<lparr>bm_lookup := t\<rparr>)" by simp
    have e: "buff_pin L ka va (Some m) out index s = buff_pin (L\<lparr>gh_insert := \<lambda>_ _ _. (True, t, [])\<rparr>) ka va (Some m) out index s"
      using 4 gi fr by (simp add: buff_pin_def Let_def free_ptrs_def)
    show ?thesis
      using r unfolding e
      by (subst (asm) buff_pin_miss [OF wf i 4(2) _ _ g])
         (use 4 no in \<open>auto simp: bind_res_eq_Inr pin_effect_def split: if_splits dest!: deref_meta_less\<close>)
  qed (use r gi f i meta_ptr_nonzero [OF l i(1)] in \<open>auto simp: buff_pin_def Let_def bind_res_eq_Inr pin_effect_def split: if_splits\<close>)
qed

text \<open>A pin that returns has its status and files either from its own guards or from \<open>get_page\<close>.\<close>

lemma buff_pin_returns:
  assumes r: "buff_pin L ka va man out index s = Inr (st, fp, man', s')"
  obtains "s' = s" "st \<in> {STATUS_NO_MANAGER, STATUS_META_PAGE, STATUS_NO_FREE_FRAMES, STATUS_OK, STATUS_ERR}"
  | d store page where "get_page d store index s = (st, page, s')"
proof (cases man)
  case None
  then show ?thesis using r by (auto simp: buff_pin_def intro: that(1))
next
  case (Some m)
  obtain ins t freed where gi: "gh_insert L (bm_lookup m) ka va = (ins, t, freed)"
    by (cases "gh_insert L (bm_lookup m) ka va")
  show ?thesis
  proof (cases "index = METADATA \<or> bm_freelist m = 0 \<or> gh_lookup L (bm_lookup m) ka \<noteq> 0 \<or> \<not> ins")
    case True
    then show ?thesis
      using r Some gi by (auto simp: buff_pin_def Let_def bind_res_eq_Inr split: if_splits intro: that(1))
  next
    case False
    let ?m1 = "m\<lparr>bm_lookup := t\<rparr>" and ?f = "get_frame_index_from_meta m (bm_freelist m)"
    obtain i where i: "free_ptrs L freed = Inr ()" "nth_frame ?m1 ?f = Inr i"
      using r Some gi False by (auto simp: buff_pin_def Let_def bind_res_eq_Inr)
    obtain gst page s1 where g: "get_page (bm_bytes ?m1 ! i) (bm_store ?m1) index s = (gst, page, s1)"
      by (cases "get_page (bm_bytes ?m1 ! i) (bm_store ?m1) index s")
    have "st = gst \<and> s' = s1"
      using r Some gi False i g by (auto simp: buff_pin_def Let_def bind_res_eq_Inr split: if_splits)
    then show ?thesis using g by (auto intro: that(2))
  qed
qed

lemma pin_effect_wf: "wf_manager m \<Longrightarrow> pin_effect i index m m' \<Longrightarrow> wf_manager m'"
  by (auto simp: pin_effect_def wf_loaded intro!: wf_pinned)

lemma pin_effect_frame:
  assumes "pin_effect i index m m'"
  shows "same_arrays m m'" "bm_freelist m' = bm_freelist m" "bm_writeback m' = bm_writeback m"
    "bm_store m' = bm_store m"
    "j \<noteq> i \<Longrightarrow> bm_bytes m' ! j = bm_bytes m ! j" "j \<noteq> i \<Longrightarrow> bm_metas m' ! j = bm_metas m ! j"
  using assms by (auto simp: pin_effect_def loaded_def pinned_def same_arrays_def)

lemma remove_binding_lookup:
  "remove_binding L fresh m = Inr m' \<Longrightarrow> \<exists>t. m' = m\<lparr>bm_lookup := t\<rparr>"
  by (auto simp: remove_binding_def bind_res_eq_Inr split: prod.splits)

lemma buff_unpin_effect:
  assumes n: "nth_meta m (get_frame_index_from_frame m fp) = Inr i"
    and r: "buff_unpin L fresh (Some m) fp = Inr (st, m')"
  obtains t where "mf_state (bm_metas m ! i) = FS_PINNED_DIRTY" "st = STATUS_OK"
      "m' = Some (push_writeback i ((set_state i FS_UNPINNED_DIRTY m)\<lparr>bm_lookup := t\<rparr>))"
  | t where "mf_state (bm_metas m ! i) = FS_PINNED" "st = STATUS_OK"
      "m' = Some (push_free i ((set_state i FS_UNPINNED m)\<lparr>bm_lookup := t\<rparr>))"
  | "mf_state (bm_metas m ! i) \<in> {FS_UNPINNED, FS_UNPINNED_DIRTY}" "st = STATUS_ERR" "m' = Some m"
  using r n by (cases "mf_state (bm_metas m ! i)")
    (auto simp: buff_unpin_def bind_res_eq_Inr dest!: remove_binding_lookup)

lemma nth_meta_less: "nth_meta m w = Inr i \<Longrightarrow> i < length (bm_metas m)"
  by (auto simp: nth_meta_def dest: array_index_less)

lemma wf_unpin:
  assumes wf: "wf_manager m" and r: "buff_unpin L fresh (Some m) fp = Inr (st, m')"
  shows "\<exists>m1. m' = Some m1 \<and> wf_manager m1 \<and> same_arrays m m1 \<and> bm_bytes m1 = bm_bytes m \<and> bm_store m1 = bm_store m
    \<and> (\<exists>i. nth_meta m (get_frame_index_from_frame m fp) = Inr i \<and> bm_freelist m1 \<in> {bm_freelist m, meta_ptr m i}
          \<and> (\<forall>j. j \<noteq> i \<longrightarrow> bm_metas m1 ! j = bm_metas m ! j))"
proof -
  obtain i where n: "nth_meta m (get_frame_index_from_frame m fp) = Inr i"
    using r by (auto simp: buff_unpin_def bind_res_eq_Inr)
  have i: "i < length (bm_metas m)" by (rule nth_meta_less) (rule n)
  have w: "wf_manager ((set_state i st m)\<lparr>bm_lookup := t\<rparr>)" for st t
    using wf_set_state [OF wf] by simp
  have a: "same_arrays m ((set_state i st m)\<lparr>bm_lookup := t\<rparr>)" for st t
    by (simp add: same_arrays_def)
  from n r show ?thesis
    by (cases rule: buff_unpin_effect)
       (use wf n i w a in \<open>auto intro!: wf_push simp: same_arrays_eqs [OF a]\<close>)
qed

lemma wf_mark:
  assumes wf: "wf_manager m" and r: "buff_mark_page (Some m) fp = Inr (st, m')"
  shows "\<exists>m1. m' = Some m1 \<and> wf_manager m1 \<and> same_arrays m m1 \<and> bm_bytes m1 = bm_bytes m \<and> bm_store m1 = bm_store m
    \<and> bm_freelist m1 = bm_freelist m \<and> bm_writeback m1 = bm_writeback m
    \<and> (\<exists>i. nth_meta m (get_frame_index_from_frame m fp) = Inr i
          \<and> (\<forall>j. j \<noteq> i \<longrightarrow> bm_metas m1 ! j = bm_metas m ! j))"
  using r wf wf_set_state [OF wf] by (auto simp: buff_mark_page_def bind_res_eq_Inr split: if_splits)

text \<open>Flushing changes nothing of the manager but states, to \<open>FS_UNPINNED\<close>.\<close>

definition states_flushed :: "'h buffer_manager \<Rightarrow> 'h buffer_manager \<Rightarrow> bool" where
  "states_flushed m m' \<longleftrightarrow> (\<exists>ms. m' = m\<lparr>bm_metas := ms\<rparr> \<and> length ms = length (bm_metas m)
     \<and> (\<forall>i < length ms. ms ! i = bm_metas m ! i \<or> ms ! i = (bm_metas m ! i)\<lparr>mf_state := FS_UNPINNED\<rparr>))"

lemma states_flushed_refl: "states_flushed m m"
  by (auto simp: states_flushed_def intro: exI [of _ "bm_metas m"])

lemma states_flushed_set:
  assumes "states_flushed (set_state i FS_UNPINNED m) m'"
  shows "states_flushed m m'"
proof -
  obtain ms where ms: "m' = m\<lparr>bm_metas := ms\<rparr>" "length ms = length (bm_metas m)"
    and e: "\<And>j. j < length ms \<Longrightarrow> ms ! j = bm_metas (set_state i FS_UNPINNED m) ! j
      \<or> ms ! j = (bm_metas (set_state i FS_UNPINNED m) ! j)\<lparr>mf_state := FS_UNPINNED\<rparr>"
    using assms by (auto simp: states_flushed_def set_state_def upd_meta_def)
  have "ms ! j = bm_metas m ! j \<or> ms ! j = (bm_metas m ! j)\<lparr>mf_state := FS_UNPINNED\<rparr>"
    if "j < length ms" for j
    using e [OF that] that ms(2) by (cases "i = j") auto
  with ms show ?thesis unfolding states_flushed_def by blast
qed

lemma flush_loop_step:
  assumes "p \<noteq> 0" and "deref_meta m p = Inr i" and "nth_frame m (get_frame_index_from_meta m p) = Inr j"
    and "put_page (bm_bytes m ! j) (bm_store m) (mf_index (bm_metas m ! i)) s = (st, s1)"
  shows "flush_loop (Suc k) p m s = flush_loop k (mf_next (bm_metas m ! i))
     (if st = STATUS_OK then set_state i FS_UNPINNED m else m) s1"
  using assms deref_meta_less [OF assms(2)] by (simp add: Let_def)

lemma flush_loop_keeps: "flush_loop k p m s = Inr (m', s') \<Longrightarrow> states_flushed m m'"
proof (induction k arbitrary: p m s)
  case (Suc k)
  show ?case
  proof (cases "p = 0")
    case True
    then show ?thesis using Suc.prems by (simp add: states_flushed_refl)
  next
    case False
    then obtain i j where ij: "deref_meta m p = Inr i" "nth_frame m (get_frame_index_from_meta m p) = Inr j"
      using Suc.prems by (auto simp: bind_res_eq_Inr)
    obtain st s1 where "put_page (bm_bytes m ! j) (bm_store m) (mf_index (bm_metas m ! i)) s = (st, s1)"
      by fastforce
    from flush_loop_step [OF False ij this, of k] Suc.prems
    have "states_flushed (if st = STATUS_OK then set_state i FS_UNPINNED m else m) m'"
      by (intro Suc.IH) simp
    then show ?thesis by (auto split: if_splits dest: states_flushed_set)
  qed
qed simp

lemma states_flushed_frame:
  assumes "states_flushed m m'"
  shows "same_arrays m m'" "bm_freelist m' = bm_freelist m" "bm_writeback m' = bm_writeback m"
    "bm_store m' = bm_store m" "bm_bytes m' = bm_bytes m" "bm_lookup m' = bm_lookup m"
    "i < length (bm_metas m) \<Longrightarrow> mf_next (bm_metas m' ! i) = mf_next (bm_metas m ! i)"
    "i < length (bm_metas m) \<Longrightarrow> mf_index (bm_metas m' ! i) = mf_index (bm_metas m ! i)"
    "i < length (bm_metas m) \<Longrightarrow>
       mf_state (bm_metas m' ! i) = mf_state (bm_metas m ! i) \<or> mf_state (bm_metas m' ! i) = FS_UNPINNED"
  using assms by (auto simp: states_flushed_def same_arrays_def)

lemma states_flushed_wf: "wf_manager m \<Longrightarrow> states_flushed m m' \<Longrightarrow> wf_manager m'"
  by (rule wf_managerI) (auto simp: states_flushed_frame wf_manager_def)

end
