(* ===== verification/GlibTable.thy ===== *)
theory GlibTable
  imports ManagerInv "HOL-Library.AList"
begin

text \<open>
  What \<open>buffer_manager.c\<close> relies on of a \<open>GHashTable\<close> that compares key pointers and has
  \<open>free\<close> as both destroy functions, as GLib documents it, and an instance that keeps the
  bindings in an association list.  \<open>bindings\<close> reads a table as a finite map.
\<close>

locale glib_table =
  fixes L :: "'h libs" and bindings :: "'h \<Rightarrow> i64 \<Rightarrow> i64 option"
  assumes new_table: "bindings (gh_new L) = (\<lambda>_. None)"
    and lookup_table: "gh_lookup L t k = (case bindings t k of None \<Rightarrow> 0 | Some v \<Rightarrow> v)"
    and insert_absent: "bindings t k = None \<Longrightarrow>
      \<exists>t'. gh_insert L t k v = (True, t', []) \<and> bindings t' = (bindings t)(k \<mapsto> v)"
    and insert_present: "bindings t k = Some v0 \<Longrightarrow>
      \<exists>t'. gh_insert L t k v = (False, t', [k, v0]) \<and> bindings t' = (bindings t)(k \<mapsto> v)"
    and remove_absent: "bindings t k = None \<Longrightarrow>
      \<exists>t'. gh_remove L t k = (False, t', []) \<and> bindings t' = bindings t"
    and remove_present: "bindings t k = Some v \<Longrightarrow>
      \<exists>t'. gh_remove L t k = (True, t', [k, v]) \<and> bindings t' = (bindings t)(k := None)"
    and destroy_all: "set (gh_destroy L t) = dom (bindings t) \<union> ran (bindings t)"
begin

text \<open>A key that \<open>calloc\<close> returned is not in a table whose keys are not heap addresses.\<close>

lemma remove_fresh:
  assumes "bindings (bm_lookup m) fresh = None" and "malloced L fresh"
  obtains t where "remove_binding L fresh m = Inr (m\<lparr>bm_lookup := t\<rparr>)" "bindings t = bindings (bm_lookup m)"
  using remove_absent [OF assms(1)] assms(2)
  by (auto simp: remove_binding_def free_ptrs_def)

text \<open>Destroying a table frees its keys: undefined when one of them is not from the heap.\<close>

lemma destroy_bad_key:
  assumes "bindings t k \<noteq> None" and "k \<noteq> 0" and "\<not> malloced L k"
  shows "free_ptrs L (gh_destroy L t) = Inl BadFree"
proof -
  have "k \<in> set (gh_destroy L t)" using assms(1) by (auto simp: destroy_all)
  then show ?thesis using assms(2,3) by (auto simp: free_ptrs_def list_all_iff)
qed

lemma destroy_empty: "bindings t = (\<lambda>_. None) \<Longrightarrow> free_ptrs L (gh_destroy L t) = Inr ()"
  using destroy_all [of t] by (simp add: free_ptrs_def)

lemma lookup_absent: "bindings t k = None \<Longrightarrow> gh_lookup L t k = 0"
  by (simp add: lookup_table)

lemma lookup_present: "bindings t k = Some v \<Longrightarrow> gh_lookup L t k = v"
  by (simp add: lookup_table)

end

section \<open>Association lists\<close>

definition alist_libs :: "i64 list \<Rightarrow> (i64 \<times> i64) list libs" where
  "alist_libs heap = \<lparr>
     gh_new = [],
     gh_lookup = (\<lambda>t k. case map_of t k of None \<Rightarrow> 0 | Some v \<Rightarrow> v),
     gh_insert = (\<lambda>t k v. case map_of t k of
       None \<Rightarrow> (True, (k, v) # t, []) | Some v0 \<Rightarrow> (False, (k, v) # t, [k, v0])),
     gh_remove = (\<lambda>t k. case map_of t k of
       None \<Rightarrow> (False, t, []) | Some v \<Rightarrow> (True, AList.delete k t, [k, v])),
     gh_destroy = (\<lambda>t. concat (map (\<lambda>(k, v). [k, v]) (AList.clearjunk t))),
     malloced = (\<lambda>p. p \<in> set heap)\<rparr>"

interpretation alist: glib_table "alist_libs heap" map_of
  for heap :: "i64 list"
proof
  fix t :: "(i64 \<times> i64) list"
  have d: "distinct (map fst (AList.clearjunk t))" by (rule distinct_clearjunk)
  have "set (gh_destroy (alist_libs heap) t)
      = dom (map_of (AList.clearjunk t)) \<union> ran (map_of (AList.clearjunk t))"
    using d by (auto simp: alist_libs_def dom_map_of_conv_image_fst ran_distinct image_iff) force+
  then show "set (gh_destroy (alist_libs heap) t) = dom (map_of t) \<union> ran (map_of t)"
    by (simp add: map_of_clearjunk)
next
  fix t :: "(i64 \<times> i64) list" and k v
  show "map_of t k = Some v \<Longrightarrow>
      \<exists>t'. gh_remove (alist_libs heap) t k = (True, t', [k, v]) \<and> map_of t' = (map_of t)(k := None)"
    by (simp add: alist_libs_def delete_conv')
qed (auto simp: alist_libs_def split: option.split)

end
