(* ===== verification/ManagerSession.thy ===== *)
theory ManagerSession
  imports GlibTable
begin

text \<open>
  What a client can reach from a manager: \<open>session L m0 m held\<close> says that the manager
  \<open>m0\<close> gets to \<open>m\<close> by calls that return, the client using only frame pointers \<open>held\<close>
  that the manager gave it.  Files may change in any way between and during the calls, so
  the operating-system states of the steps are arbitrary, and so is the hash table.
\<close>

inductive session :: "'h libs \<Rightarrow> 'h buffer_manager \<Rightarrow> 'h buffer_manager \<Rightarrow> i64 set \<Rightarrow> bool"
  for L :: "'h libs" and m0 :: "'h buffer_manager" where
  start: "session L m0 m0 {}"
| pin: "session L m0 m held \<Longrightarrow> buff_pin L ka va (Some m) out index s = Inr (st, fp, Some m', s')
    \<Longrightarrow> session L m0 m' (if st = STATUS_OK then insert fp held else held)"
| alloc: "session L m0 m held \<Longrightarrow>
    buff_alloc_frame L ka va (Some m) pf s = Inr (st, Some (page, fp), Some m', s')
    \<Longrightarrow> session L m0 m' (if st = STATUS_OK then insert fp held else held)"
| unpin: "session L m0 m held \<Longrightarrow> fp \<in> held \<Longrightarrow> buff_unpin L fresh (Some m) fp = Inr (st, Some m')
    \<Longrightarrow> session L m0 m' held"
| mark: "session L m0 m held \<Longrightarrow> fp \<in> held \<Longrightarrow> buff_mark_page (Some m) fp = Inr (st, Some m')
    \<Longrightarrow> session L m0 m' held"
| flush: "session L m0 m held \<Longrightarrow> buff_flush_all fuel (Some m) s = Inr (st, Some m', s')
    \<Longrightarrow> session L m0 m' held"
| free: "session L m0 m held \<Longrightarrow> fp \<in> held \<Longrightarrow>
    buff_free_frame L fresh (Some m) fp s = Inr (st, Some m', s') \<Longrightarrow> session L m0 m' held"

text \<open>The invariant: all is confined to the frame \<open>i\<close> at the head of the free list.\<close>

definition confined :: "nat \<Rightarrow> 'h buffer_manager \<Rightarrow> 'h buffer_manager \<Rightarrow> i64 set \<Rightarrow> bool" where
  "confined i m0 m held \<longleftrightarrow>
     wf_manager m \<and> same_arrays m0 m \<and> bm_freelist m = meta_ptr m0 i \<and> i < length (bm_metas m0) \<and>
     held \<subseteq> {frame_ptr m0 (word_of_nat i)} \<and>
     (\<forall>j. j \<noteq> i \<longrightarrow> bm_bytes m ! j = bm_bytes m0 ! j)"

lemma confined_start:
  "wf_manager m0 \<Longrightarrow> i < length (bm_metas m0) \<Longrightarrow> bm_freelist m0 = meta_ptr m0 i \<Longrightarrow> confined i m0 m0 {}"
  by (simp add: confined_def)

lemma confined_held: "confined i m0 m held \<Longrightarrow> fp \<in> held \<Longrightarrow> fp = frame_ptr m (word_of_nat i)"
  by (auto simp: confined_def same_arrays_eqs)

lemma confined_pin:
  assumes c: "confined i m0 m held"
    and r: "buff_pin L ka va (Some m) out index s = Inr (st, fp, m', s')"
  shows "\<exists>m1. m' = Some m1 \<and> confined i m0 m1 (if st = STATUS_OK then insert fp held else held)
    \<and> st \<noteq> STATUS_NO_FREE_FRAMES \<and> (st = STATUS_OK \<longrightarrow> fp = frame_ptr m0 (word_of_nat i))"
proof -
  have a: "same_arrays m0 m" and wf: "wf_manager m" using c by (auto simp: confined_def)
  have i: "i < length (bm_metas m)" "bm_freelist m = meta_ptr m i"
    using c same_arrays_eqs [OF a] by (auto simp: confined_def)
  obtain m1 where m1: "m' = Some m1" "pin_effect i index m m1" "st \<noteq> STATUS_NO_FREE_FRAMES"
    "if st = STATUS_OK then fp = frame_ptr m (word_of_nat i) else fp = out"
    using buff_pin_effect [OF wf i r] by blast
  have "confined i m0 m1 held"
    using c pin_effect_wf [OF wf m1(2)] pin_effect_frame [OF m1(2)] same_arrays_trans [OF a]
    by (simp add: confined_def)
  with m1 show ?thesis using same_arrays_eqs [OF a] by (auto simp: confined_def)
qed

lemma confined_alloc:
  assumes c: "confined i m0 m held"
    and r: "buff_alloc_frame L ka va (Some m) pf s = Inr (st, pf', m', s')"
  shows "\<exists>m1. m' = Some m1 \<and> confined i m0 m1 (if st = STATUS_OK then insert (snd (the pf')) held else held)
    \<and> (st = STATUS_OK \<longrightarrow> snd (the pf') = frame_ptr m0 (word_of_nat i))"
proof (cases pf)
  case None
  then show ?thesis using c r by (auto simp: buff_alloc_frame_def)
next
  case (Some q)
  obtain ast page s1 where al: "alloc_page None (bm_store m) s = (ast, page, s1)"
    by (cases "alloc_page None (bm_store m) s")
  show ?thesis
  proof (cases "ast = STATUS_OK")
    case False
    then show ?thesis using c r Some al by (auto simp: buff_alloc_frame_def)
  next
    case True
    obtain pst fp m1 s2 where p: "buff_pin L ka va (Some m) 0 page s1 = Inr (pst, fp, m1, s2)"
      using r Some al True by (auto simp: buff_alloc_frame_def bind_res_eq_Inr)
    show ?thesis
      using confined_pin [OF c p] r Some al True p
      by (auto simp: buff_alloc_frame_def split: if_splits)
  qed
qed

lemma confined_unpin:
  assumes c: "confined i m0 m held" and fp: "fp \<in> held"
    and r: "buff_unpin L fresh (Some m) fp = Inr (st, m')"
  shows "\<exists>m1. m' = Some m1 \<and> confined i m0 m1 held"
proof -
  have a: "same_arrays m0 m" and wf: "wf_manager m" using c by (auto simp: confined_def)
  have i: "i < length (bm_metas m)" "bm_freelist m = meta_ptr m i"
    using c same_arrays_eqs [OF a] by (auto simp: confined_def)
  have "nth_meta m (get_frame_index_from_frame m fp) = Inr i"
    using confined_held [OF c fp] nth_meta_frame_ptr [OF wf_managerD(1) [OF wf] i(1)] by simp
  then show ?thesis
    using wf_unpin [OF wf r] c i same_arrays_trans [OF a] by (auto simp: confined_def)
qed

lemma confined_set_state: "confined i m0 m held \<Longrightarrow> confined i m0 (set_state j st m) held"
  by (auto simp: confined_def wf_set_state)

lemma confined_free:
  assumes c: "confined i m0 m held" and fp: "fp \<in> held"
    and r: "buff_free_frame L fresh (Some m) fp s = Inr (st, m', s')"
  shows "\<exists>m1. m' = Some m1 \<and> confined i m0 m1 held"
proof (cases "fp = 0")
  case True
  then show ?thesis using c r by (auto simp: buff_free_frame_def)
next
  case False
  obtain j ust m1 where "nth_meta m (get_frame_index_from_frame m fp) = Inr j"
    and u: "buff_unpin L fresh (Some (set_state j FS_PINNED m)) fp = Inr (ust, m1)" "m' = m1"
    using r False by (auto simp: buff_free_frame_def bind_res_eq_Inr Let_def split: if_splits prod.splits)
  then show ?thesis using confined_unpin [OF confined_set_state [OF c] fp u(1)] by simp
qed

lemma confined_flush:
  assumes c: "confined i m0 m held" and r: "buff_flush_all fuel (Some m) s = Inr (st, Some m', s')"
  shows "confined i m0 m' held"
proof -
  have f: "states_flushed m m'"
    using r by (auto simp: buff_flush_all_def bind_res_eq_Inr dest: flush_loop_keeps)
  then show ?thesis
    using c states_flushed_wf [OF _ f] states_flushed_frame [OF f] same_arrays_trans
    by (auto simp: confined_def)
qed

lemma session_confined:
  assumes "session L m0 m held" and wf: "wf_manager m0" and i: "i < length (bm_metas m0)"
    and f: "bm_freelist m0 = meta_ptr m0 i"
  shows "confined i m0 m held"
  using assms(1)
proof (induction rule: session.induct)
  case start
  show ?case by (rule confined_start) (rule wf i f)+
next
  case (pin m held ka va out index s st fp m' s')
  then show ?case using confined_pin [OF pin.IH pin.hyps(2)] by auto
next
  case (alloc m held ka va pf s st page fp m' s')
  then show ?case using confined_alloc [OF alloc.IH alloc.hyps(2)] by auto
next
  case (unpin m held fp fresh st m')
  then show ?case using confined_unpin [OF unpin.IH unpin.hyps(2,3)] by auto
next
  case (mark m held fp st m')
  show ?case
    using wf_mark [OF _ mark.hyps(3)] mark.IH same_arrays_trans by (fastforce simp: confined_def)
next
  case (flush m held fuel s st m' s')
  then show ?case using confined_flush [OF flush.IH flush.hyps(2)] by simp
next
  case (free m held fp fresh s st m' s')
  then show ?case using confined_free [OF free.IH free.hyps(2,3)] by auto
qed

section \<open>The initial manager\<close>

lemma fold_init_meta_fields [simp]:
  "bm_store (fold (init_meta frames) is m) = bm_store m" "bm_bytes (fold (init_meta frames) is m) = bm_bytes m"
  "bm_buffer (fold (init_meta frames) is m) = bm_buffer m" "bm_metaframes (fold (init_meta frames) is m) = bm_metaframes m"
  "bm_freelist (fold (init_meta frames) is m) = bm_freelist m" "bm_writeback (fold (init_meta frames) is m) = bm_writeback m"
  "bm_lookup (fold (init_meta frames) is m) = bm_lookup m" "bm_frames (fold (init_meta frames) is m) = bm_frames m"
  "length (bm_metas (fold (init_meta frames) is m)) = length (bm_metas m)"
  by (induction "is" arbitrary: m) (simp_all add: init_meta_def)

lemma init_meta_metas:
  "i < length (bm_metas m) \<Longrightarrow> bm_metas (init_meta frames i m) = (bm_metas m)[i := (bm_metas m ! i)\<lparr>
     mf_next := (if int i < frames - 1 then meta_ptr m (i + 1) else 0), mf_state := FS_UNPINNED\<rparr>]"
  by (simp add: init_meta_def)

lemma init_meta_nth:
  assumes "k \<le> length (bm_metas m)" and "j < length (bm_metas m)"
  shows "bm_metas (fold (init_meta frames) [0..<k] m) ! j =
    (if j < k then (bm_metas m ! j)\<lparr>
       mf_next := (if int j < frames - 1 then meta_ptr m (j + 1) else 0), mf_state := FS_UNPINNED\<rparr>
     else bm_metas m ! j)"
  using assms(1)
proof (induction k)
  case (Suc k)
  have "meta_ptr (fold (init_meta frames) [0..<k] m) i = meta_ptr m i" for i
    by (simp add: meta_ptr_def)
  then show ?case
    using Suc assms(2) by (auto simp: init_meta_metas nth_upd less_Suc_eq)
qed simp

text \<open>The manager \<open>buff_create\<close> means to return: every frame unpinned, chained in order.\<close>

lemma buff_init_ok:
  assumes "metap \<noteq> 0" and "bufp \<noteq> 0" and "0 < n"
    and "unat metap + n * SIZEOF_META_FRAME < 2 ^ 64" and "unat bufp + n * PAGESIZE < 2 ^ 64"
  obtains m where "buff_init L bufp metap store (int n) = Inr m" "wf_manager m" "length (bm_metas m) = n"
    "bm_freelist m = meta_ptr m 0" "bm_writeback m = 0" "bm_store m = store" "bm_buffer m = bufp"
    "bm_metaframes m = metap" "bm_lookup m = gh_new L" "bm_bytes m = replicate n zero_mem"
    "\<And>i. i < n \<Longrightarrow> bm_metas m ! i = \<lparr>mf_state = FS_UNPINNED, mf_index = 0,
        mf_next = (if Suc i < n then meta_ptr m (Suc i) else 0)\<rparr>"
proof -
  define m0 where "m0 = \<lparr>bm_store = store, bm_frames = word_of_int (int n), bm_buffer = bufp,
         bm_bytes = replicate n zero_mem, bm_metaframes = metap,
         bm_metas = replicate n calloc_meta, bm_freelist = metap,
         bm_writeback = 0, bm_lookup = gh_new L\<rparr>"
  define m where "m = fold (init_meta (int n)) [0..<n] m0"
  have r: "buff_init L bufp metap store (int n) = Inr m"
    using assms(1) by (simp add: buff_init_def m_def m0_def)
  have len: "length (bm_metas m) = n" by (simp add: m_def m0_def)
  have mp: "meta_ptr m0 i = meta_ptr m i" for i by (simp add: meta_ptr_def m_def)
  have nx: "bm_metas m ! i = \<lparr>mf_state = FS_UNPINNED, mf_index = 0,
        mf_next = (if Suc i < n then meta_ptr m (Suc i) else 0)\<rparr>" if "i < n" for i
    using init_meta_nth [of n m0 i "int n"] that
    by (auto simp: m_def [symmetric] mp m0_def [symmetric]) (simp_all add: m0_def calloc_meta_def)
  have lay: "layout m" using assms by (simp add: layout_def len) (simp add: m_def m0_def)
  have fl: "bm_freelist m = meta_ptr m 0" by (simp add: m_def m0_def meta_ptr_def)
  have wb: "bm_writeback m = 0" by (simp add: m_def m0_def)
  have "wf_manager m"
    using lay fl wb nx assms(3) meta_ptr_nonzero [OF lay, of 0] ptr_ok_meta [of 0 m] by (auto simp: wf_manager_def len)
  with r len fl wb nx that show ?thesis by (simp add: m_def m0_def)
qed

end
