(* ===== verification/ManagerOps.thy ===== *)
theory ManagerOps
  imports ManagerSession
begin

text \<open>
  The effect of the manager's operations on a working store and a table that keeps GLib's
  promises: loading, marking, unpinning and writing back.
\<close>

section \<open>The write-back list\<close>

fun wchain :: "'h buffer_manager \<Rightarrow> i64 \<Rightarrow> nat list \<Rightarrow> bool" where
  "wchain m p [] = (p = 0)"
| "wchain m p (i # is) =
     (p = meta_ptr m i \<and> i < length (bm_metas m) \<and> wchain m (mf_next (bm_metas m ! i)) is)"

lemma wchain_within: "wchain m p is \<Longrightarrow> set is \<subseteq> {..<length (bm_metas m)}"
  by (induction "is" arbitrary: p) auto

definition dirty_page :: "'h buffer_manager \<Rightarrow> nat \<Rightarrow> nat" where
  "dirty_page m i = unat (mf_index (bm_metas m ! i))"

definition write_backs :: "'h buffer_manager \<Rightarrow> nat list \<Rightarrow> pstore \<Rightarrow> pstore" where
  "write_backs m is a = fold (\<lambda>i. ps_put (dirty_page m i) (bm_bytes m ! i)) is a"

lemma ps_live_put [simp]: "ps_live (ps_put p x a) q = ps_live a q"
  by (simp add: ps_live_def ps_put_def)

lemma ps_live_write_backs [simp]: "ps_live (write_backs m is a) q = ps_live a q"
  by (induction "is" arbitrary: a) (simp_all add: write_backs_def)

lemma wchain_flushed:
  assumes "states_flushed m m'"
  shows "wchain m' p is = wchain m p is"
  using states_flushed_frame [OF assms] same_arrays_eqs [OF states_flushed_frame(1) [OF assms]]
  by (induction "is" arbitrary: p) auto

lemma states_flushed_one: "states_flushed m (set_state i FS_UNPINNED m)"
  by (rule states_flushed_set) (rule states_flushed_refl)

lemma states_flushed_trans:
  assumes "states_flushed f g" and "states_flushed g h"
  shows "states_flushed f h"
proof -
  obtain ms ns where g: "g = f\<lparr>bm_metas := ms\<rparr>" "h = g\<lparr>bm_metas := ns\<rparr>"
    "length ms = length (bm_metas f)" "length ns = length ms"
    and m: "\<And>i. i < length ms \<Longrightarrow> ms ! i = bm_metas f ! i \<or> ms ! i = (bm_metas f ! i)\<lparr>mf_state := FS_UNPINNED\<rparr>"
    and n: "\<And>i. i < length ns \<Longrightarrow> ns ! i = ms ! i \<or> ns ! i = (ms ! i)\<lparr>mf_state := FS_UNPINNED\<rparr>"
    using assms by (auto simp: states_flushed_def)
  have "ns ! i = bm_metas f ! i \<or> ns ! i = (bm_metas f ! i)\<lparr>mf_state := FS_UNPINNED\<rparr>"
    if "i < length ns" for i
    using m [of i] n [OF that] that g(4) by auto
  then show ?thesis using g unfolding states_flushed_def by (intro exI [of _ ns]) simp
qed

lemma write_backs_flushed:
  assumes "states_flushed m m'" and "set is \<subseteq> {..<length (bm_metas m)}"
  shows "write_backs m' is a = write_backs m is a"
  using assms(2) states_flushed_frame(5,8) [OF assms(1)]
  by (induction "is" arbitrary: a) (simp_all add: write_backs_def dirty_page_def)

lemma flush_chain:
  assumes "layout m" and "wchain m p is" and "bm_store m = Some b" and "store_at b s a"
    and "\<forall>i \<in> set is. ps_live a (dirty_page m i)" and "length is < fuel"
  shows "\<exists>m' s'. flush_loop fuel p m s = Inr (m', s') \<and> store_at b s' (write_backs m is a)
     \<and> states_flushed m m' \<and> (\<forall>i \<in> set is. mf_state (bm_metas m' ! i) = FS_UNPINNED)"
  using assms
proof (induction "is" arbitrary: p m s a fuel)
  case Nil
  then show ?case by (cases fuel) (auto simp: write_backs_def states_flushed_refl)
next
  case (Cons i "is")
  obtain k where k: "fuel = Suc k" "length is < k" using Cons.prems(6) by (cases fuel) auto
  have i: "i < length (bm_metas m)" "p = meta_ptr m i" using Cons.prems(2) by auto
  note lay = Cons.prems(1)
  let ?m = "set_state i FS_UNPINNED m"
  obtain s1 where s1: "put_page (bm_bytes m ! i) (Some b) (mf_index (bm_metas m ! i)) s = (STATUS_OK, s1)"
    "store_at b s1 (ps_put (dirty_page m i) (bm_bytes m ! i) a)"
    using sim_put [OF Cons.prems(4), of "dirty_page m i"] Cons.prems(5) by (auto simp: dirty_page_def)
  have f: "states_flushed m ?m" by (rule states_flushed_one)
  have "flush_loop fuel p m s = flush_loop k (mf_next (bm_metas m ! i)) ?m s1"
    unfolding k(1)
    using flush_loop_step [of p m i i s STATUS_OK s1 k] s1(1) i Cons.prems(3) meta_ptr_nonzero [OF lay i(1)]
      deref_meta_ptr [OF lay i(1)] index_from_meta [OF lay i(1)] nth_frame_ok [OF lay i(1)] by simp
  moreover have "\<exists>m' s'. flush_loop k (mf_next (bm_metas m ! i)) ?m s1 = Inr (m', s')
      \<and> store_at b s' (write_backs ?m is (ps_put (dirty_page m i) (bm_bytes m ! i) a))
      \<and> states_flushed ?m m' \<and> (\<forall>i \<in> set is. mf_state (bm_metas m' ! i) = FS_UNPINNED)"
  proof (rule Cons.IH)
    show "layout ?m" using lay same_arrays_eqs(1) [OF states_flushed_frame(1) [OF f]] by simp
    show "wchain ?m (mf_next (bm_metas m ! i)) is" using Cons.prems(2) by (simp add: wchain_flushed [OF f])
    show "\<forall>j \<in> set is. ps_live (ps_put (dirty_page m i) (bm_bytes m ! i) a) (dirty_page ?m j)"
      using Cons.prems(5) i(1) by (auto simp: dirty_page_def nth_list_update)
  qed (use Cons.prems(3) s1(2) k(2) in simp_all)
  then obtain m' s' where m': "flush_loop k (mf_next (bm_metas m ! i)) ?m s1 = Inr (m', s')"
    "store_at b s' (write_backs ?m is (ps_put (dirty_page m i) (bm_bytes m ! i) a))"
    "states_flushed ?m m'" "\<forall>i \<in> set is. mf_state (bm_metas m' ! i) = FS_UNPINNED"
    by blast
  moreover have "mf_state (bm_metas m' ! i) = FS_UNPINNED"
    using states_flushed_frame(9) [OF m'(3), of i] i(1) by auto
  moreover have "set is \<subseteq> {..<length (bm_metas m)}"
    using wchain_within [OF Cons.prems(2)] by simp
  ultimately show ?case
    using write_backs_flushed [OF f, of "is" "ps_put (dirty_page m i) (bm_bytes m ! i) a"]
      states_flushed_trans [OF f m'(3)]
    by (auto simp: write_backs_def)
qed

text \<open>A frame that is its own successor: the loop has no end, whatever the file does.\<close>

lemma flush_self_loop:
  assumes "layout m" and "i < length (bm_metas m)" and "mf_next (bm_metas m ! i) = meta_ptr m i"
  shows "flush_loop k (meta_ptr m i) m s = Inl OutOfFuel"
  using assms
proof (induction k arbitrary: m s)
  case (Suc k)
  note lay = Suc.prems(1) and i = Suc.prems(2)
  obtain st s1 where p: "put_page (bm_bytes m ! i) (bm_store m) (mf_index (bm_metas m ! i)) s = (st, s1)"
    by fastforce
  let ?m = "if st = STATUS_OK then set_state i FS_UNPINNED m else m"
  have f: "states_flushed m ?m" by (simp add: states_flushed_one states_flushed_refl)
  note e = same_arrays_eqs [OF states_flushed_frame(1) [OF f]]
  have "flush_loop k (meta_ptr ?m i) ?m s1 = Inl OutOfFuel"
    by (rule Suc.IH) (use Suc.prems states_flushed_frame(7) [OF f i] e in auto)
  then show ?case
    using flush_loop_step [of "meta_ptr m i" m i i s st s1 k] p Suc.prems(3) e(2)
      meta_ptr_nonzero [OF lay i] deref_meta_ptr [OF lay i] index_from_meta [OF lay i] nth_frame_ok [OF lay i]
    by simp
qed simp

section \<open>Operations on a working store\<close>

text \<open>The frame at the head of the free list.\<close>

definition free_head :: "'h buffer_manager \<Rightarrow> nat \<Rightarrow> bool" where
  "free_head m i \<longleftrightarrow> wf_manager m \<and> i < length (bm_metas m) \<and> bm_freelist m = meta_ptr m i"

lemma free_headD:
  assumes "free_head m i"
  shows "wf_manager m" "layout m" "i < length (bm_metas m)" "bm_freelist m = meta_ptr m i"
    "length (bm_bytes m) = length (bm_metas m)"
  using assms by (auto simp: free_head_def wf_manager_def layout_def)

lemma live_index:
  assumes "store_at b s a" and "ps_live a p"
  shows "word_of_nat p \<noteq> METADATA" and "unat (word_of_nat p :: i64) = p"
proof -
  from assms(1) obtain ino where rel: "store_rel (inodes s ino) a" by (rule store_atE)
  have p: "p \<noteq> 0" "page_fits p" using store_at_fits [OF rel assms(2)] by auto
  then have "p < 2 ^ 64" by (simp add: page_fits_def PAGESIZE_def)
  then show u: "unat (word_of_nat p :: i64) = p" by (rule unat_word_of_nat64)
  show "word_of_nat p \<noteq> METADATA" using u p(1) by (auto simp: METADATA_def)
qed

lemma buff_mark_page_frame:
  assumes "layout m" and "i < length (bm_metas m)"
  shows "buff_mark_page (Some m) (frame_ptr m (word_of_nat i)) = Inr
    (case mf_state (bm_metas m ! i) of
       FS_PINNED \<Rightarrow> (STATUS_OK, Some (set_state i FS_PINNED_DIRTY m))
     | FS_PINNED_DIRTY \<Rightarrow> (STATUS_OK, Some m)
     | _ \<Rightarrow> (STATUS_MARK_ERR, Some m))"
  using nth_meta_frame_ptr [OF assms] by (simp add: buff_mark_page_def split: frame_state.split)

lemma frame_ptr_loaded [simp]:
  "frame_ptr (pinned i j index m) w = frame_ptr m w" "frame_ptr (loaded t i page m) w = frame_ptr m w"
  "meta_ptr (pinned i j index m) x = meta_ptr m x" "meta_ptr (loaded t i page m) x = meta_ptr m x"
  by (simp_all add: frame_ptr_def meta_ptr_def pinned_def loaded_def)

lemma frame_ptr_nonzero:
  assumes "layout m" and "i < length (bm_metas m)"
  shows "frame_ptr m (word_of_nat i) \<noteq> 0"
proof -
  have "i * PAGESIZE \<le> length (bm_metas m) * PAGESIZE" using assms(2) by (intro mult_le_mono1) simp
  then have "unat (bm_buffer m) + i * PAGESIZE < 2 ^ 64"
    using assms(1) unfolding layout_def by linarith
  then have "unat (frame_ptr m (word_of_nat i)) = unat (bm_buffer m) + i * PAGESIZE"
    using unat_add_offset [of "bm_buffer m" "i * PAGESIZE"] by (simp add: frame_ptr_def)
  then show ?thesis using assms(1) by (auto simp: layout_def unat_eq_0)
qed

lemma free_head_update:
  assumes h: "free_head m i" and a: "same_arrays m m'"
    and e: "bm_freelist m' = bm_freelist m" "bm_writeback m' = bm_writeback m"
      "\<And>x. x < length (bm_metas m) \<Longrightarrow> mf_next (bm_metas m' ! x) = mf_next (bm_metas m ! x)"
  shows "free_head m' i"
proof -
  have "wf_manager m'"
    by (rule wf_managerI [OF free_headD(1) [OF h] a]) (use wf_managerD [OF free_headD(1) [OF h]] e in simp_all)
  then show ?thesis using h same_arrays_eqs [OF a] e(1) by (simp add: free_head_def)
qed

text \<open>The client overwrites the frame it has pinned and marks it.\<close>

lemma write_and_mark:
  assumes h: "free_head m i" and st: "mf_state (bm_metas m ! i) = FS_PINNED"
  obtains m' where "buff_mark_page (Some (m\<lparr>bm_bytes := (bm_bytes m)[i := d]\<rparr>)) (frame_ptr m (word_of_nat i))
      = Inr (STATUS_OK, Some m')"
    "free_head m' i" "same_arrays m m'" "bm_bytes m' = (bm_bytes m)[i := d]"
    "bm_metas m' = (bm_metas m)[i := (bm_metas m ! i)\<lparr>mf_state := FS_PINNED_DIRTY\<rparr>]"
    "bm_writeback m' = bm_writeback m" "bm_store m' = bm_store m" "bm_lookup m' = bm_lookup m"
proof -
  let ?d = "m\<lparr>bm_bytes := (bm_bytes m)[i := d]\<rparr>"
  have a: "same_arrays m ?d" "same_arrays m (set_state i FS_PINNED_DIRTY ?d)" by (simp_all add: same_arrays_def)
  have "free_head (set_state i FS_PINNED_DIRTY ?d) i"
    by (rule free_head_update [OF h a(2)]) (simp_all add: nth_upd)
  moreover have "buff_mark_page (Some ?d) (frame_ptr m (word_of_nat i))
      = Inr (STATUS_OK, Some (set_state i FS_PINNED_DIRTY ?d))"
    using buff_mark_page_frame [of ?d i] free_headD(2,3) [OF h] same_arrays_eqs(1,3) [OF a(1)] st by simp
  ultimately show ?thesis using a(2) by (intro that) (assumption | simp)+
qed

text \<open>Flushing a write-back list of one frame.\<close>

lemma flush_one:
  assumes h: "free_head m i" and n: "mf_next (bm_metas m ! i) = 0" "bm_writeback m = meta_ptr m i"
    and st: "bm_store m = Some b" "store_at b s a" "ps_live a (dirty_page m i)" and f: "2 \<le> fuel"
  obtains m' s' where "buff_flush_all fuel (Some m) s = Inr (STATUS_OK, Some m', s')"
    "store_at b s' (ps_put (dirty_page m i) (bm_bytes m ! i) a)" "mf_state (bm_metas m' ! i) = FS_UNPINNED"
    "free_head m' i" "mf_next (bm_metas m' ! i) = 0" "bm_store m' = Some b" "bm_lookup m' = bm_lookup m"
proof -
  note i = free_headD(2,3) [OF h]
  have w: "wchain m (bm_writeback m) [i]" using n i(2) by simp
  obtain m' s' where 4: "flush_loop fuel (bm_writeback m) m s = Inr (m', s')"
    "store_at b s' (write_backs m [i] a)" "states_flushed m m'" "mf_state (bm_metas m' ! i) = FS_UNPINNED"
    using flush_chain [OF i(1) w st(1,2), of fuel] st(3) f by auto
  note e = states_flushed_frame [OF 4(3)]
  have "free_head m' i" by (rule free_head_update [OF h e(1,2,3,7)])
  with that 4 show ?thesis
    using e(4,6) e(7) [OF i(2)] n(1) st(1) by (simp add: buff_flush_all_def write_backs_def)
qed

context glib_table
begin

lemma pin_load:
  assumes h: "free_head m i" and st: "bm_store m = Some b" "store_at b s a" "ps_live a p"
    and k: "bindings (bm_lookup m) ka = None"
  obtains page t where "page_of page = ps_data a p" "bindings t = (bindings (bm_lookup m))(ka \<mapsto> va)"
    "buff_pin L ka va (Some m) out (word_of_nat p) s =
       bind_res (deref_meta m (mf_next (bm_metas m ! i))) (\<lambda>j.
         Inr (STATUS_OK, frame_ptr m (word_of_nat i),
              Some (pinned i j (word_of_nat p) (loaded t i page m)), s))"
proof -
  obtain page where page: "get_page (bm_bytes m ! i) (bm_store m) (word_of_nat p) s = (STATUS_OK, page, s)"
    "page_of page = ps_data a p"
    using sim_get [OF st(2,3)] st(1) by auto
  obtain t where t: "gh_insert L (bm_lookup m) ka va = (True, t, [])"
    "bindings t = (bindings (bm_lookup m))(ka \<mapsto> va)"
    using insert_absent [OF k] by blast
  show ?thesis
    using that [OF page(2) t(2)]
      buff_pin_miss [OF free_headD(1,3,4) [OF h] live_index(1) [OF st(2,3)] lookup_absent [OF k] t(1) page(1)]
    by simp
qed

text \<open>A binding of the key address, whatever page it was made for, answers the call.\<close>

lemma pin_hit:
  assumes h: "free_head m i" and k: "bindings (bm_lookup m) ka = Some v" "v \<noteq> 0" and "index \<noteq> METADATA"
  shows "buff_pin L ka va (Some m) out index s = Inr (STATUS_OK, frame_ptr m (word_of_nat i), Some m, s)"
  using assms(4) lookup_present [OF k(1)] k(2) free_headD(4) [OF h] wf_managerD(3) [OF free_headD(1) [OF h]]
    index_from_meta [OF free_headD(2,3) [OF h]]
  by (simp add: buff_pin_def)

lemma unpin_frame:
  assumes "layout m" and "i < length (bm_metas m)"
    and fr: "bindings (bm_lookup m) fresh = None" "malloced L fresh"
  obtains t where "bindings t = bindings (bm_lookup m)"
    "buff_unpin L fresh (Some m) (frame_ptr m (word_of_nat i)) = Inr
      (case mf_state (bm_metas m ! i) of
         FS_PINNED_DIRTY \<Rightarrow>
           (STATUS_OK, Some (push_writeback i ((set_state i FS_UNPINNED_DIRTY m)\<lparr>bm_lookup := t\<rparr>)))
       | FS_PINNED \<Rightarrow> (STATUS_OK, Some (push_free i ((set_state i FS_UNPINNED m)\<lparr>bm_lookup := t\<rparr>)))
       | _ \<Rightarrow> (STATUS_ERR, Some m))"
proof -
  obtain t where t: "gh_remove L (bm_lookup m) fresh = (False, t, [])" "bindings t = bindings (bm_lookup m)"
    using remove_absent [OF fr(1)] by blast
  then show ?thesis
    using that [OF t(2)] nth_meta_frame_ptr [OF assms(1,2)] fr(2)
    by (simp add: buff_unpin_def remove_binding_def free_ptrs_def split: frame_state.split)
qed

lemma pin_at_end:
  assumes h: "free_head m i" and n: "mf_next (bm_metas m ! i) = 0"
    and st: "bm_store m = Some b" "store_at b s a" "ps_live a p"
    and k: "bindings (bm_lookup m) ka = None"
  shows "buff_pin L ka va (Some m) out (word_of_nat p) s = Inl NullDeref"
proof -
  obtain page t where "buff_pin L ka va (Some m) out (word_of_nat p) s =
       bind_res (deref_meta m (mf_next (bm_metas m ! i))) (\<lambda>j.
         Inr (STATUS_OK, frame_ptr m (word_of_nat i),
              Some (pinned i j (word_of_nat p) (loaded t i page m)), s))"
    by (rule pin_load [OF h st k])
  then show ?thesis using n by simp
qed

lemma pin_ok:
  assumes h: "free_head m i" and n: "mf_next (bm_metas m ! i) = meta_ptr m j" "j < length (bm_metas m)"
    and st: "bm_store m = Some b" "store_at b s a" "ps_live a p"
    and k: "bindings (bm_lookup m) ka = None"
  obtains page t where "page_of page = ps_data a p" "bindings t = (bindings (bm_lookup m))(ka \<mapsto> va)"
    "buff_pin L ka va (Some m) out (word_of_nat p) s = Inr (STATUS_OK, frame_ptr m (word_of_nat i),
       Some (pinned i j (word_of_nat p) (loaded t i page m)), s)"
    "free_head (pinned i j (word_of_nat p) (loaded t i page m)) i"
proof -
  obtain page t where l: "page_of page = ps_data a p" "bindings t = (bindings (bm_lookup m))(ka \<mapsto> va)"
    "buff_pin L ka va (Some m) out (word_of_nat p) s =
       bind_res (deref_meta m (mf_next (bm_metas m ! i))) (\<lambda>j.
         Inr (STATUS_OK, frame_ptr m (word_of_nat i),
              Some (pinned i j (word_of_nat p) (loaded t i page m)), s))"
    using h st k by (rule pin_load)
  have "wf_manager (pinned i j (word_of_nat p) (loaded t i page m))"
    by (intro wf_pinned wf_loaded) (use free_headD(1) [OF h] n(2) in simp_all)
  then have "free_head (pinned i j (word_of_nat p) (loaded t i page m)) i"
    using free_headD(3,4) [OF h] by (simp add: free_head_def meta_ptr_def pinned_def loaded_def)
  with that l show ?thesis using deref_meta_ptr [OF free_headD(2) [OF h] n(2)] n(1) by simp
qed

text \<open>Freeing a frame in any state: it becomes the head of the free list, linked to the old one.\<close>

lemma free_frame:
  assumes h: "free_head m x" and i: "i < length (bm_metas m)"
    and fr: "bindings (bm_lookup m) fresh = None" "malloced L fresh"
  obtains m' where "same_arrays m m'" "bm_freelist m' = meta_ptr m i" "bm_writeback m' = bm_writeback m"
    "mf_next (bm_metas m' ! i) = bm_freelist m" "bindings (bm_lookup m') = bindings (bm_lookup m)"
    "bm_store m' = bm_store m"
    "\<And>s. buff_free_frame L fresh (Some m) (frame_ptr m (word_of_nat i)) s =
       (case free_page (bm_store m) (mf_index (bm_metas m ! i)) s of (st, s1) \<Rightarrow> Inr (st, Some m', s1))"
proof -
  note lay = free_headD(2) [OF h]
  let ?m = "set_state i FS_PINNED m"
  have a: "same_arrays m ?m" by simp
  note e = same_arrays_eqs [OF a]
  obtain t where t: "bindings t = bindings (bm_lookup ?m)"
    "buff_unpin L fresh (Some ?m) (frame_ptr ?m (word_of_nat i)) = Inr
      (case mf_state (bm_metas ?m ! i) of
         FS_PINNED_DIRTY \<Rightarrow>
           (STATUS_OK, Some (push_writeback i ((set_state i FS_UNPINNED_DIRTY ?m)\<lparr>bm_lookup := t\<rparr>)))
       | FS_PINNED \<Rightarrow> (STATUS_OK, Some (push_free i ((set_state i FS_UNPINNED ?m)\<lparr>bm_lookup := t\<rparr>)))
       | _ \<Rightarrow> (STATUS_ERR, Some ?m))"
    by (rule unpin_frame [of ?m i fresh]) (use lay i fr e in simp_all)
  let ?m' = "push_free i ((set_state i FS_UNPINNED ?m)\<lparr>bm_lookup := t\<rparr>)"
  have m': "same_arrays m ?m'" "bm_freelist ?m' = meta_ptr m i"
    by (simp_all add: same_arrays_def meta_ptr_def push_free_def)
  have u: "buff_unpin L fresh (Some ?m) (frame_ptr m (word_of_nat i)) = Inr (STATUS_OK, Some ?m')"
    using t(2) i e(3) by simp
  have "buff_free_frame L fresh (Some m) (frame_ptr m (word_of_nat i)) s =
       (case free_page (bm_store m) (mf_index (bm_metas m ! i)) s of (st, s1) \<Rightarrow> Inr (st, Some ?m', s1))" for s
    using frame_ptr_nonzero [OF lay i] nth_meta_frame_ptr [OF lay i] u
    by (simp add: buff_free_frame_def Let_def split: prod.split)
  with m' t(1) i show ?thesis by (intro that [of ?m']) simp_all
qed

text \<open>Unpinning the head of the free list: clean, it becomes its own successor; dirty, it is
  taken for the write-back list and its successor is what that list held.\<close>

lemma unpin_clean:
  assumes h: "free_head m i" and st: "mf_state (bm_metas m ! i) = FS_PINNED"
    and fr: "bindings (bm_lookup m) fresh = None" "malloced L fresh"
  obtains m' where "buff_unpin L fresh (Some m) (frame_ptr m (word_of_nat i)) = Inr (STATUS_OK, Some m')"
    "free_head m' i" "same_arrays m m'" "mf_next (bm_metas m' ! i) = meta_ptr m i"
    "mf_state (bm_metas m' ! i) = FS_UNPINNED" "bm_store m' = bm_store m"
    "bindings (bm_lookup m') = bindings (bm_lookup m)" "bm_bytes m' = bm_bytes m"
proof -
  obtain t where t: "bindings t = bindings (bm_lookup m)"
    "buff_unpin L fresh (Some m) (frame_ptr m (word_of_nat i)) =
       Inr (STATUS_OK, Some (push_free i ((set_state i FS_UNPINNED m)\<lparr>bm_lookup := t\<rparr>)))"
    by (rule unpin_frame [OF free_headD(2,3) [OF h] fr]) (simp add: st)
  let ?m = "(set_state i FS_UNPINNED m)\<lparr>bm_lookup := t\<rparr>"
  have a: "same_arrays m ?m" by (simp add: same_arrays_def)
  have "wf_manager (push_free i ?m)"
    by (rule wf_push(1)) (use free_headD(1,3) [OF h] wf_set_state in auto)
  then have "free_head (push_free i ?m) i"
    using free_headD(3) [OF h] by (simp add: free_head_def) (simp add: meta_ptr_def push_free_def)
  with t a show ?thesis
    using free_headD(3,4) [OF h] by (intro that [of "push_free i ?m"]) simp_all
qed

lemma unpin_dirty:
  assumes h: "free_head m i" and st: "mf_state (bm_metas m ! i) = FS_PINNED_DIRTY"
    and fr: "bindings (bm_lookup m) fresh = None" "malloced L fresh"
  obtains m' where "buff_unpin L fresh (Some m) (frame_ptr m (word_of_nat i)) = Inr (STATUS_OK, Some m')"
    "free_head m' i" "same_arrays m m'" "mf_next (bm_metas m' ! i) = bm_writeback m"
    "bm_writeback m' = meta_ptr m i" "bm_bytes m' = bm_bytes m"
    "mf_index (bm_metas m' ! i) = mf_index (bm_metas m ! i)"
    "mf_state (bm_metas m' ! i) = FS_UNPINNED_DIRTY" "bm_store m' = bm_store m"
    "bindings (bm_lookup m') = bindings (bm_lookup m)"
proof -
  obtain t where t: "bindings t = bindings (bm_lookup m)"
    "buff_unpin L fresh (Some m) (frame_ptr m (word_of_nat i)) =
       Inr (STATUS_OK, Some (push_writeback i ((set_state i FS_UNPINNED_DIRTY m)\<lparr>bm_lookup := t\<rparr>)))"
    by (rule unpin_frame [OF free_headD(2,3) [OF h] fr]) (simp add: st)
  let ?m = "(set_state i FS_UNPINNED_DIRTY m)\<lparr>bm_lookup := t\<rparr>"
  have a: "same_arrays m ?m" by (simp add: same_arrays_def)
  have "wf_manager (push_writeback i ?m)"
    by (rule wf_push(2)) (use free_headD(1,3) [OF h] wf_set_state in auto)
  then have "free_head (push_writeback i ?m) i"
    using free_headD(3,4) [OF h] by (simp add: free_head_def) (simp add: meta_ptr_def push_writeback_def)
  with t a show ?thesis
    using free_headD(3) [OF h] same_arrays_eqs(2) [OF a]
    by (intro that [of "push_writeback i ?m"]) simp_all
qed

end

end
