(* ===== verification/ManagerProperties.thy ===== *)
theory ManagerProperties
  imports ManagerOps StoreProperties
begin

text \<open>
  The properties of \<open>src/lib/buffer_manager.c\<close>.  The witnesses run a manager of three
  frames, as \<open>buff_init\<close> leaves it, on the store of \<open>StoreProperties\<close> with two pages; the
  hash table is the association-list instance, 100 and 200 stand for heap addresses and the
  addresses below 100 for locals.
\<close>

section \<open>A small manager\<close>

definition demo_page :: mem where
  "demo_page = (\<lambda>_. 7)"

definition demo3 :: os where
  "demo3 = snd (alloc_step (Some demo_page) demo_b demo1)"

definition demo_a3 :: pstore where
  "demo_a3 = snd (ps_alloc (Some demo_page) demo_a1)"

lemma demo3_store: "store_at demo_b demo3 demo_a3" "ps_live demo_a3 1" "ps_live demo_a3 2"
proof -
  have "ps_free demo_a1 = []" "ps_size demo_a1 < MAX_PAGES"
    by (simp_all add: demo_a1_def MAX_PAGES_def)
  then obtain s where s: "alloc_page (Some demo_page) (Some demo_b) demo1 = (STATUS_OK, word_of_nat 2, s)"
    "store_at demo_b s demo_a3"
    using sim_alloc_nil [OF demo1_store, of "Some demo_page"] by (auto simp: demo_a1_def demo_a3_def)
  then show "store_at demo_b demo3 demo_a3" by (simp add: demo3_def alloc_step_def)
qed (simp_all add: demo_a3_def ps_alloc_def demo_a1_def ps_live_def)

abbreviation demo_libs :: "(i64 \<times> i64) list libs" where
  "demo_libs \<equiv> alist_libs [100, 200]"

definition demo_man :: "(i64 \<times> i64) list buffer_manager" where
  "demo_man = projr (buff_init demo_libs 8192 4096 (Some demo_b) (int 3))"

lemma demo_man_init:
  "buff_init demo_libs 8192 4096 (Some demo_b) (int 3) = Inr demo_man" "free_head demo_man 0"
  "length (bm_metas demo_man) = 3" "bm_writeback demo_man = 0" "bm_store demo_man = Some demo_b"
  "bm_lookup demo_man = []" "bm_buffer demo_man = 8192" "bm_metaframes demo_man = 4096"
  "bm_bytes demo_man = replicate 3 zero_mem"
  "i < 3 \<Longrightarrow> bm_metas demo_man ! i = \<lparr>mf_state = FS_UNPINNED, mf_index = 0,
     mf_next = (if Suc i < 3 then meta_ptr demo_man (Suc i) else 0)\<rparr>"
proof -
  obtain m where m: "buff_init demo_libs 8192 4096 (Some demo_b) (int 3) = Inr m" "wf_manager m" "length (bm_metas m) = 3"
    "bm_freelist m = meta_ptr m 0" "bm_writeback m = 0" "bm_store m = Some demo_b" "bm_buffer m = 8192"
    "bm_metaframes m = 4096" "bm_lookup m = gh_new demo_libs" "bm_bytes m = replicate 3 zero_mem"
    "\<And>i. i < 3 \<Longrightarrow> bm_metas m ! i = \<lparr>mf_state = FS_UNPINNED, mf_index = 0,
        mf_next = (if Suc i < 3 then meta_ptr m (Suc i) else 0)\<rparr>"
    using buff_init_ok [of 4096 8192 3 demo_libs "Some demo_b"]
    by (auto simp: SIZEOF_META_FRAME_def PAGESIZE_def)
  then have e: "demo_man = m" by (simp add: demo_man_def)
  show "buff_init demo_libs 8192 4096 (Some demo_b) (int 3) = Inr demo_man" using m(1) by (simp only: e)
  show "bm_lookup demo_man = []" using m(9) by (simp add: e alist_libs_def)
  show "free_head demo_man 0" using m by (simp add: free_head_def e)
  show "i < 3 \<Longrightarrow> bm_metas demo_man ! i = \<lparr>mf_state = FS_UNPINNED, mf_index = 0,
     mf_next = (if Suc i < 3 then meta_ptr demo_man (Suc i) else 0)\<rparr>" using m(11) by (simp only: e)
  show "length (bm_metas demo_man) = 3" "bm_writeback demo_man = 0" "bm_store demo_man = Some demo_b"
    "bm_buffer demo_man = 8192" "bm_metaframes demo_man = 4096" "bm_bytes demo_man = replicate 3 zero_mem"
    using m(3,5-8,10) by (simp_all only: e)
qed

section \<open>Frames and pins\<close>

text \<open>
  C3: A manager that \<open>buff_create\<close> has initialised uses a single frame.  In every session,
  whatever files and hash table do, it stays well-formed, the head of the free list stays
  the first frame, every frame pointer the client gets is the start of the buffer, no other
  frame is ever written, and a pin never reports \<open>STATUS_NO_FREE_FRAMES\<close>.
\<close>

theorem manager_one_frame:
  assumes "buff_init L bufp metap store (int n) = Inr m0" and "metap \<noteq> 0" and "bufp \<noteq> 0" and "0 < n"
    and "unat metap + n * SIZEOF_META_FRAME < 2 ^ 64" and "unat bufp + n * PAGESIZE < 2 ^ 64"
    and "session L m0 m held"
  shows "wf_manager m \<and> bm_freelist m = metap \<and> held \<subseteq> {bufp}
    \<and> (\<forall>j. 0 < j \<longrightarrow> j < n \<longrightarrow> bm_bytes m ! j = zero_mem)
    \<and> (\<forall>ka va out index s st fp m' s'. buff_pin L ka va (Some m) out index s = Inr (st, fp, m', s') \<longrightarrow>
         st \<noteq> STATUS_NO_FREE_FRAMES \<and> (st = STATUS_OK \<longrightarrow> fp = bufp))"
proof -
  obtain m1 where m1: "buff_init L bufp metap store (int n) = Inr m1" "wf_manager m1" "length (bm_metas m1) = n"
    "bm_freelist m1 = meta_ptr m1 0" "bm_buffer m1 = bufp" "bm_metaframes m1 = metap"
    "bm_bytes m1 = replicate n zero_mem"
    using buff_init_ok [OF assms(2-6), of L store] by metis
  then have e: "m1 = m0" using assms(1) by simp
  have c: "confined 0 m0 m held"
    using session_confined [OF assms(7), of 0] m1 assms(4) by (auto simp: e)
  have p: "meta_ptr m0 0 = metap" "frame_ptr m0 (word_of_nat 0) = bufp"
    using m1(5,6) by (simp_all add: e meta_ptr_def frame_ptr_def)
  show ?thesis
    using c confined_pin [OF c] m1(7) p by (fastforce simp: confined_def e)
qed

lemma demo_man_layout: "layout demo_man" "frame_ptr demo_man (word_of_nat 0) = 8192"
  using free_headD(2) [OF demo_man_init(2)] by (simp_all add: frame_ptr_def demo_man_init)

text \<open>The first pin of page 1 by the demo manager.\<close>

lemma demo_pin:
  obtains page t where "page_of page = zero_mem" "map_of t = [1 \<mapsto> 2]"
    "buff_pin demo_libs 1 2 (Some demo_man) 0 1 demo3 =
       Inr (STATUS_OK, 8192, Some (pinned 0 1 1 (loaded t 0 page demo_man)), demo3)"
    "free_head (pinned 0 1 1 (loaded t 0 page demo_man)) 0"
proof -
  have n: "mf_next (bm_metas demo_man ! 0) = meta_ptr demo_man 1" "1 < length (bm_metas demo_man)"
    "map_of (bm_lookup demo_man) 1 = None"
    by (simp_all add: demo_man_init)
  have z: "ps_data demo_a3 1 = zero_mem" by (simp add: demo_a3_def ps_alloc_def demo_a1_def)
  obtain page t where "page_of page = ps_data demo_a3 1" "map_of t = (map_of (bm_lookup demo_man))(1 \<mapsto> 2)"
    "buff_pin demo_libs 1 2 (Some demo_man) 0 (word_of_nat 1) demo3 = Inr (STATUS_OK, frame_ptr demo_man (word_of_nat 0),
       Some (pinned 0 1 (word_of_nat 1) (loaded t 0 page demo_man)), demo3)"
    "free_head (pinned 0 1 (word_of_nat 1) (loaded t 0 page demo_man)) 0"
    by (rule alist.pin_ok [OF demo_man_init(2) n(1,2) demo_man_init(5) demo3_store(1,2) n(3)])
  then show ?thesis using that [of page t] z demo_man_layout(2) by (simp add: demo_man_init)
qed

lemma manager_one_frame_witness:
  "\<exists>m. session demo_libs demo_man m {8192} \<and> wf_manager m \<and> bm_freelist m = 4096
     \<and> bm_bytes m ! 1 = zero_mem"
proof -
  obtain page t where p: "buff_pin demo_libs 1 2 (Some demo_man) 0 1 demo3 =
       Inr (STATUS_OK, 8192, Some (pinned 0 1 1 (loaded t 0 page demo_man)), demo3)"
    by (rule demo_pin)
  let ?m = "pinned 0 1 1 (loaded t 0 page demo_man)"
  have "session demo_libs demo_man ?m {8192}"
    using session.pin [OF session.start p] by simp
  moreover have "wf_manager ?m \<and> bm_freelist ?m = 4096 \<and> bm_bytes ?m ! 1 = zero_mem"
    using manager_one_frame [OF demo_man_init(1) _ _ _ _ _ calculation]
    by (simp add: SIZEOF_META_FRAME_def PAGESIZE_def)
  ultimately show ?thesis by blast
qed

text \<open>
  Two pages pinned one after the other, from different call sites, get the same frame:
  both calls succeed with the same pointer, and the second page overwrites the first.  The
  cause is the assignment that should move the manager to the next free frame and instead
  copies that frame's metadata.
\<close>

theorem pins_share_frame:
  assumes "glib_table L bindings" and "free_head m i"
    and "mf_next (bm_metas m ! i) = meta_ptr m j" "j < length (bm_metas m)" "i \<noteq> j"
    and "mf_next (bm_metas m ! j) = meta_ptr m k" "k < length (bm_metas m)"
    and "bm_store m = Some b" "store_at b s a" "ps_live a p" "ps_live a q"
    and "bindings (bm_lookup m) ka = None" "bindings (bm_lookup m) ka' = None" "ka \<noteq> ka'"
  shows "\<exists>m1 m2 fp. buff_pin L ka va (Some m) out (word_of_nat p) s = Inr (STATUS_OK, fp, Some m1, s)
    \<and> page_of (bm_bytes m1 ! i) = ps_data a p
    \<and> buff_pin L ka' va' (Some m1) out' (word_of_nat q) s = Inr (STATUS_OK, fp, Some m2, s)
    \<and> page_of (bm_bytes m2 ! i) = ps_data a q \<and> mf_index (bm_metas m2 ! i) = word_of_nat q
    \<and> (\<forall>x. x \<noteq> i \<longrightarrow> bm_bytes m2 ! x = bm_bytes m ! x)"
proof -
  note pin = glib_table.pin_ok [OF assms(1)]
  obtain pg t where 1: "page_of pg = ps_data a p" "bindings t = (bindings (bm_lookup m))(ka \<mapsto> va)"
    "buff_pin L ka va (Some m) out (word_of_nat p) s = Inr (STATUS_OK, frame_ptr m (word_of_nat i),
       Some (pinned i j (word_of_nat p) (loaded t i pg m)), s)"
    "free_head (pinned i j (word_of_nat p) (loaded t i pg m)) i"
    by (rule pin [OF assms(2-4,8-10,12)])
  let ?m1 = "pinned i j (word_of_nat p) (loaded t i pg m)"
  note i = free_headD(3,5) [OF assms(2)]
  have n: "mf_next (bm_metas ?m1 ! i) = meta_ptr ?m1 k" "k < length (bm_metas ?m1)" "bm_store ?m1 = Some b"
    "bindings (bm_lookup ?m1) ka' = None"
    using i assms(6-8,13,14) 1(2) by simp_all
  obtain pg' t' where 2: "page_of pg' = ps_data a q"
    "buff_pin L ka' va' (Some ?m1) out' (word_of_nat q) s = Inr (STATUS_OK, frame_ptr ?m1 (word_of_nat i),
       Some (pinned i k (word_of_nat q) (loaded t' i pg' ?m1)), s)"
    by (rule pin [OF 1(4) n(1-3) assms(9,11) n(4)])
  show ?thesis using 1(1,3) 2 i by (intro exI conjI) (assumption | simp)+
qed

lemma pins_share_frame_witness:
  "\<exists>m1 m2 fp. buff_pin demo_libs 1 2 (Some demo_man) 0 1 demo3 = Inr (STATUS_OK, fp, Some m1, demo3)
    \<and> buff_pin demo_libs 3 4 (Some m1) 0 2 demo3 = Inr (STATUS_OK, fp, Some m2, demo3)
    \<and> page_of (bm_bytes m2 ! 0) = page_of demo_page"
proof -
  have n: "mf_next (bm_metas demo_man ! 0) = meta_ptr demo_man 1" "1 < length (bm_metas demo_man)" "(0 :: nat) \<noteq> 1"
    "mf_next (bm_metas demo_man ! 1) = meta_ptr demo_man 2" "2 < length (bm_metas demo_man)"
    "map_of (bm_lookup demo_man) 1 = None" "map_of (bm_lookup demo_man) 3 = None" "(1 :: i64) \<noteq> 3"
    by (simp_all add: demo_man_init numeral_2_eq_2)
  have d: "ps_data demo_a3 2 = page_of demo_page"
    by (simp add: demo_a3_def ps_alloc_def demo_a1_def src_page_def)
  show ?thesis
    using pins_share_frame [OF alist.glib_table_axioms demo_man_init(2) n(1-5) demo_man_init(5) demo3_store n(6-8),
      of "[100, 200]" 2 0 4 0] d by auto
qed

text \<open>
  The pin that meets the last free frame does not report that the frames are used up:
  with a readable page and a call site whose key is not bound it dereferences the null
  \<open>next_free_or_dirty\<close>.
\<close>

theorem pin_last_frame_faults:
  assumes "glib_table L bindings" and "free_head m i" and "mf_next (bm_metas m ! i) = 0"
    and "bm_store m = Some b" "store_at b s a" "ps_live a p" and "bindings (bm_lookup m) ka = None"
  shows "buff_pin L ka va (Some m) out (word_of_nat p) s = Inl NullDeref"
  by (rule glib_table.pin_at_end [OF assms])

definition demo_man1 :: "(i64 \<times> i64) list buffer_manager" where
  "demo_man1 = projr (buff_init demo_libs 8192 4096 (Some demo_b) (int 1))"

lemma demo_man1_init: "free_head demo_man1 0" "mf_next (bm_metas demo_man1 ! 0) = 0"
  "bm_store demo_man1 = Some demo_b" "bm_lookup demo_man1 = []"
proof -
  obtain m where m: "buff_init demo_libs 8192 4096 (Some demo_b) (int 1) = Inr m" "wf_manager m" "length (bm_metas m) = 1"
    "bm_freelist m = meta_ptr m 0" "bm_store m = Some demo_b" "bm_lookup m = gh_new demo_libs"
    "\<And>i. i < 1 \<Longrightarrow> bm_metas m ! i = \<lparr>mf_state = FS_UNPINNED, mf_index = 0,
        mf_next = (if Suc i < 1 then meta_ptr m (Suc i) else 0)\<rparr>"
    using buff_init_ok [of 4096 8192 1 demo_libs "Some demo_b"]
    by (auto simp: SIZEOF_META_FRAME_def PAGESIZE_def)
  then have e: "demo_man1 = m" by (simp add: demo_man1_def)
  show "free_head demo_man1 0" "mf_next (bm_metas demo_man1 ! 0) = 0" "bm_store demo_man1 = Some demo_b"
    "bm_lookup demo_man1 = []"
    using m by (simp_all add: e free_head_def alist_libs_def)
qed

lemma pin_last_frame_faults_witness:
  "buff_pin demo_libs 1 2 (Some demo_man1) 0 (word_of_nat 1) demo3 = Inl NullDeref"
  by (rule pin_last_frame_faults [OF alist.glib_table_axioms demo_man1_init(1-3) demo3_store(1,2)])
     (simp add: demo_man1_init)

text \<open>
  C34: A pin from a call site whose key is still bound (every later one, as unpinning never
  removes a binding) returns the head frame for whatever page is asked, without reading it;
  freeing the frame it returned frees the page the frame was loaded with.
\<close>

theorem stale_pin_frees_other_page:
  assumes "glib_table L bindings" and "free_head m i"
    and "bindings (bm_lookup m) ka = Some v" "v \<noteq> 0" and "index \<noteq> METADATA"
    and "mf_index (bm_metas m ! i) = word_of_nat p"
    and "bm_store m = Some b" "store_at b s a" "ps_live a p"
    and "bindings (bm_lookup m) fresh = None" "malloced L fresh"
  shows "buff_pin L ka va (Some m) out index s = Inr (STATUS_OK, frame_ptr m (word_of_nat i), Some m, s)
    \<and> (\<exists>m' s'. buff_free_frame L fresh (Some m) (frame_ptr m (word_of_nat i)) s = Inr (STATUS_OK, Some m', s')
         \<and> store_at b s' (ps_release p a))"
proof
  show "buff_pin L ka va (Some m) out index s = Inr (STATUS_OK, frame_ptr m (word_of_nat i), Some m, s)"
    by (rule glib_table.pin_hit [OF assms(1-5)])
  obtain m' where "\<And>s. buff_free_frame L fresh (Some m) (frame_ptr m (word_of_nat i)) s =
       (case free_page (bm_store m) (mf_index (bm_metas m ! i)) s of (st, s1) \<Rightarrow> Inr (st, Some m', s1))"
    by (rule glib_table.free_frame [OF assms(1,2) free_headD(3) [OF assms(2)] assms(10,11)]) blast
  then show "\<exists>m' s'. buff_free_frame L fresh (Some m) (frame_ptr m (word_of_nat i)) s = Inr (STATUS_OK, Some m', s')
         \<and> store_at b s' (ps_release p a)"
    using sim_free [OF assms(8,9)] assms(6,7) by auto
qed

lemma stale_pin_frees_other_page_witness:
  "\<exists>m. buff_pin demo_libs 1 2 (Some m) 0 2 demo3 = Inr (STATUS_OK, frame_ptr m (word_of_nat 0), Some m, demo3)
     \<and> (\<exists>m' s'. buff_free_frame demo_libs 100 (Some m) (frame_ptr m (word_of_nat 0)) demo3 = Inr (STATUS_OK, Some m', s')
         \<and> store_at demo_b s' (ps_release 1 demo_a3))"
proof -
  obtain page t where p: "page_of page = zero_mem" "map_of t = [1 \<mapsto> 2]"
    "buff_pin demo_libs 1 2 (Some demo_man) 0 1 demo3 =
       Inr (STATUS_OK, 8192, Some (pinned 0 1 1 (loaded t 0 page demo_man)), demo3)"
    "free_head (pinned 0 1 1 (loaded t 0 page demo_man)) 0"
    by (rule demo_pin)
  let ?m = "pinned 0 1 1 (loaded t 0 page demo_man)"
  have "map_of (bm_lookup ?m) 1 = Some 2" "mf_index (bm_metas ?m ! 0) = word_of_nat 1" "bm_store ?m = Some demo_b"
    "map_of (bm_lookup ?m) 100 = None" "malloced demo_libs 100" "(2 :: i64) \<noteq> METADATA"
    using p(2) by (simp_all add: demo_man_init METADATA_def alist_libs_def)
  then show ?thesis
    by (intro exI [of _ ?m])
       (rule stale_pin_frees_other_page [OF alist.glib_table_axioms p(4), where v = 2], use demo3_store in simp_all)
qed

section \<open>Unpinning and write-back\<close>

text \<open>
  Pinning a page and unpinning it clean gives the frame back as the only free frame, its
  own successor: all others are lost.  From then on any live page can be pinned again, from
  a call site whose key is not bound, always into that frame, and the free list stays so.
\<close>

theorem clean_page_cycle:
  assumes "glib_table L bindings" and "free_head m i"
    and "mf_next (bm_metas m ! i) = meta_ptr m j" "j < length (bm_metas m)"
    and "bm_store m = Some b" "store_at b s a" "ps_live a p"
    and "bindings (bm_lookup m) ka = None" "bindings (bm_lookup m) fresh = None" "fresh \<noteq> ka" "malloced L fresh"
  shows "\<exists>m1 m2 fp. buff_pin L ka va (Some m) out (word_of_nat p) s = Inr (STATUS_OK, fp, Some m1, s)
    \<and> buff_unpin L fresh (Some m1) fp = Inr (STATUS_OK, Some m2)
    \<and> free_head m2 i \<and> mf_next (bm_metas m2 ! i) = meta_ptr m2 i \<and> mf_state (bm_metas m2 ! i) = FS_UNPINNED
    \<and> (\<forall>ka' va' out' q. ps_live a q \<longrightarrow> bindings (bm_lookup m2) ka' = None \<longrightarrow>
         (\<exists>m3. buff_pin L ka' va' (Some m2) out' (word_of_nat q) s = Inr (STATUS_OK, fp, Some m3, s)
            \<and> page_of (bm_bytes m3 ! i) = ps_data a q \<and> mf_next (bm_metas m3 ! i) = meta_ptr m3 i))"
proof -
  note pin = glib_table.pin_ok [OF assms(1)]
  obtain pg t where 1: "bindings t = (bindings (bm_lookup m))(ka \<mapsto> va)"
    "buff_pin L ka va (Some m) out (word_of_nat p) s = Inr (STATUS_OK, frame_ptr m (word_of_nat i),
       Some (pinned i j (word_of_nat p) (loaded t i pg m)), s)"
    "free_head (pinned i j (word_of_nat p) (loaded t i pg m)) i"
    by (rule pin [OF assms(2-8)])
  let ?m1 = "pinned i j (word_of_nat p) (loaded t i pg m)"
  note i = free_headD(3) [OF assms(2)]
  have s1: "mf_state (bm_metas ?m1 ! i) = FS_PINNED" "bindings (bm_lookup ?m1) fresh = None"
    using i assms(9,10) 1(1) by simp_all
  obtain m2 where 2: "buff_unpin L fresh (Some ?m1) (frame_ptr ?m1 (word_of_nat i)) = Inr (STATUS_OK, Some m2)"
    "free_head m2 i" "same_arrays ?m1 m2" "mf_next (bm_metas m2 ! i) = meta_ptr ?m1 i"
    "mf_state (bm_metas m2 ! i) = FS_UNPINNED" "bm_store m2 = bm_store ?m1"
    by (rule glib_table.unpin_clean [OF assms(1) 1(3) s1 assms(11)]) blast
  note e = same_arrays_eqs [OF 2(3)]
  have n2: "mf_next (bm_metas m2 ! i) = meta_ptr m2 i" "i < length (bm_metas m2)" "bm_store m2 = Some b"
    using 2(2,4,6) e assms(5) free_headD(3) [OF 2(2)] by simp_all
  have "\<exists>m3. buff_pin L ka' va' (Some m2) out' (word_of_nat q) s = Inr (STATUS_OK, frame_ptr m (word_of_nat i), Some m3, s)
      \<and> page_of (bm_bytes m3 ! i) = ps_data a q \<and> mf_next (bm_metas m3 ! i) = meta_ptr m3 i"
    if q: "ps_live a q" "bindings (bm_lookup m2) ka' = None" for ka' va' out' q
  proof -
    obtain pg' t' where 3: "page_of pg' = ps_data a q"
      "buff_pin L ka' va' (Some m2) out' (word_of_nat q) s = Inr (STATUS_OK, frame_ptr m2 (word_of_nat i),
         Some (pinned i i (word_of_nat q) (loaded t' i pg' m2)), s)"
      by (rule pin [OF 2(2) n2 assms(6) q])
    then show ?thesis
      using e(3) n2(1,2) free_headD(5) [OF 2(2)]
      by (intro exI [of _ "pinned i i (word_of_nat q) (loaded t' i pg' m2)"]) simp
  qed
  with 1(2) 2 n2(1) show ?thesis
    by (intro exI [of _ ?m1] exI [of _ m2] exI [of _ "frame_ptr m (word_of_nat i)"]) simp
qed

lemma clean_page_cycle_witness:
  "\<exists>m1 m2 fp. buff_pin demo_libs 1 2 (Some demo_man) 0 1 demo3 = Inr (STATUS_OK, fp, Some m1, demo3)
    \<and> buff_unpin demo_libs 100 (Some m1) fp = Inr (STATUS_OK, Some m2)
    \<and> mf_next (bm_metas m2 ! 0) = meta_ptr m2 0"
proof -
  have n: "mf_next (bm_metas demo_man ! 0) = meta_ptr demo_man 1" "1 < length (bm_metas demo_man)"
    "map_of (bm_lookup demo_man) 1 = None" "map_of (bm_lookup demo_man) 100 = None" "(100 :: i64) \<noteq> 1"
    "malloced demo_libs 100"
    by (simp_all add: demo_man_init alist_libs_def)
  show ?thesis
    using clean_page_cycle [OF alist.glib_table_axioms demo_man_init(2) n(1,2) demo_man_init(5) demo3_store(1,2) n(3-6),
      of 2 0] by auto
qed

text \<open>A page pinned, overwritten, marked and unpinned is the whole write-back list.\<close>

lemma dirty_cycle:
  assumes g: "glib_table L bindings" and h: "free_head m i"
    and n: "mf_next (bm_metas m ! i) = meta_ptr m j" "j < length (bm_metas m)"
    and st: "bm_store m = Some b" "store_at b s a" "ps_live a p"
    and k: "bindings (bm_lookup m) ka = None" "bindings (bm_lookup m) fresh = None" "fresh \<noteq> ka" "malloced L fresh"
    and wb: "bm_writeback m = 0"
  obtains m1 m2 m3 fp where "buff_pin L ka va (Some m) out (word_of_nat p) s = Inr (STATUS_OK, fp, Some m1, s)"
    "buff_mark_page (Some (m1\<lparr>bm_bytes := (bm_bytes m1)[i := d]\<rparr>)) fp = Inr (STATUS_OK, Some m2)"
    "buff_unpin L fresh (Some m2) fp = Inr (STATUS_OK, Some m3)"
    "free_head m3 i" "mf_next (bm_metas m3 ! i) = 0" "bm_writeback m3 = meta_ptr m3 i" "bm_store m3 = Some b"
    "dirty_page m3 i = p" "bm_bytes m3 ! i = d"
proof -
  let ?fp = "frame_ptr m (word_of_nat i)"
  obtain pg t where 1: "bindings t = (bindings (bm_lookup m))(ka \<mapsto> va)"
    "buff_pin L ka va (Some m) out (word_of_nat p) s =
       Inr (STATUS_OK, ?fp, Some (pinned i j (word_of_nat p) (loaded t i pg m)), s)"
    "free_head (pinned i j (word_of_nat p) (loaded t i pg m)) i"
    by (rule glib_table.pin_ok [OF g h n st k(1)])
  let ?m1 = "pinned i j (word_of_nat p) (loaded t i pg m)"
  note i = free_headD(3,5) [OF h]
  have st1: "mf_state (bm_metas ?m1 ! i) = FS_PINNED" using i(1) by simp
  obtain m2 where 2: "buff_mark_page (Some (?m1\<lparr>bm_bytes := (bm_bytes ?m1)[i := d]\<rparr>)) (frame_ptr ?m1 (word_of_nat i))
      = Inr (STATUS_OK, Some m2)"
    "free_head m2 i" "same_arrays ?m1 m2" "bm_bytes m2 = (bm_bytes ?m1)[i := d]"
    "bm_metas m2 = (bm_metas ?m1)[i := (bm_metas ?m1 ! i)\<lparr>mf_state := FS_PINNED_DIRTY\<rparr>]"
    "bm_writeback m2 = bm_writeback ?m1" "bm_store m2 = bm_store ?m1" "bm_lookup m2 = bm_lookup ?m1"
    by (rule write_and_mark [OF 1(3) st1])
  have s2: "mf_state (bm_metas m2 ! i) = FS_PINNED_DIRTY" "bindings (bm_lookup m2) fresh = None"
    using 2(5,8) i(1) 1(1) k(2,3) by simp_all
  obtain m3 where 3: "buff_unpin L fresh (Some m2) (frame_ptr m2 (word_of_nat i)) = Inr (STATUS_OK, Some m3)"
    "free_head m3 i" "same_arrays m2 m3" "mf_next (bm_metas m3 ! i) = bm_writeback m2"
    "bm_writeback m3 = meta_ptr m2 i" "bm_bytes m3 = bm_bytes m2"
    "mf_index (bm_metas m3 ! i) = mf_index (bm_metas m2 ! i)" "bm_store m3 = bm_store m2"
    by (rule glib_table.unpin_dirty [OF g 2(2) s2 k(4)]) blast
  have "mf_next (bm_metas m3 ! i) = 0" "bm_writeback m3 = meta_ptr m3 i" "bm_store m3 = Some b"
    "dirty_page m3 i = p" "bm_bytes m3 ! i = d"
    using 3(4-8) 2(4-7) same_arrays_eqs(2) [OF 3(3)] st(1) wb i live_index(2) [OF st(2,3)]
    by (simp_all add: dirty_page_def)
  with 1(2) 2(1) 3(1,2) same_arrays_eqs(3) [OF 2(3)] show ?thesis
    by (intro that [of ?fp ?m1 m2 m3]) simp_all
qed

text \<open>
  C7: The life of a dirty page.  Pinned into a manager whose write-back list is empty,
  overwritten by the client, marked and unpinned, it is on the write-back list; a flush with
  fuel for two rounds or more ends, leaves exactly the client's bytes in the page on disk and
  the frame unpinned.  But the free list has taken over the end of the write-back list: the
  next pin of a page from a call site not yet bound dereferences null.
\<close>

theorem dirty_page_written_back:
  assumes "glib_table L bindings" and "free_head m i"
    and "mf_next (bm_metas m ! i) = meta_ptr m j" "j < length (bm_metas m)"
    and "bm_store m = Some b" "store_at b s a" "ps_live a p"
    and "bindings (bm_lookup m) ka = None" "bindings (bm_lookup m) fresh = None" "fresh \<noteq> ka" "malloced L fresh"
    and "bm_writeback m = 0"
  shows "\<exists>m1 m2 m3 fp. buff_pin L ka va (Some m) out (word_of_nat p) s = Inr (STATUS_OK, fp, Some m1, s)
    \<and> buff_mark_page (Some (m1\<lparr>bm_bytes := (bm_bytes m1)[i := d]\<rparr>)) fp = Inr (STATUS_OK, Some m2)
    \<and> buff_unpin L fresh (Some m2) fp = Inr (STATUS_OK, Some m3)
    \<and> (\<forall>fuel \<ge> 2. \<exists>m4 s'. buff_flush_all fuel (Some m3) s = Inr (STATUS_OK, Some m4, s')
         \<and> store_at b s' (ps_put p d a) \<and> mf_state (bm_metas m4 ! i) = FS_UNPINNED
         \<and> (\<forall>ka' va' out' q. ps_live a q \<longrightarrow> bindings (bm_lookup m4) ka' = None \<longrightarrow>
              buff_pin L ka' va' (Some m4) out' (word_of_nat q) s' = Inl NullDeref))"
proof -
  obtain m1 m2 m3 fp where r: "buff_pin L ka va (Some m) out (word_of_nat p) s = Inr (STATUS_OK, fp, Some m1, s)"
    "buff_mark_page (Some (m1\<lparr>bm_bytes := (bm_bytes m1)[i := d]\<rparr>)) fp = Inr (STATUS_OK, Some m2)"
    "buff_unpin L fresh (Some m2) fp = Inr (STATUS_OK, Some m3)"
    and h: "free_head m3 i"
    and w: "mf_next (bm_metas m3 ! i) = 0" "bm_writeback m3 = meta_ptr m3 i" "bm_store m3 = Some b"
    and c: "dirty_page m3 i = p" "bm_bytes m3 ! i = d"
    by (rule dirty_cycle [OF assms])
  have "\<exists>m4 s'. buff_flush_all fuel (Some m3) s = Inr (STATUS_OK, Some m4, s')
         \<and> store_at b s' (ps_put p d a) \<and> mf_state (bm_metas m4 ! i) = FS_UNPINNED
         \<and> (\<forall>ka' va' out' q. ps_live a q \<longrightarrow> bindings (bm_lookup m4) ka' = None \<longrightarrow>
              buff_pin L ka' va' (Some m4) out' (word_of_nat q) s' = Inl NullDeref)"
    if f: "2 \<le> fuel" for fuel
  proof -
    have lv: "ps_live a (dirty_page m3 i)" using c(1) assms(7) by simp
    obtain m4 s' where 4: "buff_flush_all fuel (Some m3) s = Inr (STATUS_OK, Some m4, s')"
      "store_at b s' (ps_put (dirty_page m3 i) (bm_bytes m3 ! i) a)" "mf_state (bm_metas m4 ! i) = FS_UNPINNED"
      "free_head m4 i" "mf_next (bm_metas m4 ! i) = 0" "bm_store m4 = Some b"
      by (rule flush_one [OF h w assms(6) lv f])
    then show ?thesis
      using c glib_table.pin_at_end [OF assms(1) 4(4-6) 4(2)] by (intro exI [of _ m4] exI [of _ s']) simp
  qed
  with r show ?thesis by (intro exI [of _ m1] exI [of _ m2] exI [of _ m3] exI [of _ fp]) simp
qed

lemma dirty_page_written_back_witness:
  "\<exists>m1 m2 m3 m4 fp s'. buff_pin demo_libs 1 2 (Some demo_man) 0 1 demo3 = Inr (STATUS_OK, fp, Some m1, demo3)
    \<and> buff_mark_page (Some (m1\<lparr>bm_bytes := (bm_bytes m1)[0 := demo_page]\<rparr>)) fp = Inr (STATUS_OK, Some m2)
    \<and> buff_unpin demo_libs 100 (Some m2) fp = Inr (STATUS_OK, Some m3)
    \<and> buff_flush_all 2 (Some m3) demo3 = Inr (STATUS_OK, Some m4, s')
    \<and> store_at demo_b s' (ps_put 1 demo_page demo_a3)"
proof -
  have n: "mf_next (bm_metas demo_man ! 0) = meta_ptr demo_man 1" "1 < length (bm_metas demo_man)"
    "map_of (bm_lookup demo_man) 1 = None" "map_of (bm_lookup demo_man) 100 = None" "(100 :: i64) \<noteq> 1"
    "malloced demo_libs 100"
    by (simp_all add: demo_man_init alist_libs_def)
  show ?thesis
    using dirty_page_written_back [OF alist.glib_table_axioms demo_man_init(2) n(1,2) demo_man_init(5)
        demo3_store(1,2) n(3-6) demo_man_init(4), of 2 0 demo_page] by fastforce
qed

text \<open>
  C8: Flushing a write-back list that ends, with fuel above its length, succeeds and writes
  every frame on it to its page, in list order (so for a page that two frames hold the later
  frame wins); all other pages keep their contents and every frame on the list becomes
  unpinned.  The list itself stays.
\<close>

theorem flush_writes_back:
  assumes "layout m" and "wchain m (bm_writeback m) is" and "bm_store m = Some b" and "store_at b s a"
    and "\<forall>i \<in> set is. ps_live a (dirty_page m i)" and "length is < fuel"
  shows "\<exists>m' s'. buff_flush_all fuel (Some m) s = Inr (STATUS_OK, Some m', s')
    \<and> store_at b s' (write_backs m is a)
    \<and> (\<forall>p. p \<notin> dirty_page m ` set is \<longrightarrow> ps_data (write_backs m is a) p = ps_data a p)
    \<and> (\<forall>i \<in> set is. mf_state (bm_metas m' ! i) = FS_UNPINNED)
    \<and> bm_writeback m' = bm_writeback m \<and> wchain m' (bm_writeback m') is"
proof -
  obtain m' s' where f: "flush_loop fuel (bm_writeback m) m s = Inr (m', s')" "store_at b s' (write_backs m is a)"
    "states_flushed m m'" "\<forall>i \<in> set is. mf_state (bm_metas m' ! i) = FS_UNPINNED"
    using flush_chain [OF assms] by blast
  have "ps_data (write_backs m is a) p = ps_data a p" if "p \<notin> dirty_page m ` set is" for p
    using that by (induction "is" arbitrary: a) (auto simp: write_backs_def ps_put_def)
  with f show ?thesis
    using assms(2) states_flushed_frame(3) [OF f(3)] wchain_flushed [OF f(3)]
    by (auto simp: buff_flush_all_def)
qed

text \<open>A manager with two dirty frames, 1 then 0, for the pages 2 and 1.\<close>

definition demo_dirty :: "(i64 \<times> i64) list buffer_manager" where
  "demo_dirty = demo_man\<lparr>bm_bytes := [demo_page, zero_mem, zero_mem],
     bm_metas := [\<lparr>mf_state = FS_UNPINNED_DIRTY, mf_index = 1, mf_next = 0\<rparr>,
                  \<lparr>mf_state = FS_UNPINNED_DIRTY, mf_index = 2, mf_next = meta_ptr demo_man 0\<rparr>,
                  \<lparr>mf_state = FS_UNPINNED, mf_index = 0, mf_next = 0\<rparr>],
     bm_writeback := meta_ptr demo_man 1\<rparr>"

lemma demo_dirty_ok: "layout demo_dirty" "wchain demo_dirty (bm_writeback demo_dirty) [1, 0]"
  "bm_store demo_dirty = Some demo_b"
  using demo_man_layout(1) demo_man_init(3,5)
  by (simp_all add: demo_dirty_def layout_def meta_ptr_def numeral_3_eq_3)

lemma flush_writes_back_witness:
  "\<exists>m' s'. buff_flush_all 3 (Some demo_dirty) demo3 = Inr (STATUS_OK, Some m', s')
    \<and> store_at demo_b s' (ps_put 1 demo_page (ps_put 2 zero_mem demo_a3))"
proof -
  have "\<forall>i \<in> set [1, 0]. ps_live demo_a3 (dirty_page demo_dirty i)"
    using demo3_store(2,3) by (simp add: dirty_page_def demo_dirty_def)
  from flush_writes_back [OF demo_dirty_ok demo3_store(1) this, of 3] show ?thesis
    by (auto simp: write_backs_def dirty_page_def demo_dirty_def)
qed

text \<open>
  C35: Freeing a frame that is still at the head of the write-back list (such as the frame
  that a stale pin hands out) links the frame to itself, as it is the head of the free list,
  too.  After that \<open>buff_flush_all\<close> and \<open>buff_destroy\<close> never return: no fuel is enough,
  whatever the files do.
\<close>

theorem free_dirty_frame_loops:
  assumes "glib_table L bindings" and "free_head m i" and "bm_writeback m = bm_freelist m"
    and "mf_index (bm_metas m ! i) = word_of_nat p"
    and "bm_store m = Some b" "store_at b s a" "ps_live a p"
    and "bindings (bm_lookup m) fresh = None" "malloced L fresh"
  shows "\<exists>m' s'. buff_free_frame L fresh (Some m) (frame_ptr m (word_of_nat i)) s = Inr (STATUS_OK, Some m', s')
    \<and> (\<forall>fuel t. buff_flush_all fuel (Some m') t = Inl OutOfFuel
               \<and> buff_destroy L fuel (Some (Some m')) t = Inl OutOfFuel)"
proof -
  note i = free_headD(2,3,4) [OF assms(2)]
  obtain m' where m': "same_arrays m m'" "bm_freelist m' = meta_ptr m i" "bm_writeback m' = bm_writeback m"
    "mf_next (bm_metas m' ! i) = bm_freelist m"
    "\<And>s. buff_free_frame L fresh (Some m) (frame_ptr m (word_of_nat i)) s =
       (case free_page (bm_store m) (mf_index (bm_metas m ! i)) s of (st, s1) \<Rightarrow> Inr (st, Some m', s1))"
    by (rule glib_table.free_frame [OF assms(1,2) i(2) assms(8,9)]) blast
  have "layout m'" "i < length (bm_metas m')" "mf_next (bm_metas m' ! i) = meta_ptr m' i"
    "bm_writeback m' = meta_ptr m' i"
    using m'(3,4) same_arrays_eqs [OF m'(1)] i assms(3) by simp_all
  then have "flush_loop fuel (bm_writeback m') m' t = Inl OutOfFuel" for fuel t
    using flush_self_loop [of m' i fuel t] by simp
  then show ?thesis
    using m'(5) [of s] sim_free [OF assms(6,7)] assms(4,5)
    by (auto simp: buff_flush_all_def buff_destroy_def)
qed

definition demo_lost :: "(i64 \<times> i64) list buffer_manager" where
  "demo_lost = demo_man\<lparr>bm_writeback := bm_freelist demo_man,
     bm_metas := (bm_metas demo_man)[0 := \<lparr>mf_state = FS_UNPINNED_DIRTY, mf_index = 1, mf_next = 0\<rparr>]\<rparr>"

lemma demo_lost_ok: "free_head demo_lost 0"
proof -
  have a: "same_arrays demo_man demo_lost" by (simp add: same_arrays_def demo_lost_def)
  have "wf_manager demo_lost"
    by (rule wf_managerI [OF _ a])
       (use free_headD(1) [OF demo_man_init(2)] in \<open>auto simp: demo_lost_def wf_manager_def nth_upd\<close>)
  then show ?thesis
    using demo_man_init(2) same_arrays_eqs(2) [OF a] by (simp add: free_head_def demo_lost_def)
qed

lemma free_dirty_frame_loops_witness:
  "\<exists>m' s'. buff_free_frame demo_libs 100 (Some demo_lost) (frame_ptr demo_lost (word_of_nat 0)) demo3
       = Inr (STATUS_OK, Some m', s')
    \<and> (\<forall>fuel t. buff_flush_all fuel (Some m') t = Inl OutOfFuel)"
proof -
  have n: "bm_writeback demo_lost = bm_freelist demo_lost" "mf_index (bm_metas demo_lost ! 0) = word_of_nat 1"
    "bm_store demo_lost = Some demo_b" "map_of (bm_lookup demo_lost) 100 = None" "malloced demo_libs 100"
    by (simp_all add: demo_lost_def demo_man_init alist_libs_def)
  show ?thesis
    using free_dirty_frame_loops [OF alist.glib_table_axioms demo_lost_ok n(1-3) demo3_store(1,2) n(4,5)]
    by blast
qed

section \<open>Creating and destroying\<close>

text \<open>
  \<open>buff_create\<close> never returns: it hands \<open>open_backing\<close> a null store, which that
  function writes through, whatever the name and the files.  The rest of its body would
  return a manager whose free list holds all its frames in order, all unpinned, with an
  empty write-back list and no bindings.
\<close>

theorem buff_create_faults:
  "buff_create L bufp metap name manager frames s = Inl NullDeref
   \<and> (metap \<noteq> 0 \<longrightarrow> bufp \<noteq> 0 \<longrightarrow> 0 < n \<longrightarrow> unat metap + n * SIZEOF_META_FRAME < 2 ^ 64 \<longrightarrow>
      unat bufp + n * PAGESIZE < 2 ^ 64 \<longrightarrow>
      (\<exists>m. buff_init L bufp metap store (int n) = Inr m \<and> wf_manager m
         \<and> wchain m (bm_freelist m) [0..<n] \<and> length (bm_metas m) = n
         \<and> (\<forall>i < n. mf_state (bm_metas m ! i) = FS_UNPINNED)
         \<and> bm_writeback m = 0 \<and> bm_lookup m = gh_new L \<and> bm_store m = store))"
proof (intro conjI impI)
  show "buff_create L bufp metap name manager frames s = Inl NullDeref"
    by (simp add: buff_create_def open_backing_def)
next
  assume "metap \<noteq> 0" "bufp \<noteq> 0" "0 < n" "unat metap + n * SIZEOF_META_FRAME < 2 ^ 64"
    "unat bufp + n * PAGESIZE < 2 ^ 64"
  then obtain m where m: "buff_init L bufp metap store (int n) = Inr m" "wf_manager m" "length (bm_metas m) = n"
    "bm_freelist m = meta_ptr m 0" "bm_writeback m = 0" "bm_store m = store" "bm_lookup m = gh_new L"
    "\<And>i. i < n \<Longrightarrow> bm_metas m ! i = \<lparr>mf_state = FS_UNPINNED, mf_index = 0,
        mf_next = (if Suc i < n then meta_ptr m (Suc i) else 0)\<rparr>"
    by (rule buff_init_ok) blast
  have "wchain m (if i < n then meta_ptr m i else 0) [i..<n]" for i
  proof (induction "n - i" arbitrary: i)
    case (Suc k)
    then have "i < n" "k = n - Suc i" by simp_all
    with Suc.hyps(1) [of "Suc i"] show ?case
      by (simp add: upt_conv_Cons m(3,8))
  qed simp
  from this [of 0] m \<open>0 < n\<close> show "\<exists>m. buff_init L bufp metap store (int n) = Inr m \<and> wf_manager m
         \<and> wchain m (bm_freelist m) [0..<n] \<and> length (bm_metas m) = n
         \<and> (\<forall>i < n. mf_state (bm_metas m ! i) = FS_UNPINNED)
         \<and> bm_writeback m = 0 \<and> bm_lookup m = gh_new L \<and> bm_store m = store"
    by auto
qed

lemma buff_create_faults_witness:
  "buff_create demo_libs 8192 4096 ''db'' None 3 demo3 = Inl NullDeref
   \<and> (\<exists>m. buff_init demo_libs 8192 4096 (Some demo_b) (int 3) = Inr m \<and> wchain m (bm_freelist m) [0..<3])"
  using buff_create_faults [of demo_libs 8192 4096 "''db''" None 3 demo3 3 "Some demo_b"]
  by (auto simp: SIZEOF_META_FRAME_def PAGESIZE_def)

text \<open>
  Destroying a manager that has never pinned a page frees its arrays, closes its store
  and clears the client's pointer.  Once a page has been pinned, the table holds the address
  of a local as a key (no unpin removes it), and destroying the manager passes that address
  to \<open>free\<close>.
\<close>

theorem buff_destroy_outcome:
  assumes "glib_table L bindings" and "layout m" and "wchain m (bm_writeback m) is"
    and "bm_store m = Some b" "store_at b s a" and "\<forall>i \<in> set is. ps_live a (dirty_page m i)" "length is < fuel"
    and "malloced L (bm_metaframes m)" "malloced L (bm_buffer m)"
  shows "((\<forall>k. bindings (bm_lookup m) k = None) \<longrightarrow>
            (\<exists>s'. buff_destroy L fuel (Some (Some m)) s = Inr (STATUS_OK, Some None, s')
               \<and> fd_inode s' (storefd b) = None))
       \<and> (\<forall>k. bindings (bm_lookup m) k \<noteq> None \<longrightarrow> k \<noteq> 0 \<longrightarrow> \<not> malloced L k \<longrightarrow>
            buff_destroy L fuel (Some (Some m)) s = Inl BadFree)"
proof -
  obtain m' s1 where f: "flush_loop fuel (bm_writeback m) m s = Inr (m', s1)" "store_at b s1 (write_backs m is a)"
    "states_flushed m m'"
    using flush_chain [OF assms(2-7)] by blast
  note e = states_flushed_frame [OF f(3)]
  have fr: "free_ptrs L [bm_metaframes m', bm_buffer m'] = Inr ()"
    using assms(8,9) e(1) by (simp add: free_ptrs_def same_arrays_def)
  have "\<exists>s'. close_backing (Some b) s1 = (STATUS_OK, s') \<and> fd_inode s' (storefd b) = None"
    by (rule store_atE [OF f(2)])
       (auto simp: close_backing_def posix_close_def fd_inode_def tick_nil split: if_splits)
  then have "\<exists>s'. buff_destroy L fuel (Some (Some m)) s = Inr (STATUS_OK, Some None, s')
      \<and> fd_inode s' (storefd b) = None" if "\<forall>k. bindings (bm_lookup m) k = None"
    using f(1) fr e(4,6) assms(4) glib_table.destroy_empty [OF assms(1), of "bm_lookup m"] that
    by (auto simp: buff_destroy_def fun_eq_iff)
  moreover have "buff_destroy L fuel (Some (Some m)) s = Inl BadFree"
    if "bindings (bm_lookup m) k \<noteq> None" "k \<noteq> 0" "\<not> malloced L k" for k
    using f(1) fr e(6) glib_table.destroy_bad_key [OF assms(1) that] by (simp add: buff_destroy_def)
  ultimately show ?thesis by blast
qed

lemma buff_destroy_outcome_witness:
  "(\<exists>s'. buff_destroy (alist_libs [4096, 8192]) 1 (Some (Some demo_man)) demo3 = Inr (STATUS_OK, Some None, s'))
   \<and> (\<exists>m1. buff_pin demo_libs 1 2 (Some demo_man) 0 1 demo3 = Inr (STATUS_OK, 8192, Some m1, demo3)
        \<and> buff_destroy (alist_libs [4096, 8192]) 1 (Some (Some m1)) demo3 = Inl BadFree)"
proof -
  have m: "malloced (alist_libs [4096, 8192]) (bm_metaframes demo_man)"
    "malloced (alist_libs [4096, 8192]) (bm_buffer demo_man)" "wchain demo_man (bm_writeback demo_man) []"
    by (simp_all add: alist_libs_def demo_man_init)
  have 1: "\<exists>s'. buff_destroy (alist_libs [4096, 8192]) 1 (Some (Some demo_man)) demo3 = Inr (STATUS_OK, Some None, s')"
    using buff_destroy_outcome [OF alist.glib_table_axioms demo_man_layout(1) m(3) demo_man_init(5) demo3_store(1) _ _ m(1,2)]
    by (auto simp: demo_man_init)
  obtain page t where p: "map_of t = [1 \<mapsto> 2]"
    "buff_pin demo_libs 1 2 (Some demo_man) 0 1 demo3 =
       Inr (STATUS_OK, 8192, Some (pinned 0 1 1 (loaded t 0 page demo_man)), demo3)"
    "free_head (pinned 0 1 1 (loaded t 0 page demo_man)) 0"
    by (rule demo_pin)
  let ?m = "pinned 0 1 1 (loaded t 0 page demo_man)"
  have w: "wchain ?m (bm_writeback ?m) []" "bm_store ?m = Some demo_b" "bm_metaframes ?m = bm_metaframes demo_man"
    "bm_buffer ?m = bm_buffer demo_man" "map_of (bm_lookup ?m) 1 \<noteq> None" "\<not> malloced (alist_libs [4096, 8192]) 1"
    using p(1) by (simp_all add: demo_man_init alist_libs_def) (simp_all add: pinned_def loaded_def demo_man_init)
  have "buff_destroy (alist_libs [4096, 8192]) 1 (Some (Some ?m)) demo3 = Inl BadFree"
    using buff_destroy_outcome [OF alist.glib_table_axioms free_headD(2) [OF p(3)] w(1,2) demo3_store(1), of 1 "[4096, 8192]"]
      m(1,2) w(3-6) by simp
  with 1 p(2) show ?thesis by blast
qed

end
