(* ===== verification/ManagerWorkloads.thy ===== *)
theory ManagerWorkloads
  imports ManagerProperties
begin

text \<open>
  Whole runs of the buffer manager on a store: reading pages one after the other through
  pins and unpins, against reading them from the store directly.
\<close>

section \<open>Reading pages through the manager\<close>

text \<open>A request: the addresses of the two locals of this call of \<open>buff_pin\<close>, what \<open>calloc\<close>
  returns in \<open>buff_unpin\<close>, and the page.\<close>

record request =
  rq_key :: i64
  rq_value :: i64
  rq_fresh :: i64
  rq_page :: nat

text \<open>A client pins the page, copies what it finds in the frame, and unpins the frame; it
  stops at the first status that is not \<open>STATUS_OK\<close>.\<close>

definition read_request ::
  "'h libs \<Rightarrow> request \<Rightarrow> 'h buffer_manager option \<Rightarrow> os \<Rightarrow> (status \<times> mem \<times> 'h buffer_manager option \<times> os) res"
where
  "read_request L r man s =
     bind_res (buff_pin L (rq_key r) (rq_value r) man 0 (word_of_nat (rq_page r)) s) (\<lambda>(st, fp, man1, s1).
       if st \<noteq> STATUS_OK then Inr (st, zero_mem, man1, s1)
       else case man1 of None \<Rightarrow> Inl NullDeref | Some m1 \<Rightarrow>
         bind_res (nth_frame m1 (get_frame_index_from_frame m1 fp)) (\<lambda>i.
         bind_res (buff_unpin L (rq_fresh r) man1 fp) (\<lambda>(st', man2).
           Inr (st', page_of (bm_bytes m1 ! i), man2, s1))))"

primrec read_requests ::
  "'h libs \<Rightarrow> request list \<Rightarrow> 'h buffer_manager option \<Rightarrow> os
   \<Rightarrow> (status \<times> mem list \<times> 'h buffer_manager option \<times> os) res"
where
  "read_requests L [] man s = Inr (STATUS_OK, [], man, s)"
| "read_requests L (r # rs) man s =
     bind_res (read_request L r man s) (\<lambda>(st, page, man1, s1).
       if st \<noteq> STATUS_OK then Inr (st, [], man1, s1)
       else bind_res (read_requests L rs man1 s1) (\<lambda>(st', pages, man2, s2). Inr (st', page # pages, man2, s2)))"

text \<open>The manager between two reads: a frame at the head of the free list whose successor is
  an element of the array.\<close>

definition idle :: "nat \<Rightarrow> 'h buffer_manager \<Rightarrow> bool" where
  "idle i m \<longleftrightarrow> free_head m i \<and> (\<exists>j < length (bm_metas m). mf_next (bm_metas m ! i) = meta_ptr m j)"

context glib_table
begin

text \<open>A request that the table does not know, from a call site of its own.\<close>

definition fresh_request :: "'h \<Rightarrow> request \<Rightarrow> bool" where
  "fresh_request t r \<longleftrightarrow> bindings t (rq_key r) = None \<and> bindings t (rq_fresh r) = None
     \<and> malloced L (rq_fresh r) \<and> \<not> malloced L (rq_key r)"

lemma read_request_ok:
  assumes h: "idle i m" and st: "bm_store m = Some b" "store_at b s a" "ps_live a (rq_page r)"
    and k: "fresh_request (bm_lookup m) r"
  obtains m' where "read_request L r (Some m) s = Inr (STATUS_OK, ps_data a (rq_page r), Some m', s)"
    "idle i m'" "bm_store m' = Some b"
    "bindings (bm_lookup m') = (bindings (bm_lookup m))(rq_key r \<mapsto> rq_value r)"
    "mf_state (bm_metas m' ! i) = FS_UNPINNED" "page_of (bm_bytes m' ! i) = ps_data a (rq_page r)"
proof -
  obtain j where h': "free_head m i" and j: "mf_next (bm_metas m ! i) = meta_ptr m j" "j < length (bm_metas m)"
    using h by (auto simp: idle_def)
  have k': "bindings (bm_lookup m) (rq_key r) = None" "bindings (bm_lookup m) (rq_fresh r) = None"
    "malloced L (rq_fresh r)" "rq_fresh r \<noteq> rq_key r"
    using k by (auto simp: fresh_request_def)
  obtain pg t where 1: "page_of pg = ps_data a (rq_page r)"
    "bindings t = (bindings (bm_lookup m))(rq_key r \<mapsto> rq_value r)"
    "buff_pin L (rq_key r) (rq_value r) (Some m) 0 (word_of_nat (rq_page r)) s = Inr (STATUS_OK, frame_ptr m (word_of_nat i),
       Some (pinned i j (word_of_nat (rq_page r)) (loaded t i pg m)), s)"
    "free_head (pinned i j (word_of_nat (rq_page r)) (loaded t i pg m)) i"
    by (rule pin_ok [OF h' j st k'(1)])
  let ?m1 = "pinned i j (word_of_nat (rq_page r)) (loaded t i pg m)"
  note i = free_headD(3,5) [OF h']
  have s1: "mf_state (bm_metas ?m1 ! i) = FS_PINNED" "bindings (bm_lookup ?m1) (rq_fresh r) = None"
    using i k' 1(2) by simp_all
  obtain m2 where 2: "buff_unpin L (rq_fresh r) (Some ?m1) (frame_ptr ?m1 (word_of_nat i)) = Inr (STATUS_OK, Some m2)"
    "free_head m2 i" "same_arrays ?m1 m2" "mf_next (bm_metas m2 ! i) = meta_ptr ?m1 i"
    "mf_state (bm_metas m2 ! i) = FS_UNPINNED" "bm_store m2 = bm_store ?m1"
    "bindings (bm_lookup m2) = bindings (bm_lookup ?m1)" "bm_bytes m2 = bm_bytes ?m1"
    by (rule unpin_clean [OF 1(4) s1 k'(3)])
  have "idle i m2"
    using 2(2,4) free_headD(3) [OF 2(2)] same_arrays_eqs(2) [OF 2(3)] by (auto simp: idle_def)
  moreover have "get_frame_index_from_frame ?m1 (frame_ptr ?m1 (word_of_nat i)) = word_of_nat i"
    using index_from_frame [OF free_headD(2,3) [OF 1(4)], of 0] by simp
  then have "read_request L r (Some m) s = Inr (STATUS_OK, ps_data a (rq_page r), Some m2, s)"
    using 1(1,3) 2(1) i nth_frame_ok [OF free_headD(2,3) [OF 1(4)]] by (simp add: read_request_def)
  ultimately show ?thesis using that 2(5-8) 1(1,2) st(1) i by simp
qed

lemma read_requests_ok:
  assumes "idle i m" and "bm_store m = Some b" and "store_at b s a"
    and "\<forall>r \<in> set rs. ps_live a (rq_page r) \<and> fresh_request (bm_lookup m) r" and "distinct (map rq_key rs)"
  shows "\<exists>m'. read_requests L rs (Some m) s = Inr (STATUS_OK, map (\<lambda>r. ps_data a (rq_page r)) rs, Some m', s)
    \<and> idle i m'"
  using assms
proof (induction rs arbitrary: m)
  case (Cons r rs)
  obtain m1 where m1: "read_request L r (Some m) s = Inr (STATUS_OK, ps_data a (rq_page r), Some m1, s)"
    "idle i m1" "bm_store m1 = Some b" "bindings (bm_lookup m1) = (bindings (bm_lookup m))(rq_key r \<mapsto> rq_value r)"
    using Cons.prems(4) by (auto intro: read_request_ok [OF Cons.prems(1-3)])
  have "rq_key x \<noteq> rq_key r" if "x \<in> set rs" for x
    using Cons.prems(5) imageI [OF that, of rq_key] by auto
  then have "\<forall>x \<in> set rs. ps_live a (rq_page x) \<and> fresh_request (bm_lookup m1) x"
    using Cons.prems(4) m1(4) by (auto simp: fresh_request_def)
  then obtain m2 where "read_requests L rs (Some m1) s
      = Inr (STATUS_OK, map (\<lambda>r. ps_data a (rq_page r)) rs, Some m2, s)" "idle i m2"
    using Cons.IH [OF m1(2,3) Cons.prems(3)] Cons.prems(5) by auto
  with m1(1) show ?case by simp
qed simp

end

text \<open>
  C21: Reading through the manager refines reading from the store: any number of reads, of any
  live pages in any order, return exactly the pages of the store, as long as the client never
  writes and every call of \<open>buff_pin\<close> has its locals at an address of its own.  All of it
  happens in one frame.
\<close>

theorem clean_reads_refine_store:
  assumes "glib_table L bindings" and "idle i m" and "bm_store m = Some b" and "store_at b s a"
    and "\<forall>r \<in> set rs. ps_live a (rq_page r) \<and> bindings (bm_lookup m) (rq_key r) = None
      \<and> bindings (bm_lookup m) (rq_fresh r) = None \<and> malloced L (rq_fresh r) \<and> \<not> malloced L (rq_key r)"
    and "distinct (map rq_key rs)"
  shows "\<exists>m'. read_requests L rs (Some m) s = Inr (STATUS_OK, map (\<lambda>r. the (read_step b s (rq_page r))) rs, Some m', s)
    \<and> idle i m'"
proof -
  have "map (\<lambda>r. the (read_step b s (rq_page r))) rs = map (\<lambda>r. ps_data a (rq_page r)) rs"
    using assms(5) read_step_ok [OF assms(4)] by simp
  then show ?thesis
    using glib_table.read_requests_ok [OF assms(1-4) _ assms(6)] assms(5)
    by (simp only: glib_table.fresh_request_def [OF assms(1)])
qed

theorem clean_reads_refine_store_witness:
  "\<exists>m'. read_requests demo_libs [\<lparr>rq_key = 1, rq_value = 2, rq_fresh = 100, rq_page = 2\<rparr>,
       \<lparr>rq_key = 3, rq_value = 4, rq_fresh = 200, rq_page = 1\<rparr>] (Some demo_man) demo3
     = Inr (STATUS_OK, [page_of demo_page, zero_mem], Some m', demo3)"
proof -
  have "idle 0 demo_man"
    using demo_man_init(2) by (auto simp: idle_def demo_man_init intro!: exI [of _ 1])
  moreover have "ps_data demo_a3 2 = page_of demo_page" "ps_data demo_a3 1 = zero_mem"
    by (simp_all add: demo_a3_def ps_alloc_def demo_a1_def src_page_def)
  then have "read_step demo_b demo3 2 = Some (page_of demo_page)" "read_step demo_b demo3 1 = Some zero_mem"
    using read_step_ok [OF demo3_store(1)] demo3_store(2,3) by simp_all
  ultimately show ?thesis
    using clean_reads_refine_store [OF alist.glib_table_axioms _ demo_man_init(5) demo3_store(1), of 0
        "[\<lparr>rq_key = 1, rq_value = 2, rq_fresh = 100, rq_page = 2\<rparr>,
          \<lparr>rq_key = 3, rq_value = 4, rq_fresh = 200, rq_page = 1\<rparr>]" "[100, 200]"] demo3_store(2,3)
    by (auto simp: demo_man_init alist_libs_def)
qed

text \<open>
  Reads from one call site do not even succeed.  The locals of \<open>buff_pin\<close> are then at the same
  address each time; after one read, a second one, of any page, finds the binding, gets the
  unpinned frame with the first page in it, and fails with \<open>STATUS_ERR\<close> when it unpins.
\<close>

theorem second_read_from_site_fails:
  assumes "glib_table L bindings" and "idle i m" and "bm_store m = Some b" and "store_at b s a"
    and "ps_live a (rq_page r)" and "bindings (bm_lookup m) (rq_key r) = None" and "rq_value r \<noteq> 0"
    and "bindings (bm_lookup m) (rq_fresh r) = None" "malloced L (rq_fresh r)" "\<not> malloced L (rq_key r)"
  shows "\<exists>m1. read_request L r (Some m) s = Inr (STATUS_OK, ps_data a (rq_page r), Some m1, s)
    \<and> (\<forall>r2 s2. rq_key r2 = rq_key r \<longrightarrow> word_of_nat (rq_page r2) \<noteq> METADATA \<longrightarrow>
         read_request L r2 (Some m1) s2 = Inr (STATUS_ERR, ps_data a (rq_page r), Some m1, s2))"
proof -
  have f: "glib_table.fresh_request L bindings (bm_lookup m) r"
    using assms(6,8-10) by (simp add: glib_table.fresh_request_def [OF assms(1)])
  obtain m1 where m1: "read_request L r (Some m) s = Inr (STATUS_OK, ps_data a (rq_page r), Some m1, s)"
    "idle i m1" "bindings (bm_lookup m1) = (bindings (bm_lookup m))(rq_key r \<mapsto> rq_value r)"
    "mf_state (bm_metas m1 ! i) = FS_UNPINNED" "page_of (bm_bytes m1 ! i) = ps_data a (rq_page r)"
    by (rule glib_table.read_request_ok [OF assms(1-5) f])
  have h: "free_head m1 i" using m1(2) by (simp add: idle_def)
  note i = free_headD(2,3) [OF h]
  have "read_request L r2 (Some m1) s2 = Inr (STATUS_ERR, ps_data a (rq_page r), Some m1, s2)"
    if "rq_key r2 = rq_key r" "word_of_nat (rq_page r2) \<noteq> METADATA" for r2 s2
  proof -
    have "buff_pin L (rq_key r2) (rq_value r2) (Some m1) 0 (word_of_nat (rq_page r2)) s2
        = Inr (STATUS_OK, frame_ptr m1 (word_of_nat i), Some m1, s2)"
      by (rule glib_table.pin_hit [OF assms(1) h _ assms(7) that(2)]) (simp add: m1(3) that(1))
    moreover have "buff_unpin L (rq_fresh r2) (Some m1) (frame_ptr m1 (word_of_nat i)) = Inr (STATUS_ERR, Some m1)"
      using nth_meta_frame_ptr [OF i] m1(4) by (simp add: buff_unpin_def)
    ultimately show ?thesis
      using index_from_frame [OF i, of 0] nth_frame_ok [OF i] m1(5) by (simp add: read_request_def)
  qed
  with m1(1) show ?thesis by blast
qed

theorem second_read_from_site_fails_witness:
  "\<exists>m1. read_request demo_libs \<lparr>rq_key = 1, rq_value = 2, rq_fresh = 100, rq_page = 2\<rparr> (Some demo_man) demo3
      = Inr (STATUS_OK, page_of demo_page, Some m1, demo3)
    \<and> read_request demo_libs \<lparr>rq_key = 1, rq_value = 2, rq_fresh = 200, rq_page = 1\<rparr> (Some m1) demo3
      = Inr (STATUS_ERR, page_of demo_page, Some m1, demo3)"
proof -
  have "idle 0 demo_man"
    using demo_man_init(2) by (auto simp: idle_def demo_man_init intro!: exI [of _ 1])
  moreover have "ps_data demo_a3 2 = page_of demo_page"
    by (simp add: demo_a3_def ps_alloc_def demo_a1_def src_page_def)
  ultimately show ?thesis
    using second_read_from_site_fails [OF alist.glib_table_axioms _ demo_man_init(5) demo3_store(1), of 0
        "\<lparr>rq_key = 1, rq_value = 2, rq_fresh = 100, rq_page = 2\<rparr>" "[100, 200]"] demo3_store(3)
    by (fastforce simp: demo_man_init alist_libs_def METADATA_def)
qed

section \<open>Lost updates\<close>

text \<open>
  C27: Pinning a page while another one is pinned and marked dirty loses the changes, silently: the
  second page replaces the first in their common frame and the frame is clean again, so that
  neither unpinning nor flushing writes anything; every call reports \<open>STATUS_OK\<close>, and the file
  of the store is as it was.
\<close>

theorem pin_loses_dirty_page:
  assumes "glib_table L bindings" and "free_head m i" and "mf_state (bm_metas m ! i) = FS_PINNED_DIRTY"
    and "mf_next (bm_metas m ! i) = meta_ptr m j" "j < length (bm_metas m)" and "bm_writeback m = 0"
    and "bm_store m = Some b" "store_at b s a" "ps_live a q"
    and "bindings (bm_lookup m) ka = None" "bindings (bm_lookup m) fresh = None" "fresh \<noteq> ka" "malloced L fresh"
  shows "\<exists>fp m1 m2. buff_pin L ka va (Some m) out (word_of_nat q) s = Inr (STATUS_OK, fp, Some m1, s)
    \<and> fp = frame_ptr m (word_of_nat i) \<and> page_of (bm_bytes m1 ! i) = ps_data a q
    \<and> mf_state (bm_metas m1 ! i) = FS_PINNED
    \<and> buff_unpin L fresh (Some m1) fp = Inr (STATUS_OK, Some m2)
    \<and> (\<forall>fuel. buff_flush_all (Suc fuel) (Some m2) s = Inr (STATUS_OK, Some m2, s))"
proof -
  obtain pg t where 1: "page_of pg = ps_data a q" "bindings t = (bindings (bm_lookup m))(ka \<mapsto> va)"
    "buff_pin L ka va (Some m) out (word_of_nat q) s = Inr (STATUS_OK, frame_ptr m (word_of_nat i),
       Some (pinned i j (word_of_nat q) (loaded t i pg m)), s)"
    "free_head (pinned i j (word_of_nat q) (loaded t i pg m)) i"
    by (rule glib_table.pin_ok [OF assms(1,2,4,5,7-10)])
  let ?m1 = "pinned i j (word_of_nat q) (loaded t i pg m)"
  note i = free_headD(3,5) [OF assms(2)]
  have s1: "mf_state (bm_metas ?m1 ! i) = FS_PINNED" "bindings (bm_lookup ?m1) fresh = None"
    using i assms(11,12) 1(2) by simp_all
  have n: "nth_meta ?m1 (get_frame_index_from_frame ?m1 (frame_ptr ?m1 (word_of_nat i))) = Inr i"
    by (rule nth_meta_frame_ptr [OF free_headD(2,3) [OF 1(4)]])
  obtain m2 where 2: "buff_unpin L fresh (Some ?m1) (frame_ptr ?m1 (word_of_nat i)) = Inr (STATUS_OK, Some m2)"
    by (rule glib_table.unpin_clean [OF assms(1) 1(4) s1 assms(13)])
  have "bm_writeback m2 = 0"
    using n 2 by (cases rule: buff_unpin_effect) (use s1 assms(6) in auto)
  then have "buff_flush_all (Suc fuel) (Some m2) s = Inr (STATUS_OK, Some m2, s)" for fuel
    by (simp add: buff_flush_all_def)
  with 1(1,3) 2 s1(1) i show ?thesis
    by (intro exI [of _ "frame_ptr m (word_of_nat i)"] exI [of _ ?m1] exI [of _ m2]) simp
qed

theorem pin_loses_dirty_page_witness:
  "\<exists>m0 m m1 m2 fp fp'. buff_pin demo_libs 1 2 (Some demo_man) 0 1 demo3 = Inr (STATUS_OK, fp, Some m0, demo3)
     \<and> buff_mark_page (Some (m0\<lparr>bm_bytes := (bm_bytes m0)[0 := demo_page]\<rparr>)) fp = Inr (STATUS_OK, Some m)
     \<and> buff_pin demo_libs 3 4 (Some m) 0 2 demo3 = Inr (STATUS_OK, fp', Some m1, demo3)
     \<and> buff_unpin demo_libs 100 (Some m1) fp' = Inr (STATUS_OK, Some m2)
     \<and> buff_flush_all 1 (Some m2) demo3 = Inr (STATUS_OK, Some m2, demo3)"
proof -
  obtain page t where p: "map_of t = [1 \<mapsto> 2]"
    "buff_pin demo_libs 1 2 (Some demo_man) 0 1 demo3 =
       Inr (STATUS_OK, 8192, Some (pinned 0 1 1 (loaded t 0 page demo_man)), demo3)"
    "free_head (pinned 0 1 1 (loaded t 0 page demo_man)) 0"
    by (rule demo_pin)
  let ?m0 = "pinned 0 1 1 (loaded t 0 page demo_man)"
  have st: "mf_state (bm_metas ?m0 ! 0) = FS_PINNED" "frame_ptr ?m0 (word_of_nat 0) = 8192"
    using demo_man_layout(2) by (simp_all add: demo_man_init)
  obtain m where m: "buff_mark_page (Some (?m0\<lparr>bm_bytes := (bm_bytes ?m0)[0 := demo_page]\<rparr>)) 8192 = Inr (STATUS_OK, Some m)"
    "free_head m 0" "same_arrays ?m0 m"
    "bm_metas m = (bm_metas ?m0)[0 := (bm_metas ?m0 ! 0)\<lparr>mf_state := FS_PINNED_DIRTY\<rparr>]"
    "bm_writeback m = bm_writeback ?m0" "bm_store m = bm_store ?m0" "bm_lookup m = bm_lookup ?m0"
    by (rule write_and_mark [OF p(3) st(1), of demo_page]) (simp only: st(2))
  have mp: "meta_ptr m x = meta_ptr demo_man x" for x
    using same_arrays_eqs(2) [OF m(3)] by simp
  have n2: "mf_next (bm_metas m ! 0) = meta_ptr m 2" "2 < length (bm_metas m)"
    by (simp_all add: m(4) mp demo_man_init numeral_2_eq_2)
  have n: "mf_state (bm_metas m ! 0) = FS_PINNED_DIRTY" "bm_writeback m = 0" "bm_store m = Some demo_b"
    "map_of (bm_lookup m) 3 = None" "map_of (bm_lookup m) 100 = None" "(100 :: i64) \<noteq> 3" "malloced demo_libs 100"
    using p(1) by (simp_all add: m(4-7) demo_man_init alist_libs_def)
  show ?thesis
    using pin_loses_dirty_page [OF alist.glib_table_axioms m(2) n(1) n2 n(2,3) demo3_store(1,3) n(4-7), of 4 0] p(2) m(1)
    by fastforce
qed

end
