(* ===== verification/ManagerFaults.thy ===== *)
theory ManagerFaults
  imports ManagerProperties
begin

text \<open>
  The buffer manager over files that fail: what a failed pin leaves behind, what flushing
  reports, and what a failed allocation costs.
\<close>

section \<open>Write-back lists under faults\<close>

lemma flush_chain_any:
  assumes "layout m" and "wchain m p is" and "length is < fuel"
  shows "\<exists>m' s'. flush_loop fuel p m s = Inr (m', s')"
  using assms
proof (induction "is" arbitrary: p m s fuel)
  case Nil
  then show ?case by (cases fuel) auto
next
  case (Cons i "is")
  obtain k where k: "fuel = Suc k" "length is < k" using Cons.prems(3) by (cases fuel) auto
  have i: "i < length (bm_metas m)" "p = meta_ptr m i" using Cons.prems(2) by auto
  note lay = Cons.prems(1)
  obtain st s1 where p: "put_page (bm_bytes m ! i) (bm_store m) (mf_index (bm_metas m ! i)) s = (st, s1)"
    by fastforce
  let ?m = "if st = STATUS_OK then set_state i FS_UNPINNED m else m"
  have f: "states_flushed m ?m" by (simp add: states_flushed_one states_flushed_refl)
  have "layout ?m" "wchain ?m (mf_next (bm_metas m ! i)) is"
    using lay Cons.prems(2) same_arrays_eqs(1) [OF states_flushed_frame(1) [OF f]]
    by (simp_all add: wchain_flushed [OF f])
  from Cons.IH [OF this k(2)] show ?case
    unfolding k(1)
    using flush_loop_step [of p m i i s st s1 k] p i meta_ptr_nonzero [OF lay i(1)]
      deref_meta_ptr [OF lay i(1)] index_from_meta [OF lay i(1)] nth_frame_ok [OF lay i(1)] by simp
qed

text \<open>The outcomes of the one or two calls of a write of a page that fails: the seek fails, or it
  succeeds and the write fails or transfers less than the page.\<close>

fun write_fails :: "io_outcome list \<Rightarrow> bool" where
  "write_fails [x] = (x = IO_fail)"
| "write_fails [x, y] = (x \<noteq> IO_fail \<and> transfer y PAGESIZE < PAGESIZE)"
| "write_fails _ = False"

definition no_short :: "io_outcome list \<Rightarrow> bool" where
  "no_short xs = list_all (\<lambda>x. x = IO_ok \<or> x = IO_fail) xs"

lemma write_failsE:
  assumes "write_fails f"
  obtains (seek) "f = [IO_fail]" | (transfer) x y where "f = [x, y]" "x \<noteq> IO_fail" "transfer y PAGESIZE < PAGESIZE"
  using assms by (cases f rule: write_fails.cases) auto

lemma put_page_fails:
  assumes "fd_inode s (storefd b) = Some ino" and "0 < sint (index_to_offset index)"
    and "sched s = f @ rest" and "write_fails f"
  shows "\<exists>st s'. put_page x (Some b) index s = (st, s') \<and> st \<noteq> STATUS_OK \<and> sched s' = rest \<and> fdtab s' = fdtab s
    \<and> (no_short f \<longrightarrow> inodes s' = inodes s)"
proof -
  have nz: "index_to_offset index \<noteq> 0" using assms(2) by auto
  from assms(4) show ?thesis
  proof (cases rule: write_failsE)
    case seek
    then show ?thesis
      using nz assms(3) by (simp add: put_page_def Let_def posix_lseek_def next_outcome_def)
  next
    case (transfer u v)
    then have "put_page x (Some b) index s = (case posix_pwrite (storefd b) x PAGESIZE (index_to_offset index) (tick s) of
        (w, s2) \<Rightarrow> if w \<noteq> int PAGESIZE then (STATUS_BAD_WRITE, s2) else (STATUS_OK, s2))"
      using nz assms(1-3) by (simp add: put_page_def Let_def posix_lseek_def next_outcome_def)
    with transfer assms(1-3) show ?thesis
      by (cases v) (auto simp: posix_pwrite_def Let_def next_outcome_def no_short_def)
  qed
qed

lemma flush_chain_fails:
  assumes "layout m" and "wchain m p is" and "length is < fuel" and "bm_store m = Some b"
    and "fd_inode s (storefd b) = Some ino" and "\<forall>i \<in> set is. 0 < sint (index_to_offset (mf_index (bm_metas m ! i)))"
    and "length fs = length is" and "\<forall>f \<in> set fs. write_fails f" and "sched s = concat fs"
  shows "\<exists>s'. flush_loop fuel p m s = Inr (m, s') \<and> (no_short (sched s) \<longrightarrow> inodes s' = inodes s)"
  using assms
proof (induction "is" arbitrary: p s fs fuel)
  case Nil
  then show ?case by (cases fuel) auto
next
  case (Cons i "is")
  obtain k where k: "fuel = Suc k" "length is < k" using Cons.prems(3) by (cases fuel) auto
  have i: "i < length (bm_metas m)" "p = meta_ptr m i" using Cons.prems(2) by auto
  note lay = Cons.prems(1)
  obtain f gs where f: "fs = f # gs" "length gs = length is" using Cons.prems(7) by (cases fs) auto
  have fs: "sched s = f @ concat gs" "write_fails f" using Cons.prems(8,9) f(1) by simp_all
  have o: "0 < sint (index_to_offset (mf_index (bm_metas m ! i)))" using Cons.prems(6) by simp
  obtain st s1 where put: "put_page (bm_bytes m ! i) (bm_store m) (mf_index (bm_metas m ! i)) s = (st, s1)"
    and s1: "st \<noteq> STATUS_OK" "sched s1 = concat gs" "fdtab s1 = fdtab s" "no_short f \<longrightarrow> inodes s1 = inodes s"
    using put_page_fails [OF Cons.prems(5) o fs, of "bm_bytes m ! i"] Cons.prems(4) by auto
  have "fd_inode s1 (storefd b) = Some ino" using Cons.prems(5) fd_inode_cong [OF s1(3)] by simp
  then have "\<exists>s'. flush_loop k (mf_next (bm_metas m ! i)) m s1 = Inr (m, s') \<and> (no_short (sched s1) \<longrightarrow> inodes s' = inodes s1)"
    using Cons.prems f s1(2) k(2) by (intro Cons.IH) simp_all
  then show ?case
    unfolding k(1)
    using flush_loop_step [of p m i i s st s1 k] put s1 fs(1) i meta_ptr_nonzero [OF lay i(1)]
      deref_meta_ptr [OF lay i(1)] index_from_meta [OF lay i(1)] nth_frame_ok [OF lay i(1)]
    by (auto simp: no_short_def)
qed

lemma alloc_extend_then:
  assumes s: "sched s = IO_ok # IO_ok # IO_ok # rest" "fd_inode s (storefd b) = Some ino"
    and wf: "wf_store (inodes s ino) N []"
  shows "alloc_page None (Some b) s
    = (STATUS_OK, word_of_nat N, (set_file ino (extend_file None N (inodes s ino)) s)\<lparr>sched := rest\<rparr>)"
proof -
  let ?f = "inodes s ino"
  have f: "mp_head (meta ?f) = - 1" "mp_size (meta ?f) = word_of_nat N" "page_fits N"
    using wf by (auto simp: wf_store_def head_ptr_def)
  have len: "PAGESIZE \<le> flen ?f" by (rule wf_store_meta_in_file) (rule wf)
  have "read_into (fbytes ?f) 0 PAGESIZE zero_mem = meta ?f"
    using read_into_page [of ?f 0] by (simp add: meta_def)
  then show ?thesis
    using s f len
    by (simp add: alloc_page_def alloc_extend_def posix_pread_def posix_pwrite_def Let_def
        next_outcome_def tick_def EMPTY_LIST_def sint_page_ptr unat_page_ptr index_to_offset_of_nat min_absorb1
        extend_file_def data_write_def set_file_def write_page_def) (simp add: add.commute)
qed

section \<open>Failed pins\<close>

text \<open>
  C25: A pin whose read fails reports the error but has already bound its key, and the binding
  stays: every later pin from the same call site, of any page, succeeds without reading and
  hands out an unpinned frame whose contents are what the failed read left.
\<close>

theorem failed_pin_binds_key:
  assumes "glib_table L bindings" and "free_head m i" and "bindings (bm_lookup m) ka = None" and "va \<noteq> 0"
    and "index \<noteq> METADATA" and "get_page (bm_bytes m ! i) (bm_store m) index s = (st, page, s1)" and "st \<noteq> STATUS_OK"
  shows "\<exists>m1. buff_pin L ka va (Some m) out index s = Inr (st, out, Some m1, s1)
    \<and> bm_metas m1 = bm_metas m \<and> bm_bytes m1 = (bm_bytes m)[i := page]
    \<and> (\<forall>va' out' index' t. index' \<noteq> METADATA \<longrightarrow>
         buff_pin L ka va' (Some m1) out' index' t = Inr (STATUS_OK, frame_ptr m (word_of_nat i), Some m1, t))"
proof -
  obtain t where t: "gh_insert L (bm_lookup m) ka va = (True, t, [])" "bindings t = (bindings (bm_lookup m))(ka \<mapsto> va)"
    using glib_table.insert_absent [OF assms(1,3)] by blast
  let ?m1 = "loaded t i page m"
  have 1: "buff_pin L ka va (Some m) out index s = Inr (st, out, Some ?m1, s1)"
    using buff_pin_miss [OF free_headD(1,3,4) [OF assms(2)] assms(5)
        glib_table.lookup_absent [OF assms(1,3)] t(1) assms(6)] assms(7) by simp
  have h: "free_head ?m1 i"
    by (rule free_head_update [OF assms(2) same_arrays_pinned(2)]) simp_all
  have "buff_pin L ka va' (Some ?m1) out' index' u = Inr (STATUS_OK, frame_ptr m (word_of_nat i), Some ?m1, u)"
    if "index' \<noteq> METADATA" for va' out' index' u
    using glib_table.pin_hit [OF assms(1) h _ assms(4) that, where ka = ka] t(2) by simp
  with 1 show ?thesis by (intro exI [of _ ?m1]) simp
qed

theorem failed_pin_binds_key_witness:
  "\<exists>m1 t. buff_pin demo_libs 1 2 (Some demo_man) 0 1 (demo3\<lparr>sched := [IO_fail]\<rparr>) = Inr (STATUS_BAD_SEEK, 0, Some m1, t)
     \<and> buff_pin demo_libs 1 2 (Some m1) 0 2 t = Inr (STATUS_OK, frame_ptr demo_man 0, Some m1, t)
     \<and> mf_state (bm_metas m1 ! 0) = FS_UNPINNED"
proof -
  let ?s = "demo3\<lparr>sched := [IO_fail]\<rparr>"
  have g: "get_page (bm_bytes demo_man ! 0) (bm_store demo_man) 1 ?s = (STATUS_BAD_SEEK, bm_bytes demo_man ! 0, tick ?s)"
    by (simp add: get_page_def Let_def posix_lseek_def next_outcome_def demo_man_init index_to_offset_def PAGESIZE_def)
  have n: "map_of (bm_lookup demo_man) 1 = None" "(2 :: i64) \<noteq> 0" "(1 :: i64) \<noteq> METADATA" "(2 :: i64) \<noteq> METADATA"
    "STATUS_BAD_SEEK \<noteq> STATUS_OK"
    by (simp_all add: demo_man_init METADATA_def)
  obtain m1 where "buff_pin demo_libs 1 2 (Some demo_man) 0 1 ?s = Inr (STATUS_BAD_SEEK, 0, Some m1, tick ?s)"
    "bm_metas m1 = bm_metas demo_man"
    "buff_pin demo_libs 1 2 (Some m1) 0 2 (tick ?s) = Inr (STATUS_OK, frame_ptr demo_man (word_of_nat 0), Some m1, tick ?s)"
    using failed_pin_binds_key [OF alist.glib_table_axioms demo_man_init(2) n(1-3) g n(5)] n(4) by blast
  then show ?thesis by (auto simp: demo_man_init)
qed

section \<open>Flushing\<close>

text \<open>
  C39: \<open>buff_flush_all\<close> never reports a failed write.  On a write-back list that ends it returns
  \<open>STATUS_OK\<close> under every schedule of faults, whatever the store.  When the write of every frame
  of the list fails, each in one of the ways it can (the seek fails, the write fails, or the
  write transfers less than the page), it still answers \<open>STATUS_OK\<close> and has changed nothing in
  the manager, so that the pages are still dirty and on the list; nor has it changed a file,
  unless a write was cut short.
\<close>

theorem flush_hides_failures:
  assumes "layout m" and "wchain m (bm_writeback m) is" and "length is < fuel"
  shows "(\<exists>m' s'. buff_flush_all fuel (Some m) s = Inr (STATUS_OK, Some m', s') \<and> states_flushed m m')
    \<and> (bm_store m = Some b \<longrightarrow> fd_inode s (storefd b) \<noteq> None \<longrightarrow>
        (\<forall>i \<in> set is. 0 < sint (index_to_offset (mf_index (bm_metas m ! i)))) \<longrightarrow>
        length fs = length is \<longrightarrow> (\<forall>f \<in> set fs. write_fails f) \<longrightarrow> sched s = concat fs \<longrightarrow>
        (\<exists>s'. buff_flush_all fuel (Some m) s = Inr (STATUS_OK, Some m, s')
           \<and> (no_short (sched s) \<longrightarrow> inodes s' = inodes s)))"
proof (intro conjI impI)
  obtain m' s' where "flush_loop fuel (bm_writeback m) m s = Inr (m', s')"
    using flush_chain_any [OF assms] by blast
  then show "\<exists>m' s'. buff_flush_all fuel (Some m) s = Inr (STATUS_OK, Some m', s') \<and> states_flushed m m'"
    by (auto simp: buff_flush_all_def dest: flush_loop_keeps)
next
  assume h: "bm_store m = Some b" "fd_inode s (storefd b) \<noteq> None"
    "\<forall>i \<in> set is. 0 < sint (index_to_offset (mf_index (bm_metas m ! i)))"
    "length fs = length is" "\<forall>f \<in> set fs. write_fails f" "sched s = concat fs"
  then obtain ino where "fd_inode s (storefd b) = Some ino" by blast
  with flush_chain_fails [OF assms h(1) _ h(3-6)]
  obtain s' where "flush_loop fuel (bm_writeback m) m s = Inr (m, s')" "no_short (sched s) \<longrightarrow> inodes s' = inodes s"
    by blast
  then show "\<exists>s'. buff_flush_all fuel (Some m) s = Inr (STATUS_OK, Some m, s') \<and> (no_short (sched s) \<longrightarrow> inodes s' = inodes s)"
    by (auto simp: buff_flush_all_def)
qed

text \<open>Two dirty frames: the seek of the first write fails; the second write fails, or is cut short.\<close>

theorem flush_hides_failures_witness:
  "(\<exists>s'. buff_flush_all 3 (Some demo_dirty) (demo3\<lparr>sched := [IO_fail, IO_ok, IO_fail]\<rparr>) = Inr (STATUS_OK, Some demo_dirty, s')
     \<and> inodes s' = inodes demo3)
   \<and> (\<exists>s'. buff_flush_all 3 (Some demo_dirty) (demo3\<lparr>sched := [IO_fail, IO_ok, IO_short 7]\<rparr>) = Inr (STATUS_OK, Some demo_dirty, s'))
   \<and> mf_state (bm_metas demo_dirty ! 0) = FS_UNPINNED_DIRTY"
proof -
  have p: "\<forall>i \<in> set [1, 0]. 0 < sint (index_to_offset (mf_index (bm_metas demo_dirty ! i)))"
    by (simp add: demo_dirty_def index_to_offset_def PAGESIZE_def)
  have fd: "fd_inode (demo3\<lparr>sched := xs\<rparr>) (storefd demo_b) \<noteq> None" for xs
    using demo3_store(1) by (auto elim: store_atE)
  have run: "\<exists>s'. buff_flush_all 3 (Some demo_dirty) (demo3\<lparr>sched := concat fs\<rparr>) = Inr (STATUS_OK, Some demo_dirty, s')
      \<and> (no_short (concat fs) \<longrightarrow> inodes s' = inodes demo3)"
    if "length fs = 2" "\<forall>f \<in> set fs. write_fails f" for fs
    using flush_hides_failures [OF demo_dirty_ok(1,2), of 3 "demo3\<lparr>sched := concat fs\<rparr>" demo_b fs] demo_dirty_ok(3) p fd that
    by simp
  show ?thesis
    using run [of "[[IO_fail], [IO_ok, IO_fail]]"] run [of "[[IO_fail], [IO_ok, IO_short 7]]"]
    by (simp add: no_short_def PAGESIZE_def) (simp add: demo_dirty_def)
qed

section \<open>Allocations\<close>

text \<open>
  \<open>buff_alloc_frame\<close> loses a page when the pin fails: the page has been allocated on disk and
  stays allocated, but its number is not given to the client, who can never free it.
\<close>

theorem failed_alloc_frame_leaks:
  assumes "glib_table L bindings" and "free_head m i" and "bindings (bm_lookup m) ka = None"
    and "bm_store m = Some b" and "store_at b (s\<lparr>sched := []\<rparr>) a" and "ps_free a = []" and "ps_size a < MAX_PAGES"
    and "sched s = [IO_ok, IO_ok, IO_ok, IO_fail]"
  shows "\<exists>m1 s'. buff_alloc_frame L ka va (Some m) (Some pf) s = Inr (STATUS_BAD_SEEK, Some pf, Some m1, s')
    \<and> store_at b s' (snd (ps_alloc None a)) \<and> ps_live (snd (ps_alloc None a)) (ps_size a)"
proof -
  let ?s0 = "s\<lparr>sched := []\<rparr>"
  from assms(5) obtain ino where ino: "sched ?s0 = []" "fd_inode ?s0 (storefd b) = Some ino"
    "store_rel (inodes ?s0 ino) a" by (rule store_atE)
  have wf: "wf_store (inodes s ino) (ps_size a) []" using store_relD(1) [OF ino(3)] assms(6) by simp
  let ?g = "extend_file None (ps_size a) (inodes s ino)"
  have 1: "alloc_page None (Some b) s = (STATUS_OK, word_of_nat (ps_size a), (set_file ino ?g s)\<lparr>sched := [IO_fail]\<rparr>)"
    using alloc_extend_then [OF assms(8) _ wf] ino(2) by simp
  have "alloc_page None (Some b) ?s0 = (STATUS_OK, word_of_nat (ps_size a), set_file ino ?g ?s0)"
    using alloc_page_nil [OF ino(1,2)] wf by simp
  then have st: "store_at b (set_file ino ?g ?s0) (snd (ps_alloc None a))"
    using sim_alloc_nil [OF assms(5,7,6), of None] by simp
  have lv: "ps_live (snd (ps_alloc None a)) (ps_size a)"
    using wf assms(6) by (simp add: ps_alloc_def ps_live_def wf_store_def)
  have off: "index_to_offset (word_of_nat (ps_size a)) \<noteq> 0" "word_of_nat (ps_size a) \<noteq> METADATA"
    using live_index(1) [OF st lv] wf page_ptr_inj [of "ps_size a" 0]
    by (auto simp: index_to_offset_of_nat wf_store_def)
  obtain t where t: "gh_insert L (bm_lookup m) ka va = (True, t, [])"
    using glib_table.insert_absent [OF assms(1,3)] by blast
  let ?s1 = "(set_file ino ?g s)\<lparr>sched := [IO_fail]\<rparr>"
  have g: "get_page (bm_bytes m ! i) (bm_store m) (word_of_nat (ps_size a)) ?s1
      = (STATUS_BAD_SEEK, bm_bytes m ! i, tick ?s1)"
    using off(1) assms(4) by (simp add: get_page_def Let_def posix_lseek_def next_outcome_def)
  have e: "tick ?s1 = set_file ino ?g ?s0" by (simp add: tick_def set_file_def)
  have st': "store_at b (tick ?s1) (snd (ps_alloc None a))" using st by (simp only: e)
  show ?thesis
    using 1 st' lv assms(4) buff_pin_miss [OF free_headD(1,3,4) [OF assms(2)] off(2)
        glib_table.lookup_absent [OF assms(1,3)] t g]
    by (simp add: buff_alloc_frame_def)
qed

theorem failed_alloc_frame_leaks_witness:
  "\<exists>m1 s'. buff_alloc_frame demo_libs 1 2 (Some demo_man) (Some (ERR_SET, 0))
        (demo3\<lparr>sched := [IO_ok, IO_ok, IO_ok, IO_fail]\<rparr>)
      = Inr (STATUS_BAD_SEEK, Some (ERR_SET, 0), Some m1, s') \<and> page_live demo_b s' 3"
proof -
  let ?s = "demo3\<lparr>sched := [IO_ok, IO_ok, IO_ok, IO_fail]\<rparr>"
  have "?s\<lparr>sched := []\<rparr> = demo3" using demo3_store(1) by (auto simp: store_at_def)
  moreover have "ps_free demo_a3 = []" "ps_size demo_a3 = 3"
    by (simp_all add: demo_a3_def ps_alloc_def demo_a1_def)
  ultimately show ?thesis
    using failed_alloc_frame_leaks [OF alist.glib_table_axioms demo_man_init(2) _ demo_man_init(5), of 1 ?s demo_a3]
      demo3_store(1) page_live_store_at [of demo_b]
    by (fastforce simp: demo_man_init MAX_PAGES_def)
qed

end
