(* ===== verification/ManagerRecovery.thy ===== *)
theory ManagerRecovery
  imports ManagerFaults StoreCrash
begin

text \<open>
  A flush that lost writes can be repeated.  \<open>buff_flush_all\<close> never takes a frame off the
  write-back list, so that a second flush writes all of them again; a failed or short write
  of the first one has touched the pages of the list only.
\<close>

section \<open>A write under faults\<close>

lemma store_rel_one_page:
  assumes rel: "store_rel f a" and p: "ps_live a p" and len: "flen f \<le> flen g"
    and same: "\<And>q. q \<noteq> p \<Longrightarrow> Suc q * PAGESIZE \<le> flen f \<Longrightarrow> page_at g q = page_at f q"
  shows "store_rel g (a\<lparr>ps_data := (ps_data a)(p := page_at g p)\<rparr>)"
proof (rule store_relI)
  have wf: "wf_store f (ps_size a) (ps_free a)" using rel by (rule store_relD)
  have p': "p \<noteq> 0" "p \<notin> set (ps_free a)" using p by (simp_all add: ps_live_def)
  have m: "meta g = meta f"
    using same [of 0] p'(1) wf_store_meta_in_file [OF wf] read_into_page [of f 0] read_into_page [of g 0]
    by (simp add: meta_def)
  have "chain g (ps_free a) = chain f (ps_free a)"
  proof (rule chain_cong)
    fix q assume q: "q \<in> set (ps_free a)"
    then have "q \<noteq> p" using p'(2) by auto
    then show "link g q = link f q"
      using wf_store_page_in_file [OF wf wf_store_free_page(2) [OF wf q]] by (intro link_page_at same)
  qed
  with wf m len show "wf_store g (ps_size (a\<lparr>ps_data := (ps_data a)(p := page_at g p)\<rparr>))
      (ps_free (a\<lparr>ps_data := (ps_data a)(p := page_at g p)\<rparr>))"
    by (simp add: wf_store_def)
  fix q assume "ps_live (a\<lparr>ps_data := (ps_data a)(p := page_at g p)\<rparr>) q"
  then have q: "ps_live a q" by (simp add: ps_live_def)
  show "page_at g q = ps_data (a\<lparr>ps_data := (ps_data a)(p := page_at g p)\<rparr>) q"
    using same [of q] store_at_fits [OF rel q] store_relD(2) [OF rel q] by auto
qed

lemma put_any_faults:
  assumes "store_at b (calm s) a" and p: "ps_live a p"
    and run: "put_page x (Some b) (word_of_nat p) s = (st, s')"
  shows "\<exists>d. store_at b (calm s') (a\<lparr>ps_data := (ps_data a)(p := d)\<rparr>)"
proof -
  from assms(1) obtain ino where fd: "fd_inode s (storefd b) = Some ino" and rel: "store_rel (inodes s ino) a"
    by (auto elim: store_atE)
  have "page_fits p" using store_at_fits [OF rel p] by simp
  with run have sp: "spares ino {p} s s'" by (rule spares_put_page)
  then have "store_rel (inodes s' ino) (a\<lparr>ps_data := (ps_data a)(p := page_at (inodes s' ino) p)\<rparr>)"
    by (intro store_rel_one_page [OF rel p]) (simp_all add: spares_def)
  moreover have "fd_inode s' (storefd b) = Some ino" using spares_fd [OF sp] fd by simp
  ultimately have "store_at b (calm s') (a\<lparr>ps_data := (ps_data a)(p := page_at (inodes s' ino) p)\<rparr>)"
    by (intro store_atI) simp_all
  then show ?thesis by blast
qed

section \<open>A flush under faults\<close>

lemma flush_chain_faulty:
  assumes "layout m" and "wchain m p is" and "bm_store m = Some b" and "store_at b (calm s) a"
    and "\<forall>i \<in> set is. ps_live a (dirty_page m i)" and "length is < fuel"
  shows "\<exists>m' s' d. flush_loop fuel p m s = Inr (m', s') \<and> store_at b (calm s') (a\<lparr>ps_data := d\<rparr>)
     \<and> states_flushed m m' \<and> (\<forall>q. q \<notin> dirty_page m ` set is \<longrightarrow> d q = ps_data a q)"
  using assms
proof (induction "is" arbitrary: p m s a fuel)
  case Nil
  then show ?case
    by (cases fuel) (auto simp: states_flushed_refl intro!: exI [of _ "ps_data a"])
next
  case (Cons i "is")
  obtain k where k: "fuel = Suc k" "length is < k" using Cons.prems(6) by (cases fuel) auto
  have i: "i < length (bm_metas m)" "p = meta_ptr m i" using Cons.prems(2) by auto
  note lay = Cons.prems(1)
  let ?p = "dirty_page m i"
  obtain st s1 where put: "put_page (bm_bytes m ! i) (Some b) (mf_index (bm_metas m ! i)) s = (st, s1)"
    by fastforce
  let ?m = "if st = STATUS_OK then set_state i FS_UNPINNED m else m"
  have f: "states_flushed m ?m" by (simp add: states_flushed_one states_flushed_refl)
  obtain d where d: "store_at b (calm s1) (a\<lparr>ps_data := (ps_data a)(?p := d)\<rparr>)"
    using put_any_faults [OF Cons.prems(4), of ?p "bm_bytes m ! i" st s1] Cons.prems(5) put
    by (auto simp: dirty_page_def)
  have step: "flush_loop fuel p m s = flush_loop k (mf_next (bm_metas m ! i)) ?m s1"
    unfolding k(1)
    using flush_loop_step [of p m i i s st s1 k] put i Cons.prems(3) meta_ptr_nonzero [OF lay i(1)]
      deref_meta_ptr [OF lay i(1)] index_from_meta [OF lay i(1)] nth_frame_ok [OF lay i(1)] by simp
  have pages: "dirty_page ?m = dirty_page m"
  proof (rule ext)
    show "dirty_page ?m j = dirty_page m j" for j
      using i(1) by (cases "i = j") (auto simp: dirty_page_def)
  qed
  have "\<exists>m' s' e. flush_loop k (mf_next (bm_metas m ! i)) ?m s1 = Inr (m', s')
      \<and> store_at b (calm s') (a\<lparr>ps_data := (ps_data a)(?p := d)\<rparr>\<lparr>ps_data := e\<rparr>) \<and> states_flushed ?m m'
      \<and> (\<forall>q. q \<notin> dirty_page ?m ` set is \<longrightarrow> e q = ps_data (a\<lparr>ps_data := (ps_data a)(?p := d)\<rparr>) q)"
  proof (rule Cons.IH)
    show "layout ?m" using lay same_arrays_eqs(1) [OF states_flushed_frame(1) [OF f]] by simp
    show "wchain ?m (mf_next (bm_metas m ! i)) is" using Cons.prems(2) by (simp add: wchain_flushed [OF f])
    show "\<forall>j \<in> set is. ps_live (a\<lparr>ps_data := (ps_data a)(?p := d)\<rparr>) (dirty_page ?m j)"
      using Cons.prems(5) by (simp only: pages) (simp add: ps_live_def)
  qed (use Cons.prems(3) d k(2) in simp_all)
  then obtain m' s' e where r: "flush_loop k (mf_next (bm_metas m ! i)) ?m s1 = Inr (m', s')"
    "store_at b (calm s') (a\<lparr>ps_data := e\<rparr>)" "states_flushed ?m m'"
    "\<forall>q. q \<notin> dirty_page ?m ` set is \<longrightarrow> e q = ((ps_data a)(?p := d)) q"
    by auto
  have "\<forall>q. q \<notin> dirty_page m ` set (i # is) \<longrightarrow> e q = ps_data a q"
    using r(4) by (simp only: pages) auto
  with step r(1,2) states_flushed_trans [OF f r(3)] show ?case by (auto intro!: exI [of _ e])
qed

text \<open>Writing back forgets what the pages of the list held.\<close>

lemma write_backs_overwrite:
  "(\<And>q. q \<notin> dirty_page m ` set is \<Longrightarrow> d q = ps_data a q)
   \<Longrightarrow> write_backs m is (a\<lparr>ps_data := d\<rparr>) = write_backs m is a"
proof (induction "is" arbitrary: a d)
  case Nil
  then have "d = ps_data a" by auto
  then show ?case by (simp add: write_backs_def)
next
  case (Cons i "is")
  let ?x = "page_of (bm_bytes m ! i)" and ?p = "dirty_page m i"
  have "write_backs m is ((ps_put ?p (bm_bytes m ! i) a)\<lparr>ps_data := d(?p := ?x)\<rparr>)
      = write_backs m is (ps_put ?p (bm_bytes m ! i) a)"
    using Cons.prems by (intro Cons.IH) (auto simp: ps_put_def)
  then show ?case by (simp add: write_backs_def ps_put_def)
qed

section \<open>Property\<close>

text \<open>
  C13: A lost flush is not final.  Flushing a write-back list that ends, under any schedule of
  failed and short transfers, and flushing again once the device works, leaves exactly the
  store of a single fault-free flush, and every frame of the list unpinned: nothing that was
  dirty is lost by the failed writes, although the first flush reports success.
\<close>

theorem second_flush_completes:
  assumes "layout m" and "wchain m (bm_writeback m) is" and "bm_store m = Some b" and "store_at b (calm s) a"
    and "\<forall>i \<in> set is. ps_live a (dirty_page m i)" and "length is < fuel"
  shows "\<exists>m1 s1 m2 s2. buff_flush_all fuel (Some m) s = Inr (STATUS_OK, Some m1, s1)
    \<and> buff_flush_all fuel (Some m1) (calm s1) = Inr (STATUS_OK, Some m2, s2)
    \<and> store_at b s2 (write_backs m is a) \<and> (\<forall>i \<in> set is. mf_state (bm_metas m2 ! i) = FS_UNPINNED)"
proof -
  obtain m1 s1 d where 1: "flush_loop fuel (bm_writeback m) m s = Inr (m1, s1)"
    "store_at b (calm s1) (a\<lparr>ps_data := d\<rparr>)" "states_flushed m m1"
    "\<forall>q. q \<notin> dirty_page m ` set is \<longrightarrow> d q = ps_data a q"
    using flush_chain_faulty [OF assms] by blast
  note fr = states_flushed_frame [OF 1(3)]
  have within: "set is \<subseteq> {..<length (bm_metas m)}"
    using assms(2) by (rule wchain_within)
  have "layout m1" "wchain m1 (bm_writeback m1) is" "bm_store m1 = Some b"
    using assms(1-3) fr(3,4) same_arrays_eqs(1) [OF fr(1)] wchain_flushed [OF 1(3)] by simp_all
  moreover have "\<forall>i \<in> set is. ps_live (a\<lparr>ps_data := d\<rparr>) (dirty_page m1 i)"
    using assms(5) within fr(8) by (auto simp: ps_live_def dirty_page_def)
  ultimately obtain m2 s2 where 2: "flush_loop fuel (bm_writeback m1) m1 (calm s1) = Inr (m2, s2)"
    "store_at b s2 (write_backs m1 is (a\<lparr>ps_data := d\<rparr>))"
    "\<forall>i \<in> set is. mf_state (bm_metas m2 ! i) = FS_UNPINNED"
    using flush_chain [of m1 "bm_writeback m1" "is" b "calm s1" "a\<lparr>ps_data := d\<rparr>" fuel] 1(2) assms(6) by blast
  have "write_backs m1 is (a\<lparr>ps_data := d\<rparr>) = write_backs m is a"
    using write_backs_flushed [OF 1(3) within] write_backs_overwrite [of m "is" d a] 1(4) by simp
  with 1(1) 2 show ?thesis by (auto simp: buff_flush_all_def)
qed

theorem second_flush_completes_witness:
  "\<exists>m1 s1 m2 s2. buff_flush_all 3 (Some demo_dirty) (demo3\<lparr>sched := [IO_fail, IO_ok, IO_short 7]\<rparr>) = Inr (STATUS_OK, Some m1, s1)
    \<and> buff_flush_all 3 (Some m1) (calm s1) = Inr (STATUS_OK, Some m2, s2)
    \<and> store_at demo_b s2 (ps_put 1 demo_page (ps_put 2 zero_mem demo_a3))"
proof -
  let ?s = "demo3\<lparr>sched := [IO_fail, IO_ok, IO_short 7]\<rparr>"
  have c: "store_at demo_b (calm ?s) demo_a3"
    using demo3_store(1) by (auto simp: store_at_def calm_def split: option.splits)
  have l: "\<forall>i \<in> set [1, 0]. ps_live demo_a3 (dirty_page demo_dirty i)"
    using demo3_store(2,3) by (simp add: dirty_page_def demo_dirty_def)
  have w: "write_backs demo_dirty [1, 0] demo_a3 = ps_put 1 demo_page (ps_put 2 zero_mem demo_a3)"
    by (simp add: write_backs_def dirty_page_def demo_dirty_def)
  have "length [1, 0 :: nat] < 3" by simp
  from second_flush_completes [OF demo_dirty_ok c l this] show ?thesis unfolding w by blast
qed

end
