(* ===== verification/BTree.thy ===== *)
theory BTree
  imports ManagerOps
begin

text \<open>
  Model of \<open>src/lib/datastructures/btree.h\<close> and \<open>btree.c\<close>.  A node is a frame of the buffer
  manager read as \<open>int_btree_node\<close>: the page type in the first four bytes, then the array
  \<open>bytes\<close>.  Node, directory and separator pointers are addresses; \<open>poke32\<close> and \<open>poke64\<close> write
  through an address into the manager's buffer.  Functions that only read a key or a page
  take the bytes the pointer points to (\<^const>\<open>None\<close> for a null pointer).  The configuration
  holds the manager its pointer points to.

  \<open>btree_insert\<close> is in the theory \<open>BTreeInsert\<close>.  \<open>btree_get\<close> and \<open>btree_get_root_id\<close> are
  declared and never defined.
\<close>

section \<open>Keys\<close>

text \<open>A comparison takes two keys and their length; its sign is the result.\<close>

type_synonym btree_cmp_keys = "mem option \<Rightarrow> mem option \<Rightarrow> nat \<Rightarrow> int"

text \<open>The loop that looks for the NUL byte; the fuel bounds the bytes it reads.\<close>

fun key_size_loop :: "nat \<Rightarrow> mem \<Rightarrow> nat \<Rightarrow> nat res" where
  "key_size_loop 0 key len = Inl OutOfFuel"
| "key_size_loop (Suc k) key len = (if key len = 0 then Inr len else key_size_loop k key (Suc len))"

definition btree_get_key_sep_size :: "nat \<Rightarrow> mem option \<Rightarrow> i64 res" where
  "btree_get_key_sep_size fuel key =
     (case key of
        None \<Rightarrow> Inr ERR_SET
      | Some m \<Rightarrow> bind_res (key_size_loop fuel m 0) (\<lambda>len. Inr (word_of_nat len)))"

text \<open>\<open>memcmp\<close>: the sign of the first difference, bytes taken unsigned.\<close>

fun memcmp_from :: "mem \<Rightarrow> mem \<Rightarrow> nat \<Rightarrow> nat \<Rightarrow> int" where
  "memcmp_from a b i 0 = 0"
| "memcmp_from a b i (Suc n) =
     (if a i < b i then - 1 else if b i < a i then 1 else memcmp_from a b (Suc i) n)"

definition memcmp :: "mem \<Rightarrow> mem \<Rightarrow> nat \<Rightarrow> int" where
  "memcmp a b n = memcmp_from a b 0 n"

definition btree_default_cmp_keys :: btree_cmp_keys where
  "btree_default_cmp_keys first second len =
     (if len = 0 then 0
      else case (first, second) of
        (Some a, Some b) \<Rightarrow> memcmp a b len
      | _ \<Rightarrow> 0)"

section \<open>Configuration and node layout\<close>

record 'h btree_config =
  bt_manager :: "'h buffer_manager option"
  bt_root :: i64
  bt_key_size :: i64
  bt_comparator :: btree_cmp_keys

text \<open>The address of \<open>((int_btree_node *)node)->bytes[i]\<close>.\<close>

definition node_bytes :: "i64 \<Rightarrow> i64 \<Rightarrow> i64" where
  "node_bytes node i = node + word_of_nat SIZEOF_PAGE_TYPE + i"

definition btree_get_dir_list :: "i64 \<Rightarrow> i64" where
  "btree_get_dir_list node = node_bytes node 0"

definition btree_get_sep_list :: "'h btree_config \<Rightarrow> i64 \<Rightarrow> i64" where
  "btree_get_sep_list config node = node_bytes node (END_OF_PAGE - bt_key_size config)"

definition btree_get_sep :: "'h btree_config \<Rightarrow> i64 \<Rightarrow> i64 \<Rightarrow> i64" where
  "btree_get_sep config node index =
     node_bytes node (START_OF_SEP - bt_key_size config * 2 * (index + ARR_OFFSET))"

definition btree_get_record_list :: "i64 \<Rightarrow> i64" where
  "btree_get_record_list node = node_bytes node 0"

definition btree_get_record_data :: "i64 \<Rightarrow> 16 word \<Rightarrow> i64" where
  "btree_get_record_data node number = node_bytes node (scast number)"

section \<open>Insertion of separators and records\<close>

text \<open>
  \<open>btree_insert_sep_value\<close>: \<open>node\<close> is the page, \<open>stack\<close> the bytes from the address of the
  local \<open>blank\<close> on, which the code compares with (the pointer itself, not the zeroed block
  it points to), and \<open>off\<close> the offset of \<open>sep_start\<close> from the start of the page.  A read
  beyond the page is undefined.
\<close>

fun sep_loop ::
  "nat \<Rightarrow> 'h btree_config \<Rightarrow> mem \<Rightarrow> mem \<Rightarrow> mem \<Rightarrow> i64 \<Rightarrow> i64 \<Rightarrow> bool \<Rightarrow> bool \<Rightarrow> status res"
where
  "sep_loop 0 config stack node sep index off ltflag gtflag = Inl OutOfFuel"
| "sep_loop (Suc k) config stack node sep index off ltflag gtflag =
     (let n = unat (bt_key_size config) in
      if 0 < n \<and> unat off + n > PAGESIZE then Inl WildPointer
      else
        let at = (\<lambda>i. node (unat off + i)) in
        if memcmp stack at n = 0 then Inr STATUS_OK
        else
          let lt = (ltflag \<or> memcmp sep at n < 0); gt = (gtflag \<or> memcmp sep at n > 0) in
          if index mod 2 = 0
          then sep_loop k config stack node sep index (off + RIGHT_SEP (bt_key_size config)) lt gt
          else sep_loop k config stack node sep (index + 1) (btree_get_sep config 0 (index + 1)) lt gt)"

definition btree_insert_sep_value ::
  "nat \<Rightarrow> mem \<Rightarrow> 'h btree_config option \<Rightarrow> mem option \<Rightarrow> mem option \<Rightarrow> status res"
where
  "btree_insert_sep_value fuel stack config node sep =
     (case (node, sep) of
        (Some m, Some v) \<Rightarrow>
          (case config of
             None \<Rightarrow> Inl NullDeref
           | Some c \<Rightarrow> sep_loop fuel c stack m v 0 (btree_get_sep c 0 0) False False)
      | _ \<Rightarrow> Inr STATUS_ERR)"

definition btree_insert_record_value :: "mem option \<Rightarrow> 16 word \<Rightarrow> mem option \<Rightarrow> i64 \<Rightarrow> status" where
  "btree_insert_record_value node number data len =
     (if node = None \<or> RECORD_BOUNDS number then STATUS_ERR
      else if data = None \<and> len \<noteq> 0 then STATUS_ERR
      else STATUS_OK)"

section \<open>Nodes\<close>

text \<open>Writing through a pointer into the buffer; the object written must lie in one frame.\<close>

definition poke :: "nat \<Rightarrow> (mem \<Rightarrow> nat \<Rightarrow> mem) \<Rightarrow> i64 \<Rightarrow> 'h buffer_manager \<Rightarrow> 'h buffer_manager res" where
  "poke sz store p m =
     (if p = 0 then Inl NullDeref
      else let d = unat (p - bm_buffer m); i = d div PAGESIZE; o' = d mod PAGESIZE in
        if i < length (bm_bytes m) \<and> o' + sz \<le> PAGESIZE
        then Inr (m\<lparr>bm_bytes := (bm_bytes m)[i := store (bm_bytes m ! i) o']\<rparr>)
        else Inl WildPointer)"

definition poke32 :: "i64 \<Rightarrow> 32 word \<Rightarrow> 'h buffer_manager \<Rightarrow> 'h buffer_manager res" where
  "poke32 p v m = poke 4 (\<lambda>b a. store32 b a v) p m"

definition poke64 :: "i64 \<Rightarrow> i64 \<Rightarrow> 'h buffer_manager \<Rightarrow> 'h buffer_manager res" where
  "poke64 p v m = poke 8 (\<lambda>b a. store64 b a v) p m"

definition btree_alloc_node ::
  "'h libs \<Rightarrow> i64 \<Rightarrow> i64 \<Rightarrow> 'h btree_config option \<Rightarrow> page_type \<Rightarrow> i64 \<Rightarrow> os
   \<Rightarrow> (status \<times> i64 \<times> 'h btree_config option \<times> os) res"
where
  "btree_alloc_node L ka va config type node s =
     (case config of
        None \<Rightarrow> Inr (STATUS_NO_CONFIG, node, None, s)
      | Some c \<Rightarrow>
          if type \<noteq> DIR_PAGE \<and> type \<noteq> DATA_PAGE then Inr (STATUS_ERR, node, Some c, s)
          else bind_res (buff_alloc_frame L ka va (bt_manager c) (Some (ERR_SET, 0)) s)
            (\<lambda>(frame_alloc, page_frame, man, s1).
              let c1 = c\<lparr>bt_manager := man\<rparr> in
              if frame_alloc \<noteq> STATUS_OK then Inr (frame_alloc, node, Some c1, s1)
              else case (page_frame, man) of
                (Some (_, fp), Some m) \<Rightarrow>
                  bind_res (poke32 fp (page_type_code type) m) (\<lambda>m1.
                    Inr (STATUS_OK, fp, Some (c1\<lparr>bt_manager := Some m1\<rparr>), s1))
              | _ \<Rightarrow> Inl NullDeref))"

definition btree_free_node ::
  "'h libs \<Rightarrow> i64 \<Rightarrow> 'h btree_config option \<Rightarrow> i64 \<Rightarrow> os \<Rightarrow> (status \<times> 'h btree_config option \<times> os) res"
where
  "btree_free_node L fresh config node s =
     (case config of
        None \<Rightarrow> Inr (STATUS_NO_CONFIG, None, s)
      | Some c \<Rightarrow>
          if node = 0 then Inr (STATUS_OK, Some c, s)
          else bind_res (buff_free_frame L fresh (bt_manager c) node s) (\<lambda>(node_free, man, s1).
            Inr (node_free, Some (c\<lparr>bt_manager := man\<rparr>), s1)))"

section \<open>Trees\<close>

text \<open>\<open>config->manager->metaframes[get_frame_index_from_frame(config->manager, node)].index\<close>\<close>

definition page_of_frame :: "'h btree_config \<Rightarrow> i64 \<Rightarrow> i64 res" where
  "page_of_frame c node =
     (case bt_manager c of
        None \<Rightarrow> Inl NullDeref
      | Some m \<Rightarrow> bind_res (nth_meta m (get_frame_index_from_frame m node)) (\<lambda>i.
          Inr (mf_index (bm_metas m ! i))))"

definition poke_node :: "i64 \<Rightarrow> i64 \<Rightarrow> 'h btree_config \<Rightarrow> 'h btree_config res" where
  "poke_node p v c =
     (case bt_manager c of
        None \<Rightarrow> Inl NullDeref
      | Some m \<Rightarrow> bind_res (poke64 p v m) (\<lambda>m1. Inr (c\<lparr>bt_manager := Some m1\<rparr>)))"

definition pick_comparator ::
  "btree_cmp_keys option \<Rightarrow> 'h btree_config \<Rightarrow> 'h btree_config"
where
  "pick_comparator comparator c =
     c\<lparr>bt_comparator := (case comparator of None \<Rightarrow> btree_default_cmp_keys | Some f \<Rightarrow> f)\<rparr>"

text \<open>The end of \<open>btree_create\<close>: the leaf's page number goes into entry 1 of the root's
  page list, and both frames are unpinned, the leaf's first.\<close>

definition create_finish ::
  "'h libs \<Rightarrow> i64 \<Rightarrow> i64 \<Rightarrow> i64 \<Rightarrow> i64 \<Rightarrow> 'h btree_config \<Rightarrow> os \<Rightarrow> (status \<times> 'h btree_config option \<times> os) res"
where
  "create_finish L fresh1 fresh2 root_frame leaf_frame c s =
     bind_res (page_of_frame c leaf_frame) (\<lambda>leaf_page.
     bind_res (poke_node (node_bytes root_frame 0 + 8) leaf_page c) (\<lambda>c1.
     bind_res (buff_unpin L fresh1 (bt_manager c1) leaf_frame) (\<lambda>(leaf_unpin, man1).
       let c2 = c1\<lparr>bt_manager := man1\<rparr> in
       if leaf_unpin \<noteq> STATUS_OK then Inr (leaf_unpin, Some c2, s)
       else bind_res (buff_unpin L fresh2 man1 root_frame) (\<lambda>(root_unpin, man2).
         Inr (root_unpin, Some (c2\<lparr>bt_manager := man2\<rparr>), s)))))"

text \<open>\<open>ka1\<close>, \<open>va1\<close> and \<open>ka2\<close>, \<open>va2\<close> are the addresses of the locals of the two calls of
  \<open>buff_pin\<close>, \<open>fresh1\<close> and \<open>fresh2\<close> what \<open>calloc\<close> returns in the two calls of \<open>buff_unpin\<close>.\<close>

definition btree_create ::
  "'h libs \<Rightarrow> i64 \<Rightarrow> i64 \<Rightarrow> i64 \<Rightarrow> i64 \<Rightarrow> i64 \<Rightarrow> i64 \<Rightarrow> 'h btree_config option \<Rightarrow> 'h buffer_manager option
   \<Rightarrow> i64 \<Rightarrow> btree_cmp_keys option \<Rightarrow> os
   \<Rightarrow> (status \<times> 'h btree_config option \<times> os) res"
where
  "btree_create L ka1 va1 ka2 va2 fresh1 fresh2 config manager key_size comparator s =
     (case config of
        None \<Rightarrow> Inr (STATUS_NO_CONFIG, None, s)
      | Some c \<Rightarrow>
          if manager = None then Inr (STATUS_NO_MANAGER, Some c, s)
          else
            let c1 = c\<lparr>bt_manager := manager, bt_key_size := key_size\<rparr> in
            bind_res (btree_alloc_node L ka1 va1 (Some c1) DIR_PAGE 0 s) (\<lambda>(root_status, root_frame, cr, s1).
              if root_status \<noteq> STATUS_OK then Inr (root_status, cr, s1)
              else case cr of None \<Rightarrow> Inl NullDeref | Some c2 \<Rightarrow>
                bind_res (page_of_frame c2 root_frame) (\<lambda>root.
                  let c3 = pick_comparator comparator (c2\<lparr>bt_root := root\<rparr>) in
                  bind_res (btree_alloc_node L ka2 va2 (Some c3) DATA_PAGE 0 s1)
                    (\<lambda>(leaf_status, leaf_frame, cl, s2).
                      if leaf_status \<noteq> STATUS_OK then Inr (leaf_status, cl, s2)
                      else case cl of None \<Rightarrow> Inl NullDeref | Some c4 \<Rightarrow>
                        create_finish L fresh1 fresh2 root_frame leaf_frame c4 s2))))"

definition btree_open ::
  "'h btree_config option \<Rightarrow> 'h buffer_manager option \<Rightarrow> i64 \<Rightarrow> i64
   \<Rightarrow> btree_cmp_keys option \<Rightarrow> status \<times> 'h btree_config option"
where
  "btree_open config manager root key_size comparator =
     (case config of
        None \<Rightarrow> (STATUS_NO_CONFIG, None)
      | Some c \<Rightarrow>
          if manager = None then (STATUS_NO_MANAGER, Some c)
          else if sint root < sint LOWEST_PAGE \<or> key_size < SMALLEST_KEY_SIZE then (STATUS_ERR, Some c)
          else (STATUS_OK, Some (pick_comparator comparator
                 (c\<lparr>bt_manager := manager, bt_key_size := key_size, bt_root := root\<rparr>))))"

text \<open>\<open>btree_destroy\<close> and \<open>btree_remove\<close> are stubs in the code.\<close>

definition btree_destroy :: "i64 \<Rightarrow> status" where
  "btree_destroy tree = STATUS_OK"

definition btree_remove :: "'h btree_config option \<Rightarrow> status" where
  "btree_remove config = (case config of None \<Rightarrow> STATUS_NO_CONFIG | Some _ \<Rightarrow> STATUS_OK)"

end
