(* ===== verification/BTreeProperties.thy ===== *)
theory BTreeProperties
  imports BTree ManagerProperties
begin

text \<open>
  The properties of \<open>src/lib/datastructures/btree.c\<close>: key length and comparison, the
  placement of separators and records in a node, the search for a separator's place and the
  creation of a tree.
\<close>

section \<open>Keys\<close>

lemma key_size_loop_ok:
  "key (len + d) = 0 \<Longrightarrow> (\<forall>i. len \<le> i \<longrightarrow> i < len + d \<longrightarrow> key i \<noteq> 0) \<Longrightarrow> d < fuel \<Longrightarrow>
   key_size_loop fuel key len = Inr (len + d)"
proof (induction d arbitrary: len fuel)
  case 0
  then show ?case by (cases fuel) simp_all
next
  case (Suc d)
  obtain k where k: "fuel = Suc k" "d < k" using Suc.prems(3) by (cases fuel) auto
  have "key len \<noteq> 0" using Suc.prems(2) by auto
  then show ?case using Suc.IH [of "Suc len" k] Suc.prems k by (simp add: Suc_le_eq)
qed

text \<open>The first \<open>n\<close> bytes of a memory, as numbers.\<close>

definition key_bytes :: "mem \<Rightarrow> nat \<Rightarrow> nat list" where
  "key_bytes m n = map (\<lambda>i. unat (m i)) [0..<n]"

lemma memcmp_from_lex:
  "memcmp_from a b i n = (let xs = map (\<lambda>j. unat (a j)) [i..<i + n]; ys = map (\<lambda>j. unat (b j)) [i..<i + n] in
     if xs = ys then 0 else if (xs, ys) \<in> lexord {(x, y). x < y} then - 1 else 1)"
proof (induction n arbitrary: i)
  case (Suc n)
  have u: "[i..<i + Suc n] = i # [Suc i..<Suc i + n]" by (simp add: upt_conv_Cons)
  show ?case
    unfolding u using Suc.IH [of "Suc i"] by (auto simp: Let_def word_less_nat_alt)
qed simp

lemma memcmp_lex:
  "memcmp a b n = (if key_bytes a n = key_bytes b n then 0
     else if (key_bytes a n, key_bytes b n) \<in> lexord {(x, y). x < y} then - 1 else 1)"
  using memcmp_from_lex [of a b 0 n] by (simp add: memcmp_def key_bytes_def Let_def)

lemma memcmp_lex_trans:
  assumes "memcmp a b n < 0" and "memcmp b c n < 0"
  shows "memcmp a c n < 0"
proof -
  let ?r = "{(x, y :: nat). x < y}"
  have "(key_bytes a n, key_bytes b n) \<in> lexord ?r" "(key_bytes b n, key_bytes c n) \<in> lexord ?r"
    using assms by (simp_all add: memcmp_lex split: if_splits)
  then have "(key_bytes a n, key_bytes c n) \<in> lexord ?r"
    by (rule lexord_trans) (auto simp: trans_def)
  moreover from this have "key_bytes a n \<noteq> key_bytes c n"
    using lexord_irreflexive [of ?r "key_bytes a n"] by auto
  ultimately show ?thesis by (simp add: memcmp_lex)
qed

lemma memcmp_swap: "memcmp b a n = - memcmp a b n"
proof -
  let ?r = "{(x, y :: nat). x < y}"
  have "asym ?r" by (auto intro: asymI)
  then have "(key_bytes a n, key_bytes b n) \<in> lexord ?r \<Longrightarrow> (key_bytes b n, key_bytes a n) \<notin> lexord ?r"
    by (meson asymD lexord_asym)
  moreover have "(key_bytes a n, key_bytes b n) \<in> lexord ?r \<or> key_bytes a n = key_bytes b n
      \<or> (key_bytes b n, key_bytes a n) \<in> lexord ?r"
    by (rule lexord_linear) auto
  ultimately show ?thesis by (auto simp: memcmp_lex)
qed

text \<open>
  The length of a key is the number of bytes before its first NUL, found with any fuel
  above it; the null key gives \<open>ERR_SET\<close>.
\<close>

theorem key_size_of_string:
  assumes "key len = 0" and "\<forall>i < len. key i \<noteq> 0" and "len < fuel"
  shows "btree_get_key_sep_size fuel (Some key) = Inr (word_of_nat len)
       \<and> btree_get_key_sep_size fuel None = Inr ERR_SET"
  using key_size_loop_ok [of key 0 len fuel] assms by (simp add: btree_get_key_sep_size_def)

lemma key_size_of_string_witness:
  "btree_get_key_sep_size 10 (Some (\<lambda>i. if i < 3 then 65 else 0)) = Inr 3
   \<and> btree_get_key_sep_size 10 None = Inr ERR_SET"
  using key_size_of_string [of "\<lambda>i. if i < 3 then 65 else 0" 3 10] by simp

text \<open>
  C36: The default comparison of two keys is the lexicographic order of their first \<open>len\<close>
  bytes, read unsigned: zero exactly for equal keys, antisymmetric and transitive.  A null
  key, however, compares equal to every key.
\<close>

theorem default_comparison_order:
  "(btree_default_cmp_keys (Some a) (Some b) len = 0 \<longleftrightarrow> key_bytes a len = key_bytes b len)
   \<and> (btree_default_cmp_keys (Some a) (Some b) len < 0
        \<longleftrightarrow> (key_bytes a len, key_bytes b len) \<in> lexord {(x, y). x < y})
   \<and> btree_default_cmp_keys (Some b) (Some a) len = - btree_default_cmp_keys (Some a) (Some b) len
   \<and> (btree_default_cmp_keys (Some a) (Some b) len < 0 \<longrightarrow>
        btree_default_cmp_keys (Some b) (Some c) len < 0 \<longrightarrow>
        btree_default_cmp_keys (Some a) (Some c) len < 0)
   \<and> btree_default_cmp_keys None k len = 0 \<and> btree_default_cmp_keys k None len = 0"
proof (cases "len = 0")
  case True
  then show ?thesis by (simp add: btree_default_cmp_keys_def key_bytes_def split: option.split)
next
  case False
  have irr: "(key_bytes a len, key_bytes a len) \<notin> lexord {(x, y). x < y}"
    by (rule lexord_irreflexive) simp
  show ?thesis
    using False memcmp_lex_trans [of a b len c] memcmp_swap [of b a len] memcmp_lex [of a b len] irr
    by (auto simp: btree_default_cmp_keys_def split: option.split if_splits)
qed

lemma default_comparison_order_witness:
  "btree_default_cmp_keys (Some (\<lambda>_. 3)) (Some (\<lambda>_. 255)) 1 < 0"
  using default_comparison_order [of "\<lambda>_. 3" "\<lambda>_. 100" 1 "\<lambda>_. 255" None]
  by (simp add: btree_default_cmp_keys_def memcmp_def)

section \<open>Separators\<close>

text \<open>Slot \<open>index\<close> of the separators, two keys wide, counted down from the end of the page.\<close>

lemma sep_slot:
  assumes n: "unat (bt_key_size c) = n" and b: "n * 2 * (index + 1) \<le> 4092"
  shows "btree_get_sep c 0 (word_of_nat index) = word_of_nat (PAGESIZE - n * 2 * (index + 1))"
proof -
  have k: "bt_key_size c = word_of_nat n" using n by (rule unat_eq_word)
  have "word_of_nat (4092 - n * 2 * (index + 1)) = (word_of_nat 4092 :: i64) - word_of_nat (n * 2 * (index + 1))"
    using b by (rule of_nat_diff)
  moreover have "PAGESIZE - n * 2 * (index + 1) = 4 + (4092 - n * 2 * (index + 1))"
    using b by (simp add: PAGESIZE_def)
  ultimately show ?thesis
    by (simp only: of_nat_add) (simp add: btree_get_sep_def node_bytes_def constant_defs k algebra_simps)
qed

text \<open>The right separator of slot 0 is what \<open>btree_get_sep_list\<close> points to; slots are adjacent.\<close>

lemma sep_slots_adjacent:
  assumes "unat (bt_key_size c) = n" and "n * 2 * (index + 2) \<le> 4092"
  shows "btree_get_sep c node 0 + RIGHT_SEP (bt_key_size c) = btree_get_sep_list c node"
    and "btree_get_sep c node (word_of_nat (Suc index)) + bt_key_size c * 2 = btree_get_sep c node (word_of_nat index)"
  by (simp_all add: btree_get_sep_def btree_get_sep_list_def node_bytes_def constant_defs algebra_simps)

lemma sep_loop_step:
  assumes "unat (bt_key_size c) = n" and "unat off + n \<le> PAGESIZE" and "index mod 2 = 0"
  shows "sep_loop (Suc k) c stack node sep index off lt gt =
    (if key_bytes stack n = key_bytes (\<lambda>i. node (unat off + i)) n then Inr STATUS_OK
     else sep_loop k c stack node sep index (off + bt_key_size c)
       (lt \<or> memcmp sep (\<lambda>i. node (unat off + i)) n < 0) (gt \<or> memcmp sep (\<lambda>i. node (unat off + i)) n > 0))"
  using assms by (simp add: Let_def RIGHT_SEP_def memcmp_lex)

text \<open>
  C37: The search of \<open>btree_insert_sep_value\<close> never looks beyond the first slot: whatever
  separator is to be inserted, it ends at one of the slot's two keys only if that key happens
  to equal the bytes of the local pointer \<open>blank\<close> (the code compares with the pointer, not
  with the zeroed key it points to); otherwise it reads past the end of the page.  In
  particular it does so on an empty node, where an unused separator is all zeros.
\<close>

theorem insert_sep_runs_off_page:
  assumes "unat (bt_key_size c) = n" and "0 < n" and "n * 2 \<le> 4092" and "3 \<le> fuel"
  shows "btree_insert_sep_value fuel stack (Some c) (Some node) (Some sep) =
    (if key_bytes stack n = key_bytes (\<lambda>i. node (PAGESIZE - 2 * n + i)) n
        \<or> key_bytes stack n = key_bytes (\<lambda>i. node (PAGESIZE - n + i)) n
     then Inr STATUS_OK else Inl WildPointer)"
proof -
  obtain k where k: "fuel = Suc (Suc (Suc k))" using assms(4) by (auto simp: numeral_3_eq_3 Suc_le_eq dest!: less_imp_Suc_add)
  have kn: "bt_key_size c = word_of_nat n" using assms(1) by (rule unat_eq_word)
  have o0: "btree_get_sep c 0 0 = word_of_nat (PAGESIZE - 2 * n)"
    using sep_slot [OF assms(1), of 0] assms(3) by (simp add: mult.commute)
  have u: "unat (word_of_nat (PAGESIZE - x) :: i64) = PAGESIZE - x" for x
    by (rule unat_word_of_nat64) (simp add: PAGESIZE_def)
  have n: "2 * n \<le> PAGESIZE" using assms(3) by (simp add: PAGESIZE_def)
  have o1: "word_of_nat (PAGESIZE - 2 * n) + bt_key_size c = word_of_nat (PAGESIZE - n)"
    using n by (simp add: kn flip: of_nat_add)
  have o2: "word_of_nat (PAGESIZE - n) + bt_key_size c = word_of_nat PAGESIZE"
    using n by (simp add: kn flip: of_nat_add)
  have up: "unat (word_of_nat PAGESIZE :: i64) = PAGESIZE" using u [of 0] by simp
  have s3: "sep_loop (Suc k) c stack node sep 0 (word_of_nat PAGESIZE) lt gt = Inl WildPointer" for lt gt
    using assms(1,2) up by (simp add: Let_def)
  have s2: "sep_loop (Suc (Suc k)) c stack node sep 0 (word_of_nat (PAGESIZE - n)) lt gt =
      (if key_bytes stack n = key_bytes (\<lambda>i. node (PAGESIZE - n + i)) n then Inr STATUS_OK else Inl WildPointer)" for lt gt
    by (subst sep_loop_step [OF assms(1)]) (use n in \<open>simp_all only: u o2 s3, simp_all\<close>)
  have s1: "sep_loop (Suc (Suc (Suc k))) c stack node sep 0 (word_of_nat (PAGESIZE - 2 * n)) lt gt =
      (if key_bytes stack n = key_bytes (\<lambda>i. node (PAGESIZE - 2 * n + i)) n then Inr STATUS_OK
       else if key_bytes stack n = key_bytes (\<lambda>i. node (PAGESIZE - n + i)) n then Inr STATUS_OK
       else Inl WildPointer)" for lt gt
    by (subst sep_loop_step [OF assms(1)]) (use n in \<open>simp_all only: u o1 s2, simp_all\<close>)
  show ?thesis by (simp add: btree_insert_sep_value_def o0 k s1 del: sep_loop.simps)
qed

lemma insert_sep_runs_off_page_witness:
  "btree_insert_sep_value 3 (\<lambda>_. 9)
     (Some \<lparr>bt_manager = Some demo_man, bt_root = 1, bt_key_size = 8, bt_comparator = btree_default_cmp_keys\<rparr>)
     (Some zero_mem) (Some demo_page) = Inl WildPointer"
proof -
  have "key_bytes (\<lambda>_. 9) 8 \<noteq> key_bytes (\<lambda>i. zero_mem (k + i)) 8" for k
    by (simp add: key_bytes_def upt_rec)
  then show ?thesis
    using insert_sep_runs_off_page [of "\<lparr>bt_manager = Some demo_man, bt_root = 1, bt_key_size = 8,
      bt_comparator = btree_default_cmp_keys\<rparr>" 8 3 "\<lambda>_. 9" zero_mem demo_page] by simp
qed

section \<open>Creating a tree\<close>

lemma poke_keeps:
  assumes "poke sz store p m = Inr m'" and "free_head m i"
  shows "free_head m' i \<and> same_arrays m m' \<and> bm_metas m' = bm_metas m"
proof -
  from assms(1) have e: "same_arrays m m'" "bm_metas m' = bm_metas m" "bm_freelist m' = bm_freelist m"
    "bm_writeback m' = bm_writeback m"
    by (auto simp: poke_def Let_def same_arrays_def split: if_splits)
  then show ?thesis using free_head_update [OF assms(2) e(1)] by simp
qed

lemma alloc_frame_head:
  assumes h: "free_head m i"
    and r: "buff_alloc_frame L ka va (Some m) (Some pf) s = Inr (STATUS_OK, pf', m', s')"
  shows "\<exists>page m1. pf' = Some (page, frame_ptr m (word_of_nat i)) \<and> m' = Some m1 \<and> free_head m1 i \<and> same_arrays m m1"
proof -
  have c: "confined i m m {}" using h by (simp add: confined_start free_head_def)
  obtain m1 where m1: "m' = Some m1" "confined i m m1 (insert (snd (the pf')) {})"
    "snd (the pf') = frame_ptr m (word_of_nat i)"
    using confined_alloc [OF c r] by auto
  have a: "same_arrays m m1" using m1(2) by (simp add: confined_def)
  have f: "free_head m1 i"
    using m1(2) same_arrays_eqs(2,10) [OF a] by (simp add: confined_def free_head_def)
  have "\<exists>q. pf' = Some q"
    using r by (auto simp: buff_alloc_frame_def bind_res_eq_Inr split: prod.splits if_splits)
  then show ?thesis using m1 a f by (cases pf') auto
qed

lemma alloc_node_head:
  assumes h: "free_head m i" and c: "bt_manager c = Some m"
    and r: "btree_alloc_node L ka va (Some c) type node s = Inr (STATUS_OK, fp, cfg, s')"
  shows "\<exists>c1 m1. cfg = Some c1 \<and> bt_manager c1 = Some m1 \<and> fp = frame_ptr m (word_of_nat i)
    \<and> free_head m1 i \<and> same_arrays m m1"
proof -
  obtain st pf man s1 where b: "buff_alloc_frame L ka va (Some m) (Some (ERR_SET, 0)) s = Inr (st, pf, man, s1)"
    using r c by (auto simp: btree_alloc_node_def bind_res_eq_Inr split: if_splits)
  then have ok: "st = STATUS_OK"
    using r c by (auto simp: btree_alloc_node_def Let_def split: if_splits)
  obtain page m1 where m1: "pf = Some (page, frame_ptr m (word_of_nat i))" "man = Some m1" "free_head m1 i" "same_arrays m m1"
    using alloc_frame_head [OF h b [unfolded ok]] by blast
  then obtain m2 where m2: "poke32 (frame_ptr m (word_of_nat i)) (page_type_code type) m1 = Inr m2"
    "fp = frame_ptr m (word_of_nat i)" "cfg = Some (c\<lparr>bt_manager := Some m2\<rparr>)"
    using r c b ok by (auto simp: btree_alloc_node_def Let_def bind_res_eq_Inr split: if_splits)
  then show ?thesis
    using poke_keeps [OF m2(1) [unfolded poke32_def] m1(3)] same_arrays_trans [OF m1(4)] by auto
qed

text \<open>Unpinning the same frame twice in a row: the second call reports an error.\<close>

lemma unpin_twice:
  assumes wf: "wf_manager m" and i: "i < length (bm_metas m)"
    and 1: "buff_unpin L fresh1 (Some m) (frame_ptr m (word_of_nat i)) = Inr (STATUS_OK, man)"
    and 2: "buff_unpin L fresh2 man (frame_ptr m (word_of_nat i)) = Inr (st, man')"
  shows "st = STATUS_ERR"
proof -
  have n: "nth_meta m (get_frame_index_from_frame m (frame_ptr m (word_of_nat i))) = Inr i"
    by (rule nth_meta_frame_ptr) (use wf_managerD(1) [OF wf] i in auto)
  obtain m1 where m1: "man = Some m1" "same_arrays m m1"
    "mf_state (bm_metas m1 ! i) \<in> {FS_UNPINNED, FS_UNPINNED_DIRTY}"
    using n 1 by (cases rule: buff_unpin_effect) (use i in auto)
  have n1: "nth_meta m1 (get_frame_index_from_frame m1 (frame_ptr m (word_of_nat i))) = Inr i"
    using n same_arrays_eqs [OF m1(2)] by simp
  show ?thesis
    using n1 2 [unfolded m1(1)] by (cases rule: buff_unpin_effect) (use m1(3) in auto)
qed

text \<open>What a creation that returns \<open>STATUS_OK\<close> has gone through.\<close>

lemma btree_create_steps:
  assumes "btree_create L ka1 va1 ka2 va2 fresh1 fresh2 config (Some m) key_size comparator s
      = Inr (STATUS_OK, config', s')"
  obtains c root_frame c2 s1 root leaf_frame c4 s2 where
    "btree_alloc_node L ka1 va1 (Some (c\<lparr>bt_manager := Some m, bt_key_size := key_size\<rparr>)) DIR_PAGE 0 s
       = Inr (STATUS_OK, root_frame, Some c2, s1)"
    "btree_alloc_node L ka2 va2 (Some (pick_comparator comparator (c2\<lparr>bt_root := root\<rparr>))) DATA_PAGE 0 s1
       = Inr (STATUS_OK, leaf_frame, Some c4, s2)"
    "create_finish L fresh1 fresh2 root_frame leaf_frame c4 s2 = Inr (STATUS_OK, config', s')"
proof -
  obtain c where c: "config = Some c" using assms by (cases config) (simp_all add: btree_create_def)
  note r = assms [unfolded btree_create_def c option.case Let_def, simplified]
  from r obtain st root_frame cr s1 where 1:
    "btree_alloc_node L ka1 va1 (Some (c\<lparr>bt_manager := Some m, bt_key_size := key_size\<rparr>)) DIR_PAGE 0 s
       = Inr (st, root_frame, cr, s1)"
    by (auto simp: bind_res_eq_Inr)
  note r1 = r [unfolded 1 bind_res_Inr prod.case]
  have st: "st = STATUS_OK" using r1 by (cases "st = STATUS_OK") simp_all
  obtain c2 where c2: "cr = Some c2" using r1 st by (cases cr) simp_all
  obtain root where root: "page_of_frame c2 root_frame = Inr root"
    using r1 st c2 by (auto simp: bind_res_eq_Inr)
  note r2 = r1 [unfolded st c2 option.case root bind_res_Inr, simplified]
  obtain st2 leaf_frame cl s2 where 2:
    "btree_alloc_node L ka2 va2 (Some (pick_comparator comparator (c2\<lparr>bt_root := root\<rparr>))) DATA_PAGE 0 s1
       = Inr (st2, leaf_frame, cl, s2)"
    using r2 by (auto simp: bind_res_eq_Inr)
  note r3 = r2 [unfolded 2 bind_res_Inr prod.case]
  have st2: "st2 = STATUS_OK" using r3 by (cases "st2 = STATUS_OK") simp_all
  obtain c4 where c4: "cl = Some c4" using r3 st2 by (cases cl) simp_all
  show ?thesis using that [of c root_frame c2 s1 root leaf_frame c4 s2] 1 2 r3 st st2 c2 c4 by simp
qed

lemma create_finish_fails:
  assumes h: "free_head m i" and c: "bt_manager c = Some m"
    and r: "create_finish L fresh1 fresh2 (frame_ptr m (word_of_nat i)) (frame_ptr m (word_of_nat i)) c s
      = Inr (st, config', s')"
  shows "st \<noteq> STATUS_OK"
proof
  assume ok: "st = STATUS_OK"
  let ?fp = "frame_ptr m (word_of_nat i)"
  obtain page c1 where pg: "page_of_frame c ?fp = Inr page" "poke_node (node_bytes ?fp 0 + 8) page c = Inr c1"
    using r by (auto simp: create_finish_def bind_res_eq_Inr)
  obtain m1 where m1: "c1 = c\<lparr>bt_manager := Some m1\<rparr>" "free_head m1 i" "same_arrays m m1"
    using pg(2) c poke_keeps [OF _ h] by (auto simp: poke_node_def poke64_def bind_res_eq_Inr)
  have fp: "frame_ptr m1 (word_of_nat i) = ?fp" using same_arrays_eqs [OF m1(3)] by simp
  note r1 = r [unfolded create_finish_def pg bind_res_Inr m1(1), simplified]
  obtain st1 man1 where u1: "buff_unpin L fresh1 (Some m1) ?fp = Inr (st1, man1)"
    using r1 by (auto simp: bind_res_eq_Inr)
  note r2 = r1 [unfolded u1 bind_res_Inr prod.case Let_def]
  have st1: "st1 = STATUS_OK" using r2 ok by (cases "st1 = STATUS_OK") simp_all
  obtain st2 man2 where u2: "buff_unpin L fresh2 man1 ?fp = Inr (st2, man2)" "st2 = STATUS_OK"
    using r2 st1 ok by (auto simp: bind_res_eq_Inr)
  show False
    using unpin_twice [OF free_headD(1,3) [OF m1(2)], of L fresh1 man1 fresh2 st2 man2] u1 u2 st1 fp by simp
qed

text \<open>An access to the frame \<open>i\<close>, at the offset \<open>off\<close>.\<close>

lemma frame_offset:
  assumes "layout m" and "i < length (bm_metas m)" and "off \<le> PAGESIZE"
  shows "unat (frame_ptr m (word_of_nat i) + word_of_nat off - bm_buffer m) = i * PAGESIZE + off"
    and "frame_ptr m (word_of_nat i) + word_of_nat off \<noteq> 0"
proof -
  have "i * PAGESIZE + PAGESIZE \<le> length (bm_metas m) * PAGESIZE"
    using mult_le_mono1 [of "Suc i" "length (bm_metas m)" PAGESIZE] assms(2) by simp
  then have b: "unat (bm_buffer m) + (i * PAGESIZE + off) < 2 ^ 64" "i * PAGESIZE + off < 2 ^ 64"
    using assms(1,3) unfolding layout_def by linarith+
  have p: "frame_ptr m (word_of_nat i) + word_of_nat off = bm_buffer m + word_of_nat (i * PAGESIZE + off)"
    by (simp add: frame_ptr_def)
  show "unat (frame_ptr m (word_of_nat i) + word_of_nat off - bm_buffer m) = i * PAGESIZE + off"
    using unat_word_of_nat64 [OF b(2)] by (simp add: p)
  show "frame_ptr m (word_of_nat i) + word_of_nat off \<noteq> 0"
    using unat_add_offset [OF b(1)] assms(1) by (auto simp: p layout_def unat_eq_0)
qed

lemma poke_ok:
  assumes "layout m" and "i < length (bm_metas m)" and "off + sz \<le> PAGESIZE" "0 < sz"
  shows "poke sz store (frame_ptr m (word_of_nat i) + word_of_nat off) m
    = Inr (m\<lparr>bm_bytes := (bm_bytes m)[i := store (bm_bytes m ! i) off]\<rparr>)"
  using frame_offset [OF assms(1,2), of off] assms by (simp add: poke_def Let_def layout_def)

lemma poke32_frame:
  "layout m \<Longrightarrow> i < length (bm_metas m) \<Longrightarrow>
   poke32 (frame_ptr m (word_of_nat i)) v m = Inr (m\<lparr>bm_bytes := (bm_bytes m)[i := store32 (bm_bytes m ! i) 0 v]\<rparr>)"
  using poke_ok [of m i 0 4 "\<lambda>b a. store32 b a v"] by (simp add: poke32_def PAGESIZE_def)

lemma poke64_frame:
  "layout m \<Longrightarrow> i < length (bm_metas m) \<Longrightarrow>
   poke64 (frame_ptr m (word_of_nat i) + 12) v m = Inr (m\<lparr>bm_bytes := (bm_bytes m)[i := store64 (bm_bytes m ! i) 12 v]\<rparr>)"
  using poke_ok [of m i 12 8 "\<lambda>b a. store64 b a v"] by (simp add: poke64_def PAGESIZE_def)

lemma free_head_bytes:
  "free_head m i \<Longrightarrow> length bs = length (bm_bytes m) \<Longrightarrow> free_head (m\<lparr>bm_bytes := bs\<rparr>) i"
  by (rule free_head_update) (simp_all add: same_arrays_def)

lemma ptr_bytes [simp]:
  "frame_ptr (m\<lparr>bm_bytes := bs\<rparr>) w = frame_ptr m w" "meta_ptr (m\<lparr>bm_bytes := bs\<rparr>) x = meta_ptr m x"
  by (simp_all add: frame_ptr_def meta_ptr_def)

text \<open>A creation on a working manager and store, both calls of \<open>buff_pin\<close> with their locals
  at the same addresses, step by step.\<close>

lemma alloc_root_node:
  assumes g: "glib_table L bindings" and h: "free_head m i"
    and n: "mf_next (bm_metas m ! i) = meta_ptr m j" "j < length (bm_metas m)"
    and st: "bm_store m = Some b" "store_at b s a" "ps_free a = []" "1 \<le> ps_size a" "ps_size a < MAX_PAGES"
    and k: "bindings (bm_lookup m) ka = None" and c: "bt_manager c = Some m" and ty: "type \<noteq> FREE_PAGE"
  obtains m' s' where "btree_alloc_node L ka va (Some c) type node s
      = Inr (STATUS_OK, frame_ptr m (word_of_nat i), Some (c\<lparr>bt_manager := Some m'\<rparr>), s')"
    "free_head m' i" "same_arrays m m'" "bm_store m' = Some b" "store_at b s' (snd (ps_alloc None a))"
    "mf_index (bm_metas m' ! i) = word_of_nat (ps_size a)" "mf_state (bm_metas m' ! i) = FS_PINNED"
    "bindings (bm_lookup m') = (bindings (bm_lookup m))(ka \<mapsto> va)"
proof -
  obtain s1 where s1: "alloc_page None (Some b) s = (STATUS_OK, word_of_nat (ps_size a), s1)"
    "store_at b s1 (snd (ps_alloc None a))"
    using sim_alloc_nil [OF st(2,5,3)] by blast
  have lv: "ps_live (snd (ps_alloc None a)) (ps_size a)" using st(3,4) by (simp add: ps_alloc_def ps_live_def)
  obtain pg t where p: "bindings t = (bindings (bm_lookup m))(ka \<mapsto> va)"
    "buff_pin L ka va (Some m) 0 (word_of_nat (ps_size a)) s1 = Inr (STATUS_OK, frame_ptr m (word_of_nat i),
       Some (pinned i j (word_of_nat (ps_size a)) (loaded t i pg m)), s1)"
    "free_head (pinned i j (word_of_nat (ps_size a)) (loaded t i pg m)) i"
    by (rule glib_table.pin_ok [OF g h n st(1) s1(2) lv k])
  let ?m = "pinned i j (word_of_nat (ps_size a)) (loaded t i pg m)"
  let ?b = "(bm_bytes ?m)[i := store32 (bm_bytes ?m ! i) 0 (page_type_code type)]"
  have w: "poke32 (frame_ptr m (word_of_nat i)) (page_type_code type) ?m = Inr (?m\<lparr>bm_bytes := ?b\<rparr>)"
    using poke32_frame [OF free_headD(2,3) [OF p(3)], of "page_type_code type"] by simp
  have "type = DIR_PAGE \<or> type = DATA_PAGE" using ty by (cases type) simp_all
  then have r: "btree_alloc_node L ka va (Some c) type node s
      = Inr (STATUS_OK, frame_ptr m (word_of_nat i), Some (c\<lparr>bt_manager := Some (?m\<lparr>bm_bytes := ?b\<rparr>)\<rparr>), s1)"
    using s1(1) p(2) w c st(1) by (auto simp: btree_alloc_node_def buff_alloc_frame_def Let_def)
  show ?thesis
  proof (rule that [OF r])
    show "free_head (?m\<lparr>bm_bytes := ?b\<rparr>) i" by (rule free_head_bytes [OF p(3)]) simp
    show "same_arrays m (?m\<lparr>bm_bytes := ?b\<rparr>)" by (simp add: same_arrays_def pinned_def loaded_def)
  qed (use st(1) s1(2) p(1) free_headD(3) [OF h] in simp_all)
qed

lemma alloc_leaf_node:
  assumes g: "glib_table L bindings" and h: "free_head m i"
    and st: "bm_store m = Some b" "store_at b s a" "ps_free a = []" "1 \<le> ps_size a" "ps_size a < MAX_PAGES"
    and k: "bindings (bm_lookup m) ka = Some v" "v \<noteq> 0" and c: "bt_manager c = Some m" and ty: "type \<noteq> FREE_PAGE"
  obtains m' s' where "btree_alloc_node L ka va (Some c) type node s
      = Inr (STATUS_OK, frame_ptr m (word_of_nat i), Some (c\<lparr>bt_manager := Some m'\<rparr>), s')"
    "free_head m' i" "same_arrays m m'" "bm_metas m' = bm_metas m" "bm_lookup m' = bm_lookup m"
    "load32 (bm_bytes m' ! i) 0 = page_type_code type" "bm_store m' = Some b" "store_at b s' (snd (ps_alloc None a))"
proof -
  obtain s1 where s1: "alloc_page None (Some b) s = (STATUS_OK, word_of_nat (ps_size a), s1)"
    "store_at b s1 (snd (ps_alloc None a))"
    using sim_alloc_nil [OF st(2,5,3)] by blast
  have lv: "ps_live (snd (ps_alloc None a)) (ps_size a)" using st(3,4) by (simp add: ps_alloc_def ps_live_def)
  have p: "buff_pin L ka va (Some m) 0 (word_of_nat (ps_size a)) s1 = Inr (STATUS_OK, frame_ptr m (word_of_nat i), Some m, s1)"
    by (rule glib_table.pin_hit [OF g h k live_index(1) [OF s1(2) lv]])
  let ?b = "(bm_bytes m)[i := store32 (bm_bytes m ! i) 0 (page_type_code type)]"
  have w: "poke32 (frame_ptr m (word_of_nat i)) (page_type_code type) m = Inr (m\<lparr>bm_bytes := ?b\<rparr>)"
    by (rule poke32_frame [OF free_headD(2,3) [OF h]])
  have "type = DIR_PAGE \<or> type = DATA_PAGE" using ty by (cases type) simp_all
  then have r: "btree_alloc_node L ka va (Some c) type node s
      = Inr (STATUS_OK, frame_ptr m (word_of_nat i), Some (c\<lparr>bt_manager := Some (m\<lparr>bm_bytes := ?b\<rparr>)\<rparr>), s1)"
    using s1(1) p w c st(1) by (auto simp: btree_alloc_node_def buff_alloc_frame_def Let_def)
  show ?thesis
  proof (rule that [OF r])
    show "free_head (m\<lparr>bm_bytes := ?b\<rparr>) i" by (rule free_head_bytes [OF h]) simp
    show "same_arrays m (m\<lparr>bm_bytes := ?b\<rparr>)" by (simp add: same_arrays_def)
  qed (use free_headD(3,5) [OF h] st(1) s1(2) in simp_all)
qed

lemma create_finish_run:
  assumes g: "glib_table L bindings" and h: "free_head m i" and c: "bt_manager c = Some m"
    and st: "mf_state (bm_metas m ! i) = FS_PINNED"
    and fr: "bindings (bm_lookup m) fresh1 = None" "malloced L fresh1" "bindings (bm_lookup m) fresh2 = None" "malloced L fresh2"
  obtains m' where "create_finish L fresh1 fresh2 (frame_ptr m (word_of_nat i)) (frame_ptr m (word_of_nat i)) c s
      = Inr (STATUS_ERR, Some (c\<lparr>bt_manager := Some m'\<rparr>), s)"
    "bm_bytes m' ! i = store64 (bm_bytes m ! i) 12 (mf_index (bm_metas m ! i))"
    "free_head m' i" "same_arrays m m'" "mf_next (bm_metas m' ! i) = meta_ptr m' i" "bm_store m' = bm_store m"
    "bindings (bm_lookup m') = bindings (bm_lookup m)"
proof -
  let ?fp = "frame_ptr m (word_of_nat i)" and ?ix = "mf_index (bm_metas m ! i)"
  note i = free_headD(2,3) [OF h]
  let ?m = "m\<lparr>bm_bytes := (bm_bytes m)[i := store64 (bm_bytes m ! i) 12 ?ix]\<rparr>"
  have h1: "free_head ?m i" by (rule free_head_bytes [OF h]) simp
  have pg: "page_of_frame c ?fp = Inr ?ix"
    using nth_meta_frame_ptr [OF i] by (simp add: page_of_frame_def c)
  have pk: "poke_node (node_bytes ?fp 0 + 8) ?ix c = Inr (c\<lparr>bt_manager := Some ?m\<rparr>)"
    using poke64_frame [OF i, of ?ix] by (simp add: poke_node_def c node_bytes_def SIZEOF_PAGE_TYPE_def add.commute)
  have s1: "mf_state (bm_metas ?m ! i) = FS_PINNED" "bindings (bm_lookup ?m) fresh1 = None" using st fr by simp_all
  obtain m2 where u1: "buff_unpin L fresh1 (Some ?m) (frame_ptr ?m (word_of_nat i)) = Inr (STATUS_OK, Some m2)"
    "free_head m2 i" "same_arrays ?m m2" "mf_state (bm_metas m2 ! i) = FS_UNPINNED"
    "bindings (bm_lookup m2) = bindings (bm_lookup ?m)" "bm_bytes m2 = bm_bytes ?m"
    "mf_next (bm_metas m2 ! i) = meta_ptr ?m i" "bm_store m2 = bm_store ?m"
    by (rule glib_table.unpin_clean [OF g h1 s1 fr(2)]) blast
  have f2: "bindings (bm_lookup m2) fresh2 = None" using u1(5) fr(3) by simp
  obtain t where u2: "buff_unpin L fresh2 (Some m2) (frame_ptr m2 (word_of_nat i)) = Inr (STATUS_ERR, Some m2)"
    by (rule glib_table.unpin_frame [OF g free_headD(2,3) [OF u1(2)] f2 fr(4)]) (simp add: u1(4))
  have fp: "frame_ptr m2 (word_of_nat i) = ?fp" using same_arrays_eqs(3) [OF u1(3)] by simp
  have "create_finish L fresh1 fresh2 ?fp ?fp c s = Inr (STATUS_ERR, Some (c\<lparr>bt_manager := Some m2\<rparr>), s)"
    using u1(1) u2 fp by (simp add: create_finish_def pg pk Let_def)
  moreover have "same_arrays m m2" using u1(3) by (simp add: same_arrays_def)
  ultimately show ?thesis
    using u1(2,5-8) same_arrays_eqs [OF u1(3)] free_headD(3,5) [OF h] by (intro that [of m2]) simp_all
qed

lemma load32_store64_other: "a + 4 \<le> b \<Longrightarrow> load32 (store64 m b v) a = load32 m a"
  by (rule load32_cong) (simp add: store64_other)

lemma btree_create_run:
  assumes g: "glib_table L bindings" and h: "free_head m i"
    and n: "mf_next (bm_metas m ! i) = meta_ptr m j" "j < length (bm_metas m)"
    and st: "bm_store m = Some b" "store_at b s a" "ps_free a = []" "1 \<le> ps_size a" "Suc (ps_size a) < MAX_PAGES"
    and k: "bindings (bm_lookup m) ka = None" "va \<noteq> 0"
    and fr: "bindings (bm_lookup m) fresh1 = None" "malloced L fresh1" "fresh1 \<noteq> ka"
      "bindings (bm_lookup m) fresh2 = None" "malloced L fresh2" "fresh2 \<noteq> ka"
  obtains c' m' s' where "btree_create L ka va ka va fresh1 fresh2 (Some c) (Some m) key_size comparator s
      = Inr (STATUS_ERR, Some c', s')" "bt_manager c' = Some m'" "bt_root c' = word_of_nat (ps_size a)"
    "load32 (bm_bytes m' ! i) 0 = page_type_code DATA_PAGE" "load64 (bm_bytes m' ! i) 12 = bt_root c'"
    "free_head m' i" "same_arrays m m'" "mf_next (bm_metas m' ! i) = meta_ptr m' i" "bm_store m' = Some b"
    "store_at b s' (snd (ps_alloc None (snd (ps_alloc None a))))"
    "bindings (bm_lookup m') = (bindings (bm_lookup m))(ka \<mapsto> va)"
proof -
  let ?N = "word_of_nat (ps_size a) :: i64"
  let ?c1 = "c\<lparr>bt_manager := Some m, bt_key_size := key_size\<rparr>"
  have c1: "bt_manager ?c1 = Some m" by simp
  have room: "ps_size a < MAX_PAGES" using st(5) by simp
  obtain m1 s1 where 1: "btree_alloc_node L ka va (Some ?c1) DIR_PAGE 0 s
      = Inr (STATUS_OK, frame_ptr m (word_of_nat i), Some (?c1\<lparr>bt_manager := Some m1\<rparr>), s1)"
    "free_head m1 i" "same_arrays m m1" "bm_store m1 = Some b" "store_at b s1 (snd (ps_alloc None a))"
    "mf_index (bm_metas m1 ! i) = ?N" "mf_state (bm_metas m1 ! i) = FS_PINNED"
    "bindings (bm_lookup m1) = (bindings (bm_lookup m))(ka \<mapsto> va)"
    by (rule alloc_root_node [OF g h n st(1-4) room k(1) c1, of DIR_PAGE va 0]) simp
  let ?c3 = "pick_comparator comparator (?c1\<lparr>bt_manager := Some m1, bt_root := ?N\<rparr>)"
  have root: "page_of_frame (?c1\<lparr>bt_manager := Some m1\<rparr>) (frame_ptr m (word_of_nat i)) = Inr ?N"
    using nth_meta_frame_ptr [OF free_headD(2,3) [OF 1(2)]] same_arrays_eqs(3) [OF 1(3)] 1(6)
    by (simp add: page_of_frame_def)
  have a1: "ps_free (snd (ps_alloc None a)) = []" "1 \<le> ps_size (snd (ps_alloc None a))"
    "ps_size (snd (ps_alloc None a)) < MAX_PAGES"
    using st(3,5) by (simp_all add: ps_alloc_def)
  have b1: "bindings (bm_lookup m1) ka = Some va" "bt_manager ?c3 = Some m1"
    using 1(8) by (simp_all add: pick_comparator_def)
  obtain m2 s2 where 2: "btree_alloc_node L ka va (Some ?c3) DATA_PAGE 0 s1
      = Inr (STATUS_OK, frame_ptr m1 (word_of_nat i), Some (?c3\<lparr>bt_manager := Some m2\<rparr>), s2)"
    "free_head m2 i" "same_arrays m1 m2" "bm_metas m2 = bm_metas m1" "bm_lookup m2 = bm_lookup m1"
    "load32 (bm_bytes m2 ! i) 0 = page_type_code DATA_PAGE"
    "bm_store m2 = Some b" "store_at b s2 (snd (ps_alloc None (snd (ps_alloc None a))))"
    by (rule alloc_leaf_node [OF g 1(2,4,5) a1 b1(1) k(2) b1(2), of DATA_PAGE va 0]) simp
  have f: "mf_state (bm_metas m2 ! i) = FS_PINNED" "bindings (bm_lookup m2) fresh1 = None"
    "bindings (bm_lookup m2) fresh2 = None" "bt_manager (?c3\<lparr>bt_manager := Some m2\<rparr>) = Some m2"
    using 2(4,5) 1(7,8) fr by simp_all
  obtain m3 where 3: "create_finish L fresh1 fresh2 (frame_ptr m2 (word_of_nat i)) (frame_ptr m2 (word_of_nat i))
      (?c3\<lparr>bt_manager := Some m2\<rparr>) s2 = Inr (STATUS_ERR, Some (?c3\<lparr>bt_manager := Some m2, bt_manager := Some m3\<rparr>), s2)"
    "bm_bytes m3 ! i = store64 (bm_bytes m2 ! i) 12 (mf_index (bm_metas m2 ! i))"
    "free_head m3 i" "same_arrays m2 m3" "mf_next (bm_metas m3 ! i) = meta_ptr m3 i" "bm_store m3 = bm_store m2"
    "bindings (bm_lookup m3) = bindings (bm_lookup m2)"
    by (rule create_finish_run [OF g 2(2) f(4,1,2) fr(2) f(3) fr(5)])
  have e: "frame_ptr m (word_of_nat i) = frame_ptr m2 (word_of_nat i)" "frame_ptr m1 (word_of_nat i) = frame_ptr m2 (word_of_nat i)"
    using same_arrays_eqs(3) [OF 1(3)] same_arrays_eqs(3) [OF 2(3)] by simp_all
  have "btree_create L ka va ka va fresh1 fresh2 (Some c) (Some m) key_size comparator s
      = Inr (STATUS_ERR, Some (?c3\<lparr>bt_manager := Some m3\<rparr>), s2)"
    using 1(1) root 2(1) 3(1) by (simp add: btree_create_def Let_def e)
  moreover have "same_arrays m m3"
    by (rule same_arrays_trans [OF same_arrays_trans [OF 1(3) 2(3)] 3(4)])
  ultimately show ?thesis
    using 3(2,3,5-7) 2(4-8) 1(6,8)
    by (intro that [of "?c3\<lparr>bt_manager := Some m3\<rparr>" s2 m3]) (simp_all add: pick_comparator_def load32_store64_other)
qed

text \<open>
  C9: \<open>btree_create\<close> never returns \<open>STATUS_OK\<close> on a well-formed manager, whatever the
  files, the hash table and the addresses of the locals: both nodes get the frame at the head
  of the free list, so that the leaf overwrites the root, and of the two unpins of that frame
  the second fails.
\<close>

theorem btree_create_never_ok:
  assumes "free_head m i"
    and "btree_create L ka1 va1 ka2 va2 fresh1 fresh2 config (Some m) key_size comparator s = Inr (st, config', s')"
  shows "st \<noteq> STATUS_OK"
proof
  assume ok: "st = STATUS_OK"
  obtain c root_frame c2 s1 root leaf_frame c4 s2 where r:
    "btree_alloc_node L ka1 va1 (Some (c\<lparr>bt_manager := Some m, bt_key_size := key_size\<rparr>)) DIR_PAGE 0 s
       = Inr (STATUS_OK, root_frame, Some c2, s1)"
    "btree_alloc_node L ka2 va2 (Some (pick_comparator comparator (c2\<lparr>bt_root := root\<rparr>))) DATA_PAGE 0 s1
       = Inr (STATUS_OK, leaf_frame, Some c4, s2)"
    "create_finish L fresh1 fresh2 root_frame leaf_frame c4 s2 = Inr (STATUS_OK, config', s')"
    by (rule btree_create_steps [OF assms(2) [unfolded ok]])
  obtain m2 where 2: "bt_manager c2 = Some m2" "root_frame = frame_ptr m (word_of_nat i)"
    "free_head m2 i" "same_arrays m m2"
    using alloc_node_head [OF assms(1) _ r(1)] by auto
  have "bt_manager (pick_comparator comparator (c2\<lparr>bt_root := root\<rparr>)) = Some m2"
    by (simp add: pick_comparator_def 2(1))
  then obtain m4 where 4: "bt_manager c4 = Some m4" "leaf_frame = frame_ptr m2 (word_of_nat i)"
    "free_head m4 i" "same_arrays m2 m4"
    using alloc_node_head [OF 2(3) _ r(2)] by auto
  have "root_frame = frame_ptr m4 (word_of_nat i)" "leaf_frame = frame_ptr m4 (word_of_nat i)"
    using 2(2) 4(2) same_arrays_eqs(3) [OF 2(4)] same_arrays_eqs(3) [OF 4(4)] by simp_all
  then show False using create_finish_fails [OF 4(3,1)] r(3) by blast
qed

lemma btree_create_never_ok_witness:
  "\<exists>st c' s'. btree_create demo_libs 1 2 1 2 100 200
       (Some \<lparr>bt_manager = None, bt_root = 0, bt_key_size = 0, bt_comparator = btree_default_cmp_keys\<rparr>)
       (Some demo_man) 8 None demo3 = Inr (st, Some c', s')
     \<and> st \<noteq> STATUS_OK \<and> bt_root c' = 3"
proof -
  have n: "mf_next (bm_metas demo_man ! 0) = meta_ptr demo_man 1" "1 < length (bm_metas demo_man)"
    "ps_free demo_a3 = []" "1 \<le> ps_size demo_a3" "Suc (ps_size demo_a3) < MAX_PAGES"
    "map_of (bm_lookup demo_man) 1 = None" "(2 :: i64) \<noteq> 0" "map_of (bm_lookup demo_man) 100 = None"
    "malloced demo_libs 100" "(100 :: i64) \<noteq> 1" "map_of (bm_lookup demo_man) 200 = None"
    "malloced demo_libs 200" "(200 :: i64) \<noteq> 1"
    by (simp_all add: demo_man_init alist_libs_def demo_a3_def ps_alloc_def demo_a1_def MAX_PAGES_def)
  obtain c' s' where r: "btree_create demo_libs 1 2 1 2 100 200
       (Some \<lparr>bt_manager = None, bt_root = 0, bt_key_size = 0, bt_comparator = btree_default_cmp_keys\<rparr>)
       (Some demo_man) 8 None demo3 = Inr (STATUS_ERR, Some c', s')" "bt_root c' = word_of_nat (ps_size demo_a3)"
    using btree_create_run [OF alist.glib_table_axioms demo_man_init(2) n(1,2) demo_man_init(5) demo3_store(1) n(3-13)]
    by blast
  then show ?thesis
    using btree_create_never_ok [OF demo_man_init(2) r(1)]
    by (auto simp: demo_a3_def ps_alloc_def demo_a1_def)
qed

end
