(* ===== verification/NodeLayout.thy ===== *)
theory NodeLayout
  imports BTreeProperties
begin

text \<open>
  Where \<open>btree.c\<close> places things in a node: the separator slots from the end of the page down,
  and the records behind the page type.
\<close>

section \<open>Separators\<close>

lemma slot_start:
  assumes "unat (bt_key_size c) = n" and "n * 2 * (k + 1) \<le> 4092"
  shows "btree_get_sep c node (word_of_nat k) = node + word_of_nat (PAGESIZE - n * 2 * (k + 1))"
  using sep_slot [OF assms] by (simp add: btree_get_sep_def node_bytes_def algebra_simps)

text \<open>
  C40: The separator slots of a node lie in its page.  Slot \<open>k\<close> holds two keys and starts
  \<open>2 * n * (k + 1)\<close> bytes before the end of the page, behind the page type; slots with different
  numbers do not overlap, and slot 0 ends with the page.  \<open>btree_get_sep_list\<close>, however, points
  to the second key of slot 0, not to the start of a slot.
\<close>

theorem separator_slots:
  assumes "unat (bt_key_size c) = n" and "0 < n" and "n * 2 * (k + 1) \<le> 4092" and "j < k"
  shows "\<exists>ok oj. btree_get_sep c node (word_of_nat k) = node + word_of_nat ok
      \<and> btree_get_sep c node (word_of_nat j) = node + word_of_nat oj
      \<and> SIZEOF_PAGE_TYPE \<le> ok \<and> ok + 2 * n \<le> oj \<and> oj + 2 * n \<le> PAGESIZE
      \<and> (j = 0 \<longrightarrow> oj + 2 * n = PAGESIZE \<and> btree_get_sep_list c node = node + word_of_nat (oj + n))"
proof -
  have "n * 2 * (j + 2) \<le> n * 2 * (k + 1)" using assms(4) by (intro mult_le_mono2) simp
  then have j: "n * 2 * (j + 1) + 2 * n \<le> n * 2 * (k + 1)" by (simp add: algebra_simps)
  then have "n * 2 * (j + 1) \<le> 4092" using assms(3) by linarith
  note starts = slot_start [OF assms(1,3)] slot_start [OF assms(1) this]
  have "btree_get_sep_list c node = node + word_of_nat (PAGESIZE - n * 2 * (0 + 1) + n)" if "j = 0"
  proof -
    have "n * 2 * (0 + 1) + 2 * n \<le> 4092" using le_trans [OF j assms(3)] that by (simp only:)
    then have b: "n * 2 * (0 + 1) \<le> 4092" and b2: "n * 2 * (0 + 2) \<le> 4092"
      by simp_all
    have "btree_get_sep_list c node = btree_get_sep c node 0 + bt_key_size c"
      using sep_slots_adjacent(1) [OF assms(1) b2, of node] by (simp add: RIGHT_SEP_def)
    then show ?thesis
      using slot_start [OF assms(1) b, of node] unat_eq_word [OF assms(1)] by simp
  qed
  then show ?thesis
    using starts j assms(3)
    by (intro exI [of _ "PAGESIZE - n * 2 * (k + 1)"] exI [of _ "PAGESIZE - n * 2 * (j + 1)"])
       (auto simp: SIZEOF_PAGE_TYPE_def PAGESIZE_def)
qed

definition demo_node_config :: "(i64 \<times> i64) list btree_config" where
  "demo_node_config = \<lparr>bt_manager = None, bt_root = 1, bt_key_size = 8, bt_comparator = btree_default_cmp_keys\<rparr>"

theorem separator_slots_witness:
  "\<exists>o1 o0. btree_get_sep demo_node_config 8192 1 = 8192 + word_of_nat o1
     \<and> btree_get_sep demo_node_config 8192 0 = 8192 + word_of_nat o0
     \<and> o1 + 16 \<le> o0 \<and> o0 + 16 = PAGESIZE \<and> btree_get_sep_list demo_node_config 8192 = 8192 + word_of_nat (o0 + 8)"
  using separator_slots [of demo_node_config 8 1 0 8192] by (auto simp: demo_node_config_def)

section \<open>Records\<close>

definition demo_node :: mem where
  "demo_node = (\<lambda>i. if i = 0 then 1 else 0)"

text \<open>
  A record number that \<open>btree_insert_record_value\<close> accepts addresses a byte of the page behind
  the type, but the length is not checked: a record at the last accepted number is accepted with
  any length, although only one byte of the page is left.  Numbers 0 to 4 are refused, although
  they address bytes behind the type as well.
\<close>

theorem record_bounds:
  "(btree_insert_record_value (Some node) number (Some data) len = STATUS_OK
      \<longleftrightarrow> 4 < sint number \<and> sint number < 4092)
   \<and> (btree_insert_record_value (Some node) number (Some data) len = STATUS_OK \<longrightarrow>
        (\<exists>off. btree_get_record_data p number = p + word_of_nat off \<and> 8 < off \<and> off < PAGESIZE))
   \<and> btree_insert_record_value (Some node) 4091 (Some data) len = STATUS_OK
   \<and> btree_get_record_data p 4091 + 1 = p + word_of_nat PAGESIZE"
proof -
  have 1: "btree_insert_record_value (Some node) number (Some data) len = STATUS_OK
      \<longleftrightarrow> 4 < sint number \<and> sint number < 4092" for number
    by (auto simp: btree_insert_record_value_def RECORD_BOUNDS_def SIZEOF_PAGE_TYPE_def START_OF_DATA_def
        END_OF_PAGE_def PAGESIZE_def)
  have 2: "\<exists>off. btree_get_record_data p number = p + word_of_nat off \<and> 8 < off \<and> off < PAGESIZE"
    if "4 < sint number" "sint number < 4092"
  proof -
    have "(scast number :: i64) = word_of_int (sint number)" by (rule scast_eq)
    also have "\<dots> = word_of_nat (nat (sint number))" using that(1) by simp
    finally show ?thesis
      using that nat_less_iff [of "sint number" 4092] zless_nat_conj [of 4 "sint number"]
      by (intro exI [of _ "4 + nat (sint number)"])
        (auto simp: btree_get_record_data_def node_bytes_def SIZEOF_PAGE_TYPE_def PAGESIZE_def)
  qed
  show ?thesis
    using 1 [of number] 1 [of 4091] 2
    by (simp add: btree_get_record_data_def node_bytes_def SIZEOF_PAGE_TYPE_def PAGESIZE_def)
qed

theorem record_bounds_witness:
  "btree_insert_record_value (Some demo_node) 5 (Some demo_node) 4000 = STATUS_OK
   \<and> (\<exists>off. btree_get_record_data 8192 5 = 8192 + word_of_nat off \<and> 8 < off \<and> off < PAGESIZE)
   \<and> btree_insert_record_value (Some demo_node) 4 (Some demo_node) 1 \<noteq> STATUS_OK"
  using record_bounds [of demo_node 5 demo_node 4000 8192] record_bounds [of demo_node 4 demo_node 1 8192]
  by simp

end
