(* ===== verification/BTreeInsert.thy ===== *)
theory BTreeInsert
  imports BTreeProperties
begin

text \<open>
  Model of \<open>btree_insert\<close> (\<open>src/lib/datastructures/btree.c\<close>) and what it does.  The function
  calls \<open>btree_get_sep_list\<close> with the node only, although the header declares two arguments,
  so the result of that call is the parameter \<open>sep_list\<close>; the properties hold for every
  such function, or take \<^const>\<open>btree_get_sep_list\<close> on the tree's configuration for it.
\<close>

section \<open>Insertion\<close>

text \<open>Reading through a pointer into the buffer; the object read must lie in one frame.\<close>

definition peek :: "nat \<Rightarrow> (mem \<Rightarrow> nat \<Rightarrow> 'a) \<Rightarrow> i64 \<Rightarrow> 'h buffer_manager \<Rightarrow> 'a res" where
  "peek sz load p m =
     (if p = 0 then Inl NullDeref
      else let d = unat (p - bm_buffer m); i = d div PAGESIZE; o' = d mod PAGESIZE in
        if i < length (bm_bytes m) \<and> o' + sz \<le> PAGESIZE
        then Inr (load (bm_bytes m ! i) o') else Inl WildPointer)"

definition load8 :: "mem \<Rightarrow> nat \<Rightarrow> byte" where
  "load8 m a = m a"

text \<open>The part after the root page has been pinned: \<open>c\<close> is the configuration with the manager
  that pin left.  If the first separator byte is NUL the page of entry 0 of the directory is
  pinned; the other branch is empty.\<close>

definition insert_below_root ::
  "'h libs \<Rightarrow> (i64 \<Rightarrow> i64) \<Rightarrow> i64 \<Rightarrow> i64 \<Rightarrow> i64 \<Rightarrow> 'h btree_config \<Rightarrow> os \<Rightarrow> (status \<times> 'h btree_config option \<times> os) res"
where
  "insert_below_root L sep_list ka va root_node c s =
     (case bt_manager c of
        None \<Rightarrow> Inl NullDeref
      | Some m \<Rightarrow>
          bind_res (peek 1 load8 (sep_list root_node) m) (\<lambda>first_sep.
            if first_sep = 0 then
              bind_res (peek 8 load64 (btree_get_dir_list root_node) m) (\<lambda>first_page.
              bind_res (buff_pin L ka va (bt_manager c) 0 first_page s) (\<lambda>(datapage_pin, data_frame, man, s1).
                let c1 = c\<lparr>bt_manager := man\<rparr> in
                if datapage_pin \<noteq> STATUS_OK then Inr (datapage_pin, Some c1, s1)
                else Inr (STATUS_OK, Some c1, s1)))
            else Inr (STATUS_OK, Some c, s)))"

text \<open>\<open>ka1\<close>, \<open>va1\<close> and \<open>ka2\<close>, \<open>va2\<close> are the addresses of the locals of the two calls of
  \<open>buff_pin\<close>.\<close>

definition btree_insert ::
  "'h libs \<Rightarrow> (i64 \<Rightarrow> i64) \<Rightarrow> i64 \<Rightarrow> i64 \<Rightarrow> i64 \<Rightarrow> i64 \<Rightarrow> 'h btree_config option \<Rightarrow> mem option \<Rightarrow> mem option
   \<Rightarrow> i64 \<Rightarrow> os \<Rightarrow> (status \<times> 'h btree_config option \<times> os) res"
where
  "btree_insert L sep_list ka1 va1 ka2 va2 config key val value_length s =
     (case config of
        None \<Rightarrow> Inr (STATUS_NO_CONFIG, None, s)
      | Some c \<Rightarrow>
          if key = None then Inr (STATUS_ERR, Some c, s)
          else if value_length = 0 \<and> val \<noteq> None then Inr (STATUS_ERR, Some c, s)
          else bind_res (buff_pin L ka1 va1 (bt_manager c) 0 (bt_root c) s) (\<lambda>(root_pin, root_frame, man, s1).
            let c1 = c\<lparr>bt_manager := man\<rparr> in
            if root_pin \<noteq> STATUS_OK \<or> root_frame = 0 then Inr (root_pin, Some c1, s1)
            else insert_below_root L sep_list ka2 va2 root_frame c1 s1))"

section \<open>What insertion leaves alone\<close>

lemma buff_pin_inodes:
  assumes "buff_pin L ka va man out index s = Inr (st, fp, man', s')"
  shows "inodes s' = inodes s"
  using buff_pin_returns [OF assms] by (auto dest: get_page_inodes)

text \<open>One frame is read into, and its state is \<open>FS_PINNED\<close> if it changed: nothing becomes dirty.\<close>

definition only_reads :: "nat \<Rightarrow> 'h buffer_manager \<Rightarrow> 'h buffer_manager \<Rightarrow> bool" where
  "only_reads i m m' \<longleftrightarrow> wf_manager m' \<and> same_arrays m m' \<and> bm_freelist m' = bm_freelist m
     \<and> bm_writeback m' = bm_writeback m \<and> bm_store m' = bm_store m
     \<and> (\<forall>j. j \<noteq> i \<longrightarrow> bm_bytes m' ! j = bm_bytes m ! j \<and> bm_metas m' ! j = bm_metas m ! j)
     \<and> (bm_metas m' ! i = bm_metas m ! i \<or> mf_state (bm_metas m' ! i) = FS_PINNED)"

lemma only_reads_refl: "wf_manager m \<Longrightarrow> only_reads i m m"
  by (simp add: only_reads_def)

lemma only_reads_trans: "only_reads i f g \<Longrightarrow> only_reads i g h \<Longrightarrow> only_reads i f h"
  by (auto simp: only_reads_def intro: same_arrays_trans)

lemma pin_only_reads:
  assumes wf: "wf_manager m" and i: "i < length (bm_metas m)" "bm_freelist m = meta_ptr m i"
    and r: "buff_pin L ka va (Some m) out index s = Inr (st, fp, man, s')"
  obtains m1 where "man = Some m1" "only_reads i m m1" "i < length (bm_metas m1)" "bm_freelist m1 = meta_ptr m1 i"
proof -
  obtain m1 where m1: "man = Some m1" "pin_effect i index m m1"
    using buff_pin_effect [OF wf i r] by blast
  note e = pin_effect_frame [OF m1(2)]
  have "bm_metas m1 ! i = bm_metas m ! i \<or> mf_state (bm_metas m1 ! i) = FS_PINNED"
    using m1(2) i(1) by (auto simp: pin_effect_def)
  then have "only_reads i m m1"
    using pin_effect_wf [OF wf m1(2)] e by (simp add: only_reads_def)
  with m1(1) that show ?thesis using i e(2) same_arrays_eqs [OF e(1)] by simp
qed

lemma insert_only_reads:
  assumes r: "btree_insert L sep_list ka1 va1 ka2 va2 (Some c) key val len s = Inr (st, config', s')"
    and c: "bt_manager c = Some m" and wf: "wf_manager m" and i: "i < length (bm_metas m)" "bm_freelist m = meta_ptr m i"
  shows "\<exists>m'. config' = Some (c\<lparr>bt_manager := Some m'\<rparr>) \<and> only_reads i m m' \<and> inodes s' = inodes s"
proof (cases "key = None \<or> len = 0 \<and> val \<noteq> None")
  case True
  then have "config' = Some c" "s' = s"
    using r by (cases "key = None"; simp add: btree_insert_def)+
  then show ?thesis using c only_reads_refl [OF wf, of i] by (intro exI [of _ m]) simp
next
  case False
  then obtain root_pin fp man s1 where p: "buff_pin L ka1 va1 (Some m) 0 (bt_root c) s = Inr (root_pin, fp, man, s1)"
    using r c by (auto simp: btree_insert_def bind_res_eq_Inr)
  obtain m1 where m1: "man = Some m1" "only_reads i m m1" "i < length (bm_metas m1)" "bm_freelist m1 = meta_ptr m1 i"
    by (rule pin_only_reads [OF wf i p])
  note n1 = buff_pin_inodes [OF p]
  have r1: "(if root_pin \<noteq> STATUS_OK \<or> fp = 0 then Inr (root_pin, Some (c\<lparr>bt_manager := Some m1\<rparr>), s1)
      else insert_below_root L sep_list ka2 va2 fp (c\<lparr>bt_manager := Some m1\<rparr>) s1) = Inr (st, config', s')"
    using r False p c m1(1) by (auto simp: btree_insert_def Let_def)
  consider "config' = Some (c\<lparr>bt_manager := Some m1\<rparr>)" "s' = s1"
    | first_page st2 fp2 man2 where "buff_pin L ka2 va2 (Some m1) 0 first_page s1 = Inr (st2, fp2, man2, s')"
      "config' = Some (c\<lparr>bt_manager := man2\<rparr>)"
    using r1 by (auto simp: insert_below_root_def bind_res_eq_Inr Let_def split: if_splits)
  then show ?thesis
  proof cases
    case 1
    then show ?thesis using m1(2) n1 by auto
  next
    case 2
    obtain m2 where m2: "man2 = Some m2" "only_reads i m1 m2"
      using m1(2) by (auto intro: pin_only_reads [OF _ m1(3,4) 2(1)] simp: only_reads_def)
    then show ?thesis
      using 2 only_reads_trans [OF m1(2) m2(2)] n1 buff_pin_inodes [OF 2(1)] by auto
  qed
qed

section \<open>Reading the root\<close>

lemma peek_ok:
  assumes "layout m" and "i < length (bm_metas m)" and "off + sz \<le> PAGESIZE" "0 < sz"
  shows "peek sz load (frame_ptr m (word_of_nat i) + word_of_nat off) m = Inr (load (bm_bytes m ! i) off)"
  using frame_offset [OF assms(1,2), of off] assms by (simp add: peek_def Let_def layout_def)

lemma sep_list_offset:
  assumes "unat (bt_key_size c) = n" and "n \<le> 4092"
  shows "btree_get_sep_list c node = node + word_of_nat (PAGESIZE - n)"
proof -
  have k: "bt_key_size c = word_of_nat n" using assms(1) by (rule unat_eq_word)
  have "(word_of_nat (PAGESIZE - n) :: i64) = word_of_nat 4096 - word_of_nat n"
    using assms(2) by (simp add: PAGESIZE_def of_nat_diff)
  then show ?thesis by (simp add: btree_get_sep_list_def node_bytes_def constant_defs k)
qed

text \<open>What insertion does once the root is in the frame \<open>i\<close> and its first separator byte is NUL.\<close>

lemma insert_below_root_frame:
  assumes h: "free_head m i" and c: "bt_manager c = Some m"
    and n: "unat (bt_key_size c) = n" "0 < n" "n \<le> 4092"
    and pg: "page_of (bm_bytes m ! i) (PAGESIZE - n) = 0" "load64 (page_of (bm_bytes m ! i)) 4 = first"
  shows "insert_below_root L (btree_get_sep_list c) ka va (frame_ptr m (word_of_nat i)) c s =
    bind_res (buff_pin L ka va (Some m) 0 first s) (\<lambda>(st, fp, man, s1). Inr (st, Some (c\<lparr>bt_manager := man\<rparr>), s1))"
proof -
  note i = free_headD(2,3) [OF h]
  have s: "peek 1 load8 (btree_get_sep_list c (frame_ptr m (word_of_nat i))) m = Inr 0"
    using peek_ok [OF i, of "PAGESIZE - n" 1 load8] n pg(1)
    by (simp add: sep_list_offset [OF n(1,3)] page_of_def PAGESIZE_def load8_def)
  have "btree_get_dir_list (frame_ptr m (word_of_nat i)) = frame_ptr m (word_of_nat i) + word_of_nat 4"
    by (simp add: btree_get_dir_list_def node_bytes_def SIZEOF_PAGE_TYPE_def)
  then have d: "peek 8 load64 (btree_get_dir_list (frame_ptr m (word_of_nat i))) m = Inr first"
    using peek_ok [OF i, of 4 8 load64] pg(2) load64_page_of [of 4 "bm_bytes m ! i"] by (simp add: PAGESIZE_def)
  show ?thesis
    unfolding insert_below_root_def c option.case s d bind_res_Inr
    by (cases "buff_pin L ka va (Some m) 0 first s") (auto simp: Let_def)
qed

lemma insert_pinned_root:
  assumes h: "free_head m i" and h': "free_head m' i" and same: "same_arrays m m'" and c: "bt_manager c = Some m"
    and r: "buff_pin L ka1 va1 (Some m) 0 (bt_root c) s = Inr (STATUS_OK, frame_ptr m (word_of_nat i), Some m', s')"
    and n: "unat (bt_key_size c) = n" "0 < n" "n \<le> 4092" and v: "\<not> (len = 0 \<and> val \<noteq> None)"
    and pg: "page_of (bm_bytes m' ! i) (PAGESIZE - n) = 0" "load64 (page_of (bm_bytes m' ! i)) 4 = first"
  shows "btree_insert L (btree_get_sep_list c) ka1 va1 ka2 va2 (Some c) (Some key) val len s =
    bind_res (buff_pin L ka2 va2 (Some m') 0 first s') (\<lambda>(st, fp, man, s1). Inr (st, Some (c\<lparr>bt_manager := man\<rparr>), s1))"
proof -
  let ?c = "c\<lparr>bt_manager := Some m'\<rparr>"
  have e: "btree_get_sep_list ?c = btree_get_sep_list c"
    by (simp add: btree_get_sep_list_def fun_eq_iff)
  have fp: "frame_ptr m' (word_of_nat i) = frame_ptr m (word_of_nat i)" "frame_ptr m (word_of_nat i) \<noteq> 0"
    using same_arrays_eqs(3) [OF same] frame_ptr_nonzero [OF free_headD(2,3) [OF h]] by simp_all
  have "insert_below_root L (btree_get_sep_list c) ka2 va2 (frame_ptr m (word_of_nat i)) ?c s' =
      bind_res (buff_pin L ka2 va2 (Some m') 0 first s') (\<lambda>(st, fp, man, s1). Inr (st, Some (c\<lparr>bt_manager := man\<rparr>), s1))"
    using insert_below_root_frame [OF h', of ?c n first L ka2 va2 s'] n pg fp by (simp add: e)
  then show ?thesis using v fp(2) by (auto simp: btree_insert_def c r Let_def)
qed

lemma pin_meta_page: "buff_pin L ka va (Some man) out 0 s = Inr (STATUS_META_PAGE, out, Some man, s)"
  by (simp add: buff_pin_def METADATA_def)

section \<open>Properties\<close>

definition demo_config :: "(i64 \<times> i64) list btree_config" where
  "demo_config = \<lparr>bt_manager = Some demo_man, bt_root = 1, bt_key_size = 8, bt_comparator = btree_default_cmp_keys\<rparr>"

lemma set_manager_eq [simp]: "c\<lparr>bt_manager := x\<rparr> = c\<lparr>bt_manager := y\<rparr> \<longleftrightarrow> x = y"
  by (cases c) simp

lemma demo_config_simps [simp]:
  "bt_manager demo_config = Some demo_man" "bt_root demo_config = 1" "bt_key_size demo_config = 8"
  by (simp_all add: demo_config_def)

text \<open>The first insertion below a root whose first separator byte and first entry are zero.\<close>

lemma first_insert:
  assumes "glib_table L bindings" and "free_head m i" and "bt_manager c = Some m" and "bt_root c = word_of_nat root"
    and "mf_next (bm_metas m ! i) = meta_ptr m j" "j < length (bm_metas m)"
    and "bm_store m = Some b" "store_at b s a" "ps_live a root"
    and "unat (bt_key_size c) = n" "0 < n" "n \<le> 4092"
    and "ps_data a root (PAGESIZE - n) = 0" "load64 (ps_data a root) 4 = 0"
    and "bindings (bm_lookup m) ka1 = None" and "\<not> (len = 0 \<and> val \<noteq> None)"
  obtains pg t m1 where "m1 = pinned i j (word_of_nat root) (loaded t i pg m)" "page_of pg = ps_data a root"
    "bindings t = (bindings (bm_lookup m))(ka1 \<mapsto> va1)" "free_head m1 i"
    "btree_insert L (btree_get_sep_list c) ka1 va1 ka2 va2 (Some c) (Some key) val len s
       = Inr (STATUS_META_PAGE, Some (c\<lparr>bt_manager := Some m1\<rparr>), s)"
proof -
  obtain pg t where p: "page_of pg = ps_data a root" "bindings t = (bindings (bm_lookup m))(ka1 \<mapsto> va1)"
    "buff_pin L ka1 va1 (Some m) 0 (word_of_nat root) s = Inr (STATUS_OK, frame_ptr m (word_of_nat i),
       Some (pinned i j (word_of_nat root) (loaded t i pg m)), s)"
    "free_head (pinned i j (word_of_nat root) (loaded t i pg m)) i"
    by (rule glib_table.pin_ok [OF assms(1,2,5-9,15)])
  let ?m1 = "pinned i j (word_of_nat root) (loaded t i pg m)"
  have same: "same_arrays m ?m1" by (simp add: same_arrays_def pinned_def loaded_def)
  have pg: "page_of (bm_bytes ?m1 ! i) (PAGESIZE - n) = 0" "load64 (page_of (bm_bytes ?m1 ! i)) 4 = 0"
    using p(1) assms(13,14) free_headD(3,5) [OF assms(2)] by simp_all
  have "btree_insert L (btree_get_sep_list c) ka1 va1 ka2 va2 (Some c) (Some key) val len s
       = Inr (STATUS_META_PAGE, Some (c\<lparr>bt_manager := Some ?m1\<rparr>), s)"
    using insert_pinned_root [OF assms(2) p(4) same assms(3) _ assms(10-12,16) pg, of L ka1 va1 s s ka2 va2 key]
      p(3) assms(4) by (simp add: pin_meta_page)
  then show ?thesis using that [OF refl p(1,2,4)] by simp
qed

lemma demo_empty_root:
  "bt_root demo_config = word_of_nat 1" "mf_next (bm_metas demo_man ! 0) = meta_ptr demo_man 1"
  "1 < length (bm_metas demo_man)" "map_of (bm_lookup demo_man) 1 = None" "(2 :: i64) \<noteq> 0"
  "unat (bt_key_size demo_config) = 8" "(0 :: nat) < 8" "(8 :: nat) \<le> 4092"
  "ps_data demo_a3 1 (PAGESIZE - 8) = 0" "load64 (ps_data demo_a3 1) 4 = 0"
  by (simp_all add: demo_man_init demo_a3_def ps_alloc_def demo_a1_def)

text \<open>
  C22: \<open>btree_insert\<close> inserts nothing.  Under every fault schedule, whatever the call of
  \<open>btree_get_sep_list\<close> yields, an insertion that returns has written no file and changed at
  most one frame, into which it read pages and which it left pinned and clean, so that nothing
  is ever written back; its outcome is the same for every key and value that pass the guards.
\<close>

theorem btree_insert_stores_nothing:
  assumes "btree_insert L sep_list ka1 va1 ka2 va2 (Some c) (Some key) val len s = Inr (st, config', s')"
    and "bt_manager c = Some m" and "wf_manager m" and "i < length (bm_metas m)" "bm_freelist m = meta_ptr m i"
  shows "(\<exists>m'. config' = Some (c\<lparr>bt_manager := Some m'\<rparr>) \<and> inodes s' = inodes s \<and> wf_manager m'
       \<and> bm_writeback m' = bm_writeback m
       \<and> (\<forall>j. j \<noteq> i \<longrightarrow> bm_bytes m' ! j = bm_bytes m ! j \<and> bm_metas m' ! j = bm_metas m ! j)
       \<and> (bm_metas m' ! i = bm_metas m ! i \<or> mf_state (bm_metas m' ! i) = FS_PINNED))
    \<and> (\<forall>key' val' len'. (len = 0 \<and> val \<noteq> None) = (len' = 0 \<and> val' \<noteq> None) \<longrightarrow>
         btree_insert L sep_list ka1 va1 ka2 va2 (Some c) (Some key') val' len' s = Inr (st, config', s'))"
proof
  show "\<exists>m'. config' = Some (c\<lparr>bt_manager := Some m'\<rparr>) \<and> inodes s' = inodes s \<and> wf_manager m'
       \<and> bm_writeback m' = bm_writeback m
       \<and> (\<forall>j. j \<noteq> i \<longrightarrow> bm_bytes m' ! j = bm_bytes m ! j \<and> bm_metas m' ! j = bm_metas m ! j)
       \<and> (bm_metas m' ! i = bm_metas m ! i \<or> mf_state (bm_metas m' ! i) = FS_PINNED)"
    using insert_only_reads [OF assms] by (auto simp: only_reads_def)
  have "btree_insert L sep_list ka1 va1 ka2 va2 (Some c) (Some key') val' len' s
      = btree_insert L sep_list ka1 va1 ka2 va2 (Some c) (Some key) val len s"
    if "(len = 0 \<and> val \<noteq> None) = (len' = 0 \<and> val' \<noteq> None)" for key' val' len'
    using that by (simp add: btree_insert_def del: not_None_eq)
  then show "\<forall>key' val' len'. (len = 0 \<and> val \<noteq> None) = (len' = 0 \<and> val' \<noteq> None) \<longrightarrow>
         btree_insert L sep_list ka1 va1 ka2 va2 (Some c) (Some key') val' len' s = Inr (st, config', s')"
    using assms(1) by simp
qed

theorem btree_insert_stores_nothing_witness:
  "\<exists>m1. btree_insert demo_libs (btree_get_sep_list demo_config) 1 2 3 4 (Some demo_config) (Some demo_page) (Some demo_page) 5 demo3
       = Inr (STATUS_META_PAGE, Some (demo_config\<lparr>bt_manager := Some m1\<rparr>), demo3)
     \<and> bm_writeback m1 = bm_writeback demo_man \<and> mf_state (bm_metas m1 ! 0) = FS_PINNED
     \<and> btree_insert demo_libs (btree_get_sep_list demo_config) 1 2 3 4 (Some demo_config) (Some zero_mem) None 0 demo3
       = Inr (STATUS_META_PAGE, Some (demo_config\<lparr>bt_manager := Some m1\<rparr>), demo3)"
proof -
  note n = demo_empty_root
  have v: "\<not> ((5 :: i64) = 0 \<and> Some demo_page \<noteq> None)" by simp
  obtain pg t m1 where p: "m1 = pinned 0 1 (word_of_nat 1) (loaded t 0 pg demo_man)" "page_of pg = ps_data demo_a3 1"
    "map_of t = (map_of (bm_lookup demo_man))(1 \<mapsto> 2)" "free_head m1 0"
    and r: "btree_insert demo_libs (btree_get_sep_list demo_config) 1 2 3 4 (Some demo_config) (Some demo_page) (Some demo_page) 5 demo3
       = Inr (STATUS_META_PAGE, Some (demo_config\<lparr>bt_manager := Some m1\<rparr>), demo3)"
    by (rule first_insert [OF alist.glib_table_axioms demo_man_init(2) demo_config_simps(1) n(1-3)
        demo_man_init(5) demo3_store(1,2) n(6-10,4) v])
  note h = free_headD(3,5) [OF demo_man_init(2)]
  have "mf_state (bm_metas m1 ! 0) = FS_PINNED" using h by (simp add: p(1))
  then show ?thesis
    using btree_insert_stores_nothing [OF r demo_config_simps(1), of 0] free_headD [OF demo_man_init(2)] r by auto
qed

text \<open>
  A new tree rejects every insertion.  If the root's directory is empty, as it is in a page that
  has just been allocated, the first insertion takes entry 0, which is zero, for the first data
  page and fails with \<open>STATUS_META_PAGE\<close>, with the root page left pinned; every later
  insertion from the same call site fails the same way and changes nothing.
\<close>

theorem insert_into_new_tree_fails:
  assumes "glib_table L bindings" and "free_head m i" and "bt_manager c = Some m" and "bt_root c = word_of_nat root"
    and "mf_next (bm_metas m ! i) = meta_ptr m j" "j < length (bm_metas m)"
    and "bm_store m = Some b" "store_at b s a" "ps_live a root"
    and "unat (bt_key_size c) = n" "0 < n" "n \<le> 4092"
    and "ps_data a root (PAGESIZE - n) = 0" "load64 (ps_data a root) 4 = 0"
    and "bindings (bm_lookup m) ka1 = None" "va1 \<noteq> 0" and "\<not> (len = 0 \<and> val \<noteq> None)"
  shows "\<exists>m1. btree_insert L (btree_get_sep_list c) ka1 va1 ka2 va2 (Some c) (Some key) val len s
       = Inr (STATUS_META_PAGE, Some (c\<lparr>bt_manager := Some m1\<rparr>), s)
    \<and> mf_state (bm_metas m1 ! i) = FS_PINNED \<and> mf_index (bm_metas m1 ! i) = word_of_nat root
    \<and> (\<forall>key' val' len' va ka va' t. \<not> (len' = 0 \<and> val' \<noteq> None) \<longrightarrow>
         btree_insert L (btree_get_sep_list c) ka1 va ka va' (Some (c\<lparr>bt_manager := Some m1\<rparr>)) (Some key') val' len' t
           = Inr (STATUS_META_PAGE, Some (c\<lparr>bt_manager := Some m1\<rparr>), t))"
proof -
  obtain pg t m1 where p: "m1 = pinned i j (word_of_nat root) (loaded t i pg m)" "page_of pg = ps_data a root"
    "bindings t = (bindings (bm_lookup m))(ka1 \<mapsto> va1)" "free_head m1 i"
    and first: "btree_insert L (btree_get_sep_list c) ka1 va1 ka2 va2 (Some c) (Some key) val len s
       = Inr (STATUS_META_PAGE, Some (c\<lparr>bt_manager := Some m1\<rparr>), s)"
    by (rule first_insert [OF assms(1-15,17)])
  note i = free_headD(3,5) [OF assms(2)]
  have pg: "page_of (bm_bytes m1 ! i) (PAGESIZE - n) = 0" "load64 (page_of (bm_bytes m1 ! i)) 4 = 0"
    using p(1,2) assms(13,14) i by simp_all
  let ?c1 = "c\<lparr>bt_manager := Some m1\<rparr>"
  have e: "btree_get_sep_list ?c1 = btree_get_sep_list c" by (simp add: btree_get_sep_list_def fun_eq_iff)
  have rt: "word_of_nat root \<noteq> METADATA" by (rule live_index(1) [OF assms(8,9)])
  have "btree_insert L (btree_get_sep_list c) ka1 va ka va' (Some ?c1) (Some key') val' len' u
      = Inr (STATUS_META_PAGE, Some ?c1, u)" if v: "\<not> (len' = 0 \<and> val' \<noteq> None)" for key' val' len' va ka va' u
  proof -
    have "buff_pin L ka1 va (Some m1) 0 (bt_root ?c1) u = Inr (STATUS_OK, frame_ptr m1 (word_of_nat i), Some m1, u)"
      using glib_table.pin_hit [OF assms(1) p(4) _ assms(16) rt, where ka = ka1] p(1,3) assms(4) by simp
    from insert_pinned_root [OF p(4,4) same_arrays_refl _ this _ assms(11,12) v pg] assms(10) show ?thesis
      by (simp add: pin_meta_page e)
  qed
  with first i show ?thesis by (intro exI [of _ m1]) (simp add: p(1))
qed

theorem insert_into_new_tree_fails_witness:
  "\<exists>c1. btree_insert demo_libs (btree_get_sep_list demo_config) 1 2 3 4 (Some demo_config) (Some demo_page) (Some demo_page) 5 demo3
       = Inr (STATUS_META_PAGE, Some c1, demo3)
     \<and> btree_insert demo_libs (btree_get_sep_list demo_config) 1 2 3 4 (Some c1) (Some zero_mem) (Some zero_mem) 6 demo3
       = Inr (STATUS_META_PAGE, Some c1, demo3)"
proof -
  note n = demo_empty_root
  show ?thesis
    using insert_into_new_tree_fails [OF alist.glib_table_axioms demo_man_init(2) demo_config_simps(1) n(1-3)
        demo_man_init(5) demo3_store(1,2) n(6-10,4,5), of 5 "Some demo_page"] by force
qed

text \<open>
  C26: With a data page in entry 0 insertion reports success and still inserts nothing.  If the two
  calls of \<open>buff_pin\<close> have their locals at the same address, the second pin finds the binding of
  the first and the data page is never read; if not, it is read into the root's own frame, and
  the root is no longer in memory when the function returns.
\<close>

theorem insert_reports_success:
  assumes "glib_table L bindings" and "free_head m i" and "bt_manager c = Some m" and "bt_root c = word_of_nat root"
    and "mf_next (bm_metas m ! i) = meta_ptr m j" "j < length (bm_metas m)" "i \<noteq> j"
    and "mf_next (bm_metas m ! j) = meta_ptr m k" "k < length (bm_metas m)"
    and "bm_store m = Some b" "store_at b s a" "ps_live a root"
    and "unat (bt_key_size c) = n" "0 < n" "n \<le> 4092"
    and "ps_data a root (PAGESIZE - n) = 0" "load64 (ps_data a root) 4 = word_of_nat leaf" "ps_live a leaf"
    and "bindings (bm_lookup m) ka1 = None" "va1 \<noteq> 0" and "\<not> (len = 0 \<and> val \<noteq> None)"
  shows "(\<exists>m1. btree_insert L (btree_get_sep_list c) ka1 va1 ka1 va2 (Some c) (Some key) val len s
         = Inr (STATUS_OK, Some (c\<lparr>bt_manager := Some m1\<rparr>), s)
       \<and> page_of (bm_bytes m1 ! i) = ps_data a root \<and> mf_index (bm_metas m1 ! i) = word_of_nat root)
    \<and> (bindings (bm_lookup m) ka2 = None \<longrightarrow> ka2 \<noteq> ka1 \<longrightarrow>
       (\<exists>m2. btree_insert L (btree_get_sep_list c) ka1 va1 ka2 va2 (Some c) (Some key) val len s
         = Inr (STATUS_OK, Some (c\<lparr>bt_manager := Some m2\<rparr>), s)
       \<and> page_of (bm_bytes m2 ! i) = ps_data a leaf \<and> mf_index (bm_metas m2 ! i) = word_of_nat leaf))"
proof -
  note pin = glib_table.pin_ok [OF assms(1)]
  obtain pg t where p: "page_of pg = ps_data a root" "bindings t = (bindings (bm_lookup m))(ka1 \<mapsto> va1)"
    "buff_pin L ka1 va1 (Some m) 0 (word_of_nat root) s = Inr (STATUS_OK, frame_ptr m (word_of_nat i),
       Some (pinned i j (word_of_nat root) (loaded t i pg m)), s)"
    "free_head (pinned i j (word_of_nat root) (loaded t i pg m)) i"
    by (rule pin [OF assms(2,5,6,10-12,19)])
  let ?m1 = "pinned i j (word_of_nat root) (loaded t i pg m)"
  note i = free_headD(3,5) [OF assms(2)]
  have same: "same_arrays m ?m1" by (simp add: same_arrays_def pinned_def loaded_def)
  have pg: "page_of (bm_bytes ?m1 ! i) (PAGESIZE - n) = 0" "load64 (page_of (bm_bytes ?m1 ! i)) 4 = word_of_nat leaf"
    using p(1) assms(16,17) i by simp_all
  have ins: "btree_insert L (btree_get_sep_list c) ka1 va1 ka va (Some c) (Some key) val len s =
      bind_res (buff_pin L ka va (Some ?m1) 0 (word_of_nat leaf) s) (\<lambda>(st, fp, man, s1).
        Inr (st, Some (c\<lparr>bt_manager := man\<rparr>), s1))" for ka va
    using insert_pinned_root [OF assms(2) p(4) same assms(3) _ assms(13-15,21) pg, of L ka1 va1 s s ka va key]
      p(3) assms(4) by simp
  have "buff_pin L ka1 va2 (Some ?m1) 0 (word_of_nat leaf) s = Inr (STATUS_OK, frame_ptr ?m1 (word_of_nat i), Some ?m1, s)"
    using glib_table.pin_hit [OF assms(1) p(4) _ assms(20) live_index(1) [OF assms(11,18)], where ka = ka1] p(2) by simp
  then have 1: "\<exists>m1. btree_insert L (btree_get_sep_list c) ka1 va1 ka1 va2 (Some c) (Some key) val len s
         = Inr (STATUS_OK, Some (c\<lparr>bt_manager := Some m1\<rparr>), s)
       \<and> page_of (bm_bytes m1 ! i) = ps_data a root \<and> mf_index (bm_metas m1 ! i) = word_of_nat root"
    using p(1) i by (intro exI [of _ ?m1]) (simp add: ins)
  have "\<exists>m2. btree_insert L (btree_get_sep_list c) ka1 va1 ka2 va2 (Some c) (Some key) val len s
         = Inr (STATUS_OK, Some (c\<lparr>bt_manager := Some m2\<rparr>), s)
       \<and> page_of (bm_bytes m2 ! i) = ps_data a leaf \<and> mf_index (bm_metas m2 ! i) = word_of_nat leaf"
    if "bindings (bm_lookup m) ka2 = None" "ka2 \<noteq> ka1"
  proof -
    have n: "mf_next (bm_metas ?m1 ! i) = meta_ptr ?m1 k" "k < length (bm_metas ?m1)" "bm_store ?m1 = Some b"
      "bindings (bm_lookup ?m1) ka2 = None"
      using i assms(8-10) that p(2) by simp_all
    obtain pg' t' where 2: "page_of pg' = ps_data a leaf"
      "buff_pin L ka2 va2 (Some ?m1) 0 (word_of_nat leaf) s = Inr (STATUS_OK, frame_ptr ?m1 (word_of_nat i),
         Some (pinned i k (word_of_nat leaf) (loaded t' i pg' ?m1)), s)"
      by (rule pin [OF p(4) n(1-3) assms(11,18) n(4)])
    then show ?thesis
      using i by (intro exI [of _ "pinned i k (word_of_nat leaf) (loaded t' i pg' ?m1)"]) (simp add: ins)
  qed
  with 1 show ?thesis by blast
qed

text \<open>A root page whose entry 0 is page 2.\<close>

definition demo_root :: mem where
  "demo_root = store64 zero_mem 4 2"

theorem insert_reports_success_witness:
  "\<exists>s m2. put_page demo_root (Some demo_b) 1 demo3 = (STATUS_OK, s)
     \<and> btree_insert demo_libs (btree_get_sep_list demo_config) 1 2 3 4 (Some demo_config) (Some demo_page) (Some demo_page) 5 s
       = Inr (STATUS_OK, Some (demo_config\<lparr>bt_manager := Some m2\<rparr>), s)
     \<and> page_of (bm_bytes m2 ! 0) = page_of demo_page"
proof -
  let ?a = "ps_put 1 demo_root demo_a3"
  obtain s where s: "put_page demo_root (Some demo_b) (word_of_nat 1) demo3 = (STATUS_OK, s)" "store_at demo_b s ?a"
    using sim_put [OF demo3_store(1,2)] by blast
  have d: "ps_data ?a 1 = page_of demo_root" "ps_data ?a 2 = page_of demo_page"
    by (simp_all add: ps_put_def demo_a3_def ps_alloc_def demo_a1_def src_page_def)
  have r: "demo_root (PAGESIZE - 8) = 0" "load64 demo_root 4 = word_of_nat 2"
    by (simp_all add: demo_root_def store64_other PAGESIZE_def)
  have n: "bt_root demo_config = word_of_nat 1" "mf_next (bm_metas demo_man ! 0) = meta_ptr demo_man 1"
    "1 < length (bm_metas demo_man)" "(0 :: nat) \<noteq> 1" "mf_next (bm_metas demo_man ! 1) = meta_ptr demo_man 2"
    "2 < length (bm_metas demo_man)" "map_of (bm_lookup demo_man) 1 = None"
    by (simp_all add: demo_man_init eval_nat_numeral)
  have k: "(2 :: i64) \<noteq> 0" "unat (bt_key_size demo_config) = 8" "(0 :: nat) < 8" "(8 :: nat) \<le> 4092" by simp_all
  have dd: "ps_data ?a 1 (PAGESIZE - 8) = 0" "load64 (ps_data ?a 1) 4 = word_of_nat 2" "ps_live ?a 1" "ps_live ?a 2"
    unfolding d using demo3_store(2,3) r load64_page_of [of 4 demo_root]
    by (simp_all add: PAGESIZE_def) (simp add: page_of_def PAGESIZE_def)
  show ?thesis
    using insert_reports_success [OF alist.glib_table_axioms demo_man_init(2) demo_config_simps(1) n(1-6)
        demo_man_init(5) s(2) dd(3) k(2-4) dd(1,2,4) n(7) k(1), of 5 "Some demo_page" "[100, 200]" 4 demo_page 3] s(1) d(2)
    by (auto simp: demo_man_init(6))
qed

end
