(* ===== verification/TreeLifecycle.thy ===== *)
theory TreeLifecycle
  imports BTreeInsert
begin

text \<open>
  Creating, opening and filling a tree: \<open>btree_create\<close>, \<open>btree_open\<close> and \<open>btree_insert\<close> one
  after the other on one manager and store.
\<close>

lemma open_created_root:
  assumes "1 \<le> root" and "root < MAX_PAGES" and "0 < unat key_size"
  shows "btree_open (Some c) (Some m) (word_of_nat root) key_size comparator = (STATUS_OK, Some (pick_comparator comparator
           (c\<lparr>bt_manager := Some m, bt_key_size := key_size, bt_root := word_of_nat root\<rparr>)))"
proof -
  have "sint (word_of_nat root :: i64) = int root"
    using assms(2) by (intro sint_word_of_nat) (simp add: MAX_PAGES_def)
  moreover have "\<not> key_size < SMALLEST_KEY_SIZE"
    using assms(3) by (simp add: SMALLEST_KEY_SIZE_def word_less_nat_alt)
  ultimately show ?thesis using assms(1) by (simp add: btree_open_def LOWEST_PAGE_def)
qed

text \<open>
  C20: The life of a tree, without faults, on a manager whose free list has a frame and a successor
  and whose table keeps GLib's promises, over a store \<^bold>\<open>without free pages\<close>, with a key size from
  1 to 4092, the two node allocations of \<open>btree_create\<close> pinning from one address and the insertion
  from another.  \<open>btree_create\<close> returns \<open>STATUS_ERR\<close> but leaves a root page behind in a store
  that is two pages longer.  Opening a tree at that root succeeds, and the first insertion into
  it fails with \<open>STATUS_META_PAGE\<close>: what \<open>btree_create\<close> wrote into the nodes never reaches the
  disk, so that the root, a new page, is still blank and its entry 0 names the metadata page.
  (A recycled root page would begin with its old link, and its entry 0 would be read from there.)
\<close>

theorem created_tree_is_unusable:
  assumes "glib_table L bindings" and "free_head m i" and "mf_next (bm_metas m ! i) = meta_ptr m j" "j < length (bm_metas m)"
    and "bm_store m = Some b" "store_at b s a" "ps_free a = []" "1 \<le> ps_size a" "Suc (ps_size a) < MAX_PAGES"
    and "bindings (bm_lookup m) ka = None" "va \<noteq> 0"
    and "bindings (bm_lookup m) fresh1 = None" "malloced L fresh1" "fresh1 \<noteq> ka"
      "bindings (bm_lookup m) fresh2 = None" "malloced L fresh2" "fresh2 \<noteq> ka"
    and "bindings (bm_lookup m) kb = None" "kb \<noteq> ka" and "unat key_size = n" "0 < n" "n \<le> 4092"
    and "\<not> (len = 0 \<and> val \<noteq> None)"
  shows "\<exists>c1 m1 s1 c2 c3. btree_create L ka va ka va fresh1 fresh2 (Some c) (Some m) key_size comparator s
       = Inr (STATUS_ERR, Some c1, s1) \<and> bt_manager c1 = Some m1
     \<and> store_at b s1 (snd (ps_alloc None (snd (ps_alloc None a))))
     \<and> btree_open (Some c) (Some m1) (bt_root c1) key_size comparator = (STATUS_OK, Some c2)
     \<and> bt_root c2 = word_of_nat (ps_size a)
     \<and> btree_insert L (btree_get_sep_list c2) kb vb ka2 va2 (Some c2) (Some key) val len s1
       = Inr (STATUS_META_PAGE, Some c3, s1)"
proof -
  let ?a2 = "snd (ps_alloc None (snd (ps_alloc None a)))"
  obtain c1 m1 s1 where r: "btree_create L ka va ka va fresh1 fresh2 (Some c) (Some m) key_size comparator s
      = Inr (STATUS_ERR, Some c1, s1)" "bt_manager c1 = Some m1" "bt_root c1 = word_of_nat (ps_size a)"
    "free_head m1 i" "same_arrays m m1" "mf_next (bm_metas m1 ! i) = meta_ptr m1 i" "bm_store m1 = Some b"
    "store_at b s1 ?a2" "bindings (bm_lookup m1) = (bindings (bm_lookup m))(ka \<mapsto> va)"
    by (rule btree_create_run [OF assms(1-17)])
  define c2 where "c2 = pick_comparator comparator
    (c\<lparr>bt_manager := Some m1, bt_key_size := key_size, bt_root := word_of_nat (ps_size a)\<rparr>)"
  have c2: "bt_manager c2 = Some m1" "bt_root c2 = word_of_nat (ps_size a)" "unat (bt_key_size c2) = n"
    using assms(20) by (simp_all add: c2_def pick_comparator_def)
  have o: "btree_open (Some c) (Some m1) (bt_root c1) key_size comparator = (STATUS_OK, Some c2)"
    using open_created_root [OF assms(8), of key_size c m1 comparator] assms(9,20,21) r(3) by (simp add: c2_def)
  have a2: "ps_live ?a2 (ps_size a)" "ps_data ?a2 (ps_size a) = zero_mem"
    using assms(7,8) by (simp_all add: ps_alloc_def ps_live_def src_page_def)
  have d: "ps_data ?a2 (ps_size a) (PAGESIZE - n) = 0" "load64 (ps_data ?a2 (ps_size a)) 4 = 0"
    using a2(2) by (simp_all add: zero_mem_def load64_zero_mem [unfolded zero_mem_def])
  have k: "bindings (bm_lookup m1) kb = None" using assms(18,19) r(9) by simp
  obtain c3 where "btree_insert L (btree_get_sep_list c2) kb vb ka2 va2 (Some c2) (Some key) val len s1
       = Inr (STATUS_META_PAGE, Some c3, s1)"
    by (rule first_insert [OF assms(1) r(4) c2(1,2) r(6) free_headD(3) [OF r(4)] r(7,8) a2(1) c2(3) assms(21,22) d k assms(23)])
  with r(1,2,8) o c2(2) show ?thesis by blast
qed

theorem created_tree_is_unusable_witness:
  "\<exists>c1 m1 s1 c2 c3. btree_create demo_libs 1 2 1 2 100 200 (Some demo_config) (Some demo_man) 8 None demo3
       = Inr (STATUS_ERR, Some c1, s1) \<and> bt_manager c1 = Some m1
     \<and> btree_open (Some demo_config) (Some m1) (bt_root c1) 8 None = (STATUS_OK, Some c2) \<and> bt_root c2 = 3
     \<and> btree_insert demo_libs (btree_get_sep_list c2) 5 6 7 8 (Some c2) (Some demo_page) (Some demo_page) 9 s1
       = Inr (STATUS_META_PAGE, Some c3, s1)"
proof -
  have n: "mf_next (bm_metas demo_man ! 0) = meta_ptr demo_man 1" "1 < length (bm_metas demo_man)"
    "ps_free demo_a3 = []" "1 \<le> ps_size demo_a3" "Suc (ps_size demo_a3) < MAX_PAGES"
    "map_of (bm_lookup demo_man) 1 = None" "(2 :: i64) \<noteq> 0" "map_of (bm_lookup demo_man) 100 = None"
    "malloced demo_libs 100" "(100 :: i64) \<noteq> 1" "map_of (bm_lookup demo_man) 200 = None"
    "malloced demo_libs 200" "(200 :: i64) \<noteq> 1" "map_of (bm_lookup demo_man) 5 = None" "(5 :: i64) \<noteq> 1"
    "unat (8 :: i64) = 8" "(0 :: nat) < 8" "(8 :: nat) \<le> 4092" "\<not> ((9 :: i64) = 0 \<and> Some demo_page \<noteq> None)"
    by (simp_all add: demo_man_init alist_libs_def demo_a3_def ps_alloc_def demo_a1_def MAX_PAGES_def)
  have sz: "ps_size demo_a3 = 3" by (simp add: demo_a3_def ps_alloc_def demo_a1_def)
  show ?thesis
    using created_tree_is_unusable [OF alist.glib_table_axioms demo_man_init(2) n(1,2) demo_man_init(5)
        demo3_store(1) n(3-19), of demo_config None 6 7 8 demo_page]
    unfolding sz by fastforce
qed

end
