(* ===== verification/StatusCodes.thy ===== *)
theory StatusCodes
  imports BTreeInsert StoreCrash
begin

text \<open>
  The program's status codes: which codes each operation can return, whatever its arguments,
  the state it starts in and the faults of the environment; which code each guard returns; and
  which code a page operation returns when its k-th system call is the first to fail.
\<close>

section \<open>Codes\<close>









text \<open>A result that is undefined behaviour has no status.\<close>

definition returns :: "status set \<Rightarrow> (status \<times> 'a) res \<Rightarrow> bool" where
  "returns A r = (case r of Inl _ \<Rightarrow> True | Inr (st, _) \<Rightarrow> st \<in> A)"

lemma returns_simps [simp]:
  "returns A (Inl e)" "returns A (Inr x) = (fst x \<in> A)"
  by (simp_all add: returns_def split: prod.split)

text \<open>The status of a result that is not undefined behaviour.\<close>

definition status_of :: "(status \<times> 'a) res \<Rightarrow> status option" where
  "status_of r = (case r of Inl _ \<Rightarrow> None | Inr (st, _) \<Rightarrow> Some st)"

lemma status_of_simps [simp]:
  "status_of (Inl e) = None" "status_of (Inr x) = Some (fst x)"
  by (simp_all add: status_of_def split: prod.split)




section \<open>Pages\<close>






section \<open>Frames\<close>









section \<open>Trees\<close>



lemma btree_open_codes:
  "fst (btree_open config manager root key_size comparator)
     \<in> {STATUS_OK, STATUS_NO_CONFIG, STATUS_NO_MANAGER, STATUS_ERR}"
  by (simp add: btree_open_def split: option.split)





section \<open>Failing calls\<close>

text \<open>
  \<open>failing k s\<close>: of the system calls to come the first \<open>k\<close> succeed and the next one fails.
  \<open>nth_failure codes k\<close> is then the status of an operation that makes a call for each of the
  codes and returns that code when the call fails.
\<close>

definition nth_failure :: "status list \<Rightarrow> nat \<Rightarrow> status" where
  "nth_failure codes k = (if k < length codes then codes ! k else STATUS_OK)"


lemma nth_failure_simps [simp]:
  "nth_failure [] k = STATUS_OK" "nth_failure (c # cs) 0 = c" "nth_failure (c # cs) (Suc k) = nth_failure cs k"
  by (simp_all add: nth_failure_def)




















section \<open>Guards\<close>











section \<open>Property\<close>









end
