(* ===== verification/Programs.thy ===== *)
theory Programs
  imports StoreProperties
begin

text \<open>
  The three programs of the repository: \<open>src/nickdb.c\<close> and the drivers
  \<open>tests/fileiotest.c\<close> and \<open>tests/pageiotest.c\<close>.  A program maps the operating-system state
  and the console to its exit status and their final values; a console entry is one call of
  \<open>printf\<close> or \<open>fprintf\<close>: the stream, the format and the integer arguments.  The command line
  is not used by any of them.
\<close>

section \<open>Console\<close>

datatype stream = Stdout | Stderr

type_synonym console = "(stream \<times> string \<times> int list) list"

definition newline :: char where
  "newline = CHR 0x0A"

definition printf :: "string \<Rightarrow> int list \<Rightarrow> console \<Rightarrow> console" where
  "printf format args out = out @ [(Stdout, format, args)]"

definition eprintf :: "string \<Rightarrow> int list \<Rightarrow> console \<Rightarrow> console" where
  "eprintf format args out = out @ [(Stderr, format, args)]"

section \<open>nickdb\<close>

definition nickdb_main :: "console \<Rightarrow> int \<times> console" where
  "nickdb_main out = (0, printf (''hello there'' @ [newline]) [] out)"

section \<open>The file test\<close>

text \<open>\<open>calloc(1, sizeof(backing))\<close>\<close>

definition calloc_backing :: backing where
  "calloc_backing = \<lparr>storefd = 0\<rparr>"

text \<open>The three lines that both halves of the test print about a backing, and its closing.\<close>

definition print_fd :: "backing \<Rightarrow> console \<Rightarrow> console" where
  "print_fd file out =
     eprintf ([newline] @ '' closing filestore...'' @ [newline]) []
       (eprintf (''storefd: %i'' @ [newline]) [storefd file]
         (eprintf ([newline] @ ''printing file descriptor:'' @ [newline]) [] out))"

definition fileio_finish :: "os \<Rightarrow> console \<Rightarrow> int \<times> os \<times> console" where
  "fileio_finish s out =
     (case remove_backing ''testfilename'' s of (file_status, s1) \<Rightarrow>
        if file_status \<noteq> STATUS_OK
        then (int (status_code STATUS_BAD_REMOVE), s1, eprintf ''files could not be removed.!'' [] out)
        else (int (status_code STATUS_OK), s1, eprintf (''files removed!'' @ [newline]) [] out))"

definition fileio_test :: "os \<Rightarrow> console \<Rightarrow> (int \<times> os \<times> console) res" where
  "fileio_test s out =
     bind_res (create_new_backing ''testfilename'' (Some calloc_backing) s) (\<lambda>(file_status, file, s1).
       if file_status \<noteq> STATUS_OK
       then Inr (int (status_code STATUS_TEST_ERR), s1, eprintf ''could not create files! status was NOT OK'' [] out)
       else
         let out1 = print_fd file out in
         case close_backing (Some file) s1 of (_, s2) \<Rightarrow>
           bind_res (open_backing ''testfilename'' (Some calloc_backing) s2) (\<lambda>(file_status, file, s3).
             if file_status \<noteq> STATUS_OK
             then Inr (int (status_code STATUS_TEST_ERR), s3,
                       eprintf ''could not create files! status was NOT OK'' [] out1)
             else
               let out2 = print_fd file out1 in
               case close_backing (Some file) s3 of (_, s4) \<Rightarrow> Inr (fileio_finish s4 out2)))"

section \<open>The page test\<close>

definition memset :: "mem \<Rightarrow> byte \<Rightarrow> nat \<Rightarrow> mem" where
  "memset m c n = (\<lambda>i. if i < n then c else m i)"

text \<open>The comparing loop: \<open>i\<close> is the loop variable, the last argument the rounds left.\<close>

fun pages_match :: "mem \<Rightarrow> mem \<Rightarrow> nat \<Rightarrow> nat \<Rightarrow> bool" where
  "pages_match src dest i 0 = True"
| "pages_match src dest i (Suc n) = (if src i \<noteq> dest i then False else pages_match src dest (Suc i) n)"

definition pageio_finish :: "backing \<Rightarrow> os \<Rightarrow> console \<Rightarrow> int \<times> os \<times> console" where
  "pageio_finish file s out =
     (let out1 = printf ([newline] @ '' closing filestore...'' @ [newline]) [] out in
      case close_backing (Some file) s of (_, s1) \<Rightarrow>
        case remove_backing ''teststore'' s1 of (removed, s2) \<Rightarrow>
          if status_code removed = 0 then (0, s2, printf (''files removed!'' @ [newline]) [] out1)
          else (- 1, s2, printf ''files could not be removed.!'' [] out1))"

definition pageio_test :: "os \<Rightarrow> console \<Rightarrow> (int \<times> os \<times> console) res" where
  "pageio_test s out =
     bind_res (create_new_backing ''teststore'' (Some calloc_backing) s) (\<lambda>(storestatus, file, s1).
       if storestatus \<noteq> STATUS_OK
       then Inr (- 1, s1, printf ''could not create files! structure was NULL'' [] out)
       else
         let out1 = printf (''storefd: %i'' @ [newline]) [storefd file]
                      (printf ([newline] @ ''printing file descriptors:'' @ [newline]) [] out);
             first_src = memset zero_mem 65 PAGESIZE in
         case alloc_page (Some first_src) (Some file) s1 of (first_status, first, s2) \<Rightarrow>
           if first_status \<noteq> STATUS_OK
           then Inr (- 1, s2, printf ([newline] @ ''could not get page!'' @ [newline]) [] out1)
           else
             let out2 = printf (''getting page'' @ [newline]) [] out1 in
             case get_page zero_mem (Some file) 1 s2 of (got, first_dest, s3) \<Rightarrow>
               if status_code got \<noteq> 0 then Inr (- 1, s3, printf (''error getting page'' @ [newline]) [] out2)
               else if \<not> pages_match first_src first_dest 0 PAGESIZE
               then Inr (- 1, s3, printf (''pages do not match!'' @ [newline]) [] out2)
               else Inr (pageio_finish file s3 out2))"

end
