(* ===== verification/ProgramProperties.thy ===== *)
theory ProgramProperties
  imports Programs
begin

text \<open>
  What the programs do: \<open>nickdb\<close> prints one line and succeeds; the two tests pass in a
  fault-free environment, whatever files are there, and under faults they still return, with
  success only when they have removed their store.
\<close>

section \<open>Directory entries\<close>

lemma open_creat_names:
  "posix_open_creat name s = (fd, s1) \<Longrightarrow> names s1 = names s \<or> (\<exists>ino. names s1 = (names s)(name \<mapsto> ino))"
  by (auto simp: posix_open_creat_def fresh_fd_def split: if_splits option.splits)

lemma close_backing_names: "close_backing file s = (st, s1) \<Longrightarrow> names s1 = names s"
  by (auto simp: close_backing_def posix_close_def split: option.splits prod.splits if_splits)

lemma pwrite_names: "posix_pwrite fd m n off s = (w, s1) \<Longrightarrow> names s1 = names s"
  by (auto dest!: keeps_pwrite simp: keeps_def)

lemma create_returns:
  obtains st b s1 where "create_new_backing name (Some b0) s = Inr (st, b, s1)"
    "(names s1)(store_filename name := None) = (names s)(store_filename name := None)"
proof -
  obtain fd s2 where o: "posix_open_creat (store_filename name) s = (fd, s2)" by fastforce
  note n = open_creat_names [OF o]
  obtain w s3 where w: "posix_pwrite fd first_metadata PAGESIZE (index_to_offset 0) s2 = (w, s3)" by fastforce
  obtain c s4 where c: "close_backing (Some (b0\<lparr>storefd := fd\<rparr>)) s2 = (c, s4)" by fastforce
  obtain d s5 where d: "close_backing (Some (b0\<lparr>storefd := fd\<rparr>)) s3 = (d, s5)" by fastforce
  have "names s3 = names s2" "names s4 = names s2" "names s5 = names s2"
    using pwrite_names [OF w] close_backing_names [OF c] close_backing_names [OF d] by simp_all
  moreover have "\<exists>st. create_new_backing name (Some b0) s = Inr (st, b0\<lparr>storefd := fd\<rparr>,
      if fd = - 1 then s4 else if w \<noteq> int PAGESIZE then s5 else s3)"
    using o w c d by (cases "fd = - 1") (simp_all add: create_new_backing_def Let_def flip: first_metadata_def)
  ultimately show ?thesis using n by (auto intro: that)
qed

lemma open_returns:
  obtains st b s1 where "open_backing name (Some b0) s = Inr (st, b, s1)" "names s1 = names s"
proof -
  obtain fd s2 where o: "posix_open (store_filename name) s = (fd, s2)" by fastforce
  then have n: "names s2 = names s"
    by (auto simp: posix_open_def fresh_fd_def split: if_splits option.splits)
  obtain c s4 where c: "close_backing (Some (b0\<lparr>storefd := fd\<rparr>)) s2 = (c, s4)" by fastforce
  show ?thesis
    using o n c close_backing_names [OF c] that by (cases "fd = - 1") (auto simp: open_backing_def Let_def)
qed

lemma get_page_names: "get_page d (Some b) i s = (st, m, s') \<Longrightarrow> names s' = names s"
  by (auto simp: get_page_def Let_def split: prod.splits if_splits dest!: keeps_io) (auto simp: keeps_def)

lemma remove_names:
  "remove_backing name s = (st, s1) \<Longrightarrow>
   (st = STATUS_OK \<and> names s1 = (names s)(store_filename name := None)) \<or> st = STATUS_BAD_REMOVE"
  by (auto simp: remove_backing_def posix_remove_def split: if_splits option.splits prod.splits)

lemma remove_ok:
  "sched s = [] \<Longrightarrow> names s (store_filename name) = Some ino \<Longrightarrow>
   \<exists>s1. remove_backing name s = (STATUS_OK, s1) \<and> names s1 = (names s)(store_filename name := None)"
  by (simp add: remove_backing_def posix_remove_def tick_nil)

lemma page_of_eq: "page_of a = page_of b \<longleftrightarrow> (\<forall>i < PAGESIZE. a i = b i)"
  by (auto simp: page_of_def fun_eq_iff)

lemma pages_match_iff: "pages_match a b i n \<longleftrightarrow> (\<forall>k < n. a (i + k) = b (i + k))"
  by (induction n arbitrary: i) (simp_all add: All_less_Suc2)

lemma test_file_names [simp]:
  "store_filename ''testfilename'' = ''testfilename.store''" "store_filename ''teststore'' = ''teststore.store''"
  by (simp_all add: store_filename_def STOREEXT_def STOREEXTLEN_def)

lemma fileio_finish_status:
  assumes "fileio_finish s out = (r, s1, out1)"
  shows "r = int (status_code STATUS_BAD_REMOVE) \<or> r = 0 \<and> names s1 = (names s)(''testfilename.store'' := None)"
  using assms remove_names [of "''testfilename''" s]
  by (auto simp: fileio_finish_def split: prod.splits if_splits)

lemma pageio_finish_status:
  assumes "pageio_finish b s out = (r, s1, out1)"
  shows "r = - 1 \<or> r = 0 \<and> names s1 = (names s)(''teststore.store'' := None)"
proof -
  obtain c s2 where c: "close_backing (Some b) s = (c, s2)" by fastforce
  obtain st s3 where r: "remove_backing ''teststore'' s2 = (st, s3)" by fastforce
  show ?thesis
    using assms c r remove_names [OF r] close_backing_names [OF c]
    by (auto simp: pageio_finish_def Let_def split: if_splits)
qed

section \<open>Runs without faults\<close>

lemma fileio_test_passes:
  assumes "sched s = []"
  shows "\<exists>s' out'. fileio_test s out = Inr (0, s', out') \<and> names s' = (names s)(''testfilename.store'' := None)
      \<and> last out' = (Stderr, ''files removed!'' @ [newline], [])"
proof -
  obtain b s1 where 1: "create_new_backing ''testfilename'' (Some calloc_backing) s = Inr (STATUS_OK, b, s1)"
    "store_at b s1 ps_empty" "names s1 ''testfilename.store'' = fd_inode s1 (storefd b)"
    using create_backing_ok [OF assms, of "''testfilename''" calloc_backing] by auto
  have n1: "(names s1)(''testfilename.store'' := None) = (names s)(''testfilename.store'' := None)"
    using create_returns [of "''testfilename''" calloc_backing s] 1(1) by force
  from 1(2) obtain ino where ino: "sched s1 = []" "fd_inode s1 (storefd b) = Some ino"
    "store_rel (inodes s1 ino) ps_empty" by (rule store_atE)
  obtain s2 where 2: "close_backing (Some b) s1 = (STATUS_OK, s2)" "sched s2 = []" "names s2 = names s1"
    "inodes s2 = inodes s1"
    using close_backing_ok [OF ino(1,2)] by blast
  obtain b3 s3 where 3: "open_backing ''testfilename'' (Some calloc_backing) s2 = Inr (STATUS_OK, b3, s3)"
    "store_at b3 s3 ps_empty"
    using open_backing_ok [OF 2(2), of "''testfilename''" ino ps_empty calloc_backing] 1(3) 2(3,4) ino by auto
  have n3: "names s3 = names s2" using open_returns [of "''testfilename''" calloc_backing s2] 3(1) by force
  from 3(2) obtain ino3 where ino3: "sched s3 = []" "fd_inode s3 (storefd b3) = Some ino3" by (rule store_atE)
  obtain s4 where 4: "close_backing (Some b3) s3 = (STATUS_OK, s4)" "sched s4 = []" "names s4 = names s3"
    using close_backing_ok [OF ino3] by blast
  obtain s5 where 5: "remove_backing ''testfilename'' s4 = (STATUS_OK, s5)"
    "names s5 = (names s4)(''testfilename.store'' := None)"
    using remove_ok [of s4 "''testfilename''"] 4 n3 2(3) 1(3) ino(2) by auto
  show ?thesis
    using 1(1) 2(1,3) 3(1) 4(1,3) 5 n1 n3
    by (simp add: fileio_test_def fileio_finish_def Let_def eprintf_def)
qed

lemma pageio_test_passes:
  assumes "sched s = []"
  shows "\<exists>s' out'. pageio_test s out = Inr (0, s', out') \<and> names s' = (names s)(''teststore.store'' := None)
      \<and> last out' = (Stdout, ''files removed!'' @ [newline], [])"
proof -
  let ?src = "memset zero_mem 65 PAGESIZE"
  obtain b s1 where 1: "create_new_backing ''teststore'' (Some calloc_backing) s = Inr (STATUS_OK, b, s1)"
    "store_at b s1 ps_empty" "names s1 ''teststore.store'' = fd_inode s1 (storefd b)"
    using create_backing_ok [OF assms, of "''teststore''" calloc_backing] by auto
  have n1: "(names s1)(''teststore.store'' := None) = (names s)(''teststore.store'' := None)"
    using create_returns [of "''teststore''" calloc_backing s] 1(1) by force
  obtain s2 where 2: "alloc_page (Some ?src) (Some b) s1 = (STATUS_OK, word_of_nat 1, s2)"
    "store_at b s2 (snd (ps_alloc (Some ?src) ps_empty))"
    using sim_alloc_nil [OF 1(2), of "Some ?src"] by (auto simp: ps_empty_def MAX_PAGES_def)
  obtain d where 3: "get_page zero_mem (Some b) (word_of_nat 1) s2 = (STATUS_OK, d, s2)"
    "page_of d = page_of ?src"
    using sim_get [OF 2(2), of 1 zero_mem]
    by (auto simp: ps_alloc_def ps_empty_def ps_live_def src_page_def)
  have same: "pages_match ?src d 0 PAGESIZE"
    using 3(2) by (simp add: pages_match_iff page_of_eq)
  from 2(2) obtain ino where ino: "sched s2 = []" "fd_inode s2 (storefd b) = Some ino" by (rule store_atE)
  obtain s3 where 4: "close_backing (Some b) s2 = (STATUS_OK, s3)" "sched s3 = []" "names s3 = names s2"
    using close_backing_ok [OF ino] by blast
  have "names s2 = names s1" "fd_inode s2 = fd_inode s1"
    using keeps_alloc_page [OF 2(1)] fd_inode_cong [of s2 s1] by (simp_all add: keeps_def)
  with 1(3) ino(2) 4(3) have n3: "names s3 = names s1" "names s3 ''teststore.store'' = Some ino" by simp_all
  obtain s5 where 5: "remove_backing ''teststore'' s3 = (STATUS_OK, s5)"
    "names s5 = (names s3)(''teststore.store'' := None)"
    using remove_ok [of s3 "''teststore''"] 4(2) n3(2) by auto
  show ?thesis
    using 1(1) 2(1) 3(1) same 4(1) 5 n1 n3(1)
    by (simp add: pageio_test_def pageio_finish_def Let_def printf_def)
qed

section \<open>Programs\<close>

text \<open>
  The programs return whatever the file system does, and report success truthfully: \<open>nickdb\<close>
  always exits with 0 after one line of output; a test exits with 0 only after its store has
  been removed, and with one of its error codes otherwise.
\<close>

theorem programs_exit_status:
  "nickdb_main out = (0, out @ [(Stdout, ''hello there'' @ [newline], [])])
   \<and> (\<exists>r s' out'. fileio_test s out = Inr (r, s', out')
        \<and> (r = int (status_code STATUS_TEST_ERR) \<or> r = int (status_code STATUS_BAD_REMOVE)
           \<or> r = 0 \<and> names s' = (names s)(''testfilename.store'' := None)))
   \<and> (\<exists>r s' out'. pageio_test s out = Inr (r, s', out')
        \<and> (r = - 1 \<or> r = 0 \<and> names s' = (names s)(''teststore.store'' := None)))"
proof (intro conjI)
  show "nickdb_main out = (0, out @ [(Stdout, ''hello there'' @ [newline], [])])"
    by (simp add: nickdb_main_def printf_def)
next
  obtain st b s1 where 1: "create_new_backing ''testfilename'' (Some calloc_backing) s = Inr (st, b, s1)"
    "(names s1)(''testfilename.store'' := None) = (names s)(''testfilename.store'' := None)"
    by (rule create_returns [of "''testfilename''" calloc_backing s]) simp
  obtain c s2 where 2: "close_backing (Some b) s1 = (c, s2)" by fastforce
  obtain st3 b3 s3 where 3: "open_backing ''testfilename'' (Some calloc_backing) s2 = Inr (st3, b3, s3)"
    "names s3 = names s2"
    by (rule open_returns)
  obtain c4 s4 where 4: "close_backing (Some b3) s3 = (c4, s4)" by fastforce
  have "names s4 = names s1"
    using close_backing_names [OF 2] close_backing_names [OF 4] 3(2) by simp
  then show "\<exists>r s' out'. fileio_test s out = Inr (r, s', out')
        \<and> (r = int (status_code STATUS_TEST_ERR) \<or> r = int (status_code STATUS_BAD_REMOVE)
           \<or> r = 0 \<and> names s' = (names s)(''testfilename.store'' := None))"
    using 1 2 3(1) 4 fileio_finish_status [of s4]
    by (cases "fileio_finish s4 (print_fd b3 (print_fd b out))")
       (fastforce simp: fileio_test_def Let_def)
next
  obtain st b s1 where 1: "create_new_backing ''teststore'' (Some calloc_backing) s = Inr (st, b, s1)"
    "(names s1)(''teststore.store'' := None) = (names s)(''teststore.store'' := None)"
    by (rule create_returns [of "''teststore''" calloc_backing s]) simp
  obtain st2 p s2 where 2: "alloc_page (Some (memset zero_mem 65 PAGESIZE)) (Some b) s1 = (st2, p, s2)"
    by (cases "alloc_page (Some (memset zero_mem 65 PAGESIZE)) (Some b) s1")
  obtain st3 d s3 where 3: "get_page zero_mem (Some b) 1 s2 = (st3, d, s3)"
    by (cases "get_page zero_mem (Some b) 1 s2")
  have n: "names s3 = names s1"
    using keeps_alloc_page [OF 2] get_page_names [OF 3] by (simp add: keeps_def)
  show "\<exists>r s' out'. pageio_test s out = Inr (r, s', out')
        \<and> (r = - 1 \<or> r = 0 \<and> names s' = (names s)(''teststore.store'' := None))"
    using 1 2 3 n pageio_finish_status [of b s3]
    by (cases "pageio_finish b s3 (printf (''getting page'' @ [newline]) []
          (printf (''storefd: %i'' @ [newline]) [storefd b]
            (printf ([newline] @ ''printing file descriptors:'' @ [newline]) [] out)))")
       (fastforce simp: pageio_test_def Let_def)
qed

text \<open>
  C38: Both tests pass when no call fails, in every file system: they exit with 0, the last line
  they print reports the removal, and what their names stood for before is gone.
\<close>

theorem tests_pass:
  assumes "sched s = []"
  shows "(\<exists>s' out'. fileio_test s out = Inr (0, s', out') \<and> names s' = (names s)(''testfilename.store'' := None)
      \<and> last out' = (Stderr, ''files removed!'' @ [newline], []))
    \<and> (\<exists>s' out'. pageio_test s out = Inr (0, s', out') \<and> names s' = (names s)(''teststore.store'' := None)
      \<and> last out' = (Stdout, ''files removed!'' @ [newline], []))"
  using fileio_test_passes [OF assms] pageio_test_passes [OF assms] by simp

theorem tests_pass_witness:
  "(\<exists>s' out'. fileio_test init_os [] = Inr (0, s', out')) \<and> (\<exists>s' out'. pageio_test init_os [] = Inr (0, s', out'))"
  using tests_pass [of init_os "[]"] by (auto simp: init_os_def)

end
