(* ===== verification/Spec2Isabelle.thy ===== *)
theory Spec2Isabelle
  imports NameBuffer StoreProperties StoreQueue StoreCrash RetryProperties ListSessionProperties
    ManagerProperties ManagerWorkloads ManagerFaults ManagerRecovery BTreeProperties
    NodeLayout TreeLifecycle StatusCodes ProgramProperties
begin

text \<open>
  A model of nickdb, a page store with a buffer manager and the beginnings of a B-tree, and
  the theorems that say what it does.

  \<^bold>\<open>The program.\<close>  \<open>src/lib/fileio.c\<close> keeps a store: a file of 4096-byte pages whose page 0
  holds the size of the store and the head and tail of a list of free pages, linked through
  their first eight bytes.  \<open>src/lib/buffer_manager.c\<close> caches pages of one store in an array of
  frames; it calls \<open>alloc_page\<close>, \<open>free_page\<close>, \<open>get_page\<close> and \<open>put_page\<close>, keeps a free list and
  a write-back list through one \<open>next\<close> field of its frame metadata, and a GLib hash table.
  \<open>src/lib/datastructures/btree.c\<close> lays nodes over frames.  \<open>linkedlist.h\<close> is the Linux list
  library, of which the program uses nothing yet; \<open>constants.h\<close> and \<open>constants.c\<close> hold the
  sizes, the enumerations and the status names.  \<open>src/nickdb.c\<close> only prints a line; the two
  programs under \<open>tests/\<close> drive the store.

  \<^bold>\<open>Theories.\<close>
  \<^item> \<open>Prelude\<close>: machine words, undefined behaviour as a \<open>fault\<close>, bytes in memory.
  \<^item> \<open>Constants\<close>: \<open>constants.h\<close> and \<open>constants.c\<close>.  \<open>Posix\<close>: the file calls of \<open>fileio.c\<close>, each
    with an outcome from a schedule, so that short transfers and failures are covered.
  \<^item> \<open>FileIO\<close>: \<open>fileio.c\<close>, one definition per function, \<open>alloc_page\<close> and \<open>free_page\<close> split at
    their branches.  \<open>NameBuffer\<close>: the array in which the file names are built, byte by byte.  \<open>FreeList\<close>: the free list on disk.  \<open>PageStore\<close>: the abstract store \<open>pstore\<close>
    (size, FIFO queue of free pages, contents) and the simulation lemmas \<open>sim_*\<close>.
    \<open>StoreSafety\<close>: the interfaces \<open>page_allocator\<close>, \<open>page_io\<close> and \<open>page_manager\<close> of a page layer,
    proved for \<open>fileio.c\<close> (interpretation \<open>fio\<close>).  \<open>StoreFaults\<close>: behaviour under I/O faults.
    \<open>StoreProperties\<close>: the properties of the layer.  \<open>StoreQueue\<close>: the interface
    \<open>queued_allocator\<close> of an allocator that reuses the oldest free page first, proved for
    \<open>fileio.c\<close> (interpretation \<open>fioq\<close>), and that a freed page comes back.  \<open>StoreCrash\<close>: what
    a release that fails halfway leaves behind, and what no fault can touch.
    \<open>StoreSuccess\<close>: reported success under faults is success without them.  \<open>StoreRetry\<close>,
    \<open>RetryClient\<close> and \<open>RetryProperties\<close>: a client that repeats what fails; the interfaces above
    are proved for it once more (interpretation \<open>rio\<close>).
  \<^item> \<open>NodeList\<close>: the interface of a list that grows node by node.  \<open>ListHead\<close>, \<open>ListOps\<close>,
    \<open>ListEntries\<close> and \<open>HList\<close>: \<open>linkedlist.h\<close> over a heap with one map per field, the
    abstractions \<open>dlist\<close> and \<open>hlist\<close>, the effect of each operation and macro, and the
    interpretations \<open>lstack\<close>, \<open>lqueue\<close> and \<open>hstack\<close>.  \<open>ListProperties\<close>: their properties.
    \<open>ListPool\<close>: any number of lists and the nodes on none of them (\<open>pool\<close>), and the interface
    \<open>linked_lists\<close> between a heap and such a pool; \<open>ListSession\<close> and \<open>HListSession\<close>: the
    contract of the operations as a step relation on pools, the interpretations \<open>dl\<close> and \<open>hl\<close>,
    and that every step of the code follows it; \<open>ListSessionProperties\<close>: whole sessions.
  \<^item> \<open>BufferManager\<close>: \<open>buffer_manager.c\<close> over addresses.  \<open>ManagerInv\<close>: well-formed managers, the
    address arithmetic and what each operation may change.  \<open>GlibTable\<close>: what the code relies
    on of the hash table (locale \<open>glib_table\<close>) and an instance.  \<open>ManagerSession\<close>: the states a
    client reaches.  \<open>ManagerOps\<close>: the operations on a working store.  \<open>ManagerProperties\<close>:
    their properties.  \<open>ManagerWorkloads\<close>: reading clients (pin, copy, unpin) and a client
    that pins over a dirty page.  \<open>ManagerFaults\<close>: what a failed read or write leaves behind.
    \<open>ManagerRecovery\<close>: a flush that lost writes, repeated.
  \<^item> \<open>BTree\<close>: \<open>btree.c\<close> but insertion; \<open>BTreeProperties\<close>: keys, the separator search and
    creation; \<open>NodeLayout\<close>: where separators and records lie in a page; \<open>BTreeInsert\<close>:
    \<open>btree_insert\<close>; \<open>TreeLifecycle\<close>: create, open and insert one after the other.
  \<^item> \<open>StatusCodes\<close>: the codes every operation of the three layers can return, the code of each
    guard, and the code of a page operation whose k-th call is the first to fail.
  \<^item> \<open>Programs\<close> and \<open>ProgramProperties\<close>: \<open>nickdb.c\<close> and the two test programs, over the
    files and a console that records the calls of \<open>printf\<close>.

  \<^bold>\<open>What is shown.\<close>  Without I/O faults, the page operations refine the abstract store: while the
  store stays within 4096 pages and its client frees and writes only what it holds, no page
  is handed out twice and pages keep their contents; a store survives closing.  The exceptions
  are proved as such: a page reused without a source is not blank, and the misplaced blank
  page may destroy a live one in a store of more than 4096 pages; a double free cuts the free list; failures between the writes of an operation,
  of which a failed release is the worst: it erases the page or leaves it to be handed out
  while its owner holds it.  Pages that an operation is not about survive every fault (for an
  allocation without a source, in a store of at most 4096 pages), an operation that reports
  success has had its full effect, and a client that repeats failed operations until they
  succeed sees the fault-free store, provided calls fail as a whole, pages are allocated
  without a source and the store stays within 4096 pages.  Within that bound freed pages come
  back in the order in which they were freed, so that no free page is starved.  The list operations are correct, with frames, one by one and in every session on
  any number of lists.  The buffer manager is shown to cache at most
  one page at a time: its free list never advances, a second pin from the same call site is
  answered with the first page's frame, and the two lists share their links, so that a flush
  can run forever; a single dirty page does reach the disk, and so does any write-back list
  that ends.  Clients that only read, each from a call site of its own, see the pages of the
  store; a pin over a dirty page loses it, a failed read leaves its key bound, a failed write
  is not reported, but a second flush makes up for it.  Creating a tree always fails, as both
  its nodes get the same frame, and the root it leaves on disk, in a store without free pages,
  rejects the first insertion; \<open>btree_insert\<close> stores nothing at all.
  The programs return under every fault schedule and the tests pass when there are no faults.

  \<^bold>\<open>Bounds and fuel.\<close>  Stores have at most \<open>MAX_PAGES\<close> = 2^39 pages, which keeps the offset
  that \<open>alloc_page\<close> scales twice below 2^63; the session theorems keep them within 4096 pages,
  counting a page for each operation of the session, so that this write falls outside the store.  A manager's arrays do not wrap around the
  address space.  Loops that may not end have fuel: the length of the list plus one is enough
  for the list macros and the flush, the length of the key plus one for the key size, and
  three rounds for the separator search, one attempt more than there are entries in the
  schedule for a repeated page operation; that no fuel is enough is a theorem where it is so.

  \<^bold>\<open>Parameters.\<close>  The GLib hash table and the set of addresses that may be freed are the
  record \<open>libs\<close>, with the laws of \<open>glib_table\<close>; addresses of locals and results of \<open>calloc\<close> are
  arguments.  \<open>btree_insert\<close> calls \<open>btree_get_sep_list\<close> with one argument where the header
  declares two, which no compiler accepts; the result of that call is the argument \<open>sep_list\<close>.
  What insertion leaves alone holds for all of them, the other properties take the function
  itself on the tree's configuration.

  \<^bold>\<open>Not modelled.\<close>  Failing allocations (but for the manager's arrays), leaked heap blocks, the file
  position, concurrent processes other than through the schedule.  \<open>btree_get\<close> and
  \<open>btree_get_root_id\<close> are declared in \<open>btree.h\<close> and defined nowhere, so there is nothing to
  model; \<open>btree_destroy\<close>, \<open>btree_remove\<close> and \<open>btree_insert_record_value\<close> are stubs in the code
  and modelled as such.
  What no definition is mapped to is comments, licence text, include guards, prototypes and
  notes for the compiler.
\<close>

end
